(* ===== verification/Prelude.thy ===== *)
theory Prelude
  imports Main "HOL-Library.Word"
begin

text \<open>
  Shared vocabulary of the development: the machine-word types of the C sources, results
  that may fail (\<open>'e + 'a\<close>, with \<open>Inl\<close> for the failure) and their sequencing, and the
  generic lemmas on words that the components' proofs use.  Nothing here models a source
  file; every other theory imports it.
\<close>

unbundle bit_operations_syntax

section \<open>Types of the C sources\<close>

text \<open>
  \<open>lib/stdint.h\<close>: the unsigned types are words of their width; a signed type is the same
  word read with \<^const>\<open>sint\<close>.
\<close>

type_synonym u8 = "8 word"
type_synonym u16 = "16 word"
type_synonym u32 = "32 word"
type_synonym u64 = "64 word"

section \<open>Automation of the development\<close>

named_theorems word_nat \<open>equations that read word operations as operations on nat\<close>
named_theorems masks \<open>bit masks of the sources as shifts and truncations\<close>
named_theorems frame \<open>what an operation leaves unchanged\<close>

section \<open>Results that may fail\<close>

fun rbind :: "'e + 'a \<Rightarrow> ('a \<Rightarrow> 'e + 'b) \<Rightarrow> 'e + 'b" where
  "rbind (Inl e) f = Inl e"
| "rbind (Inr x) f = f x"

lemma rbind_cong [fundef_cong]:
  "r = r' \<Longrightarrow> (\<And>x. r' = Inr x \<Longrightarrow> f x = g x) \<Longrightarrow> rbind r f = rbind r' g"
  by (cases r') auto

lemma rbind_Inr_iff [simp]:
  "rbind r f = Inr y \<longleftrightarrow> (\<exists>x. r = Inr x \<and> f x = Inr y)"
  by (cases r) auto

lemma rbind_Inl_iff [simp]:
  "rbind r f = Inl e \<longleftrightarrow> r = Inl e \<or> (\<exists>x. r = Inr x \<and> f x = Inl e)"
  by (cases r) auto

lemma rbind_assoc: "rbind (rbind r f) g = rbind r (\<lambda>x. rbind (f x) g)"
  by (cases r) auto

section \<open>Words read as natural numbers\<close>

lemma unat_drop_bit_div [word_nat]: "unat (drop_bit k (w :: 'a::len word)) = unat w div 2 ^ k"
  by (subst unat_drop_bit_eq) (rule drop_bit_eq_div)

lemma unat_take_bit_mod [word_nat]: "unat (take_bit k (w :: 'a::len word)) = unat w mod 2 ^ k"
  by (simp add: unsigned_take_bit_eq flip: take_bit_eq_mod)

lemma unat_push_bit_mult [word_nat]:
  "unat (push_bit k (w :: 'a::len word)) = unat w * 2 ^ k mod 2 ^ LENGTH('a)"
  by (metis unsigned_push_bit_eq push_bit_eq_mult take_bit_eq_mod)

lemma unat_ucast_mod [word_nat]: "unat (ucast (w :: 'a::len word) :: 'b::len word) = unat w mod 2 ^ LENGTH('b)"
  by (simp add: unsigned_ucast_eq take_bit_eq_mod)

lemma unat_neqI: "unat (a :: 'a::len word) \<noteq> unat b \<Longrightarrow> a \<noteq> b"
  by blast

lemma unat_of_nat32: "n < 4294967296 \<Longrightarrow> unat (of_nat n :: u32) = n"
  by (simp add: unat_of_nat)

lemma unat_u32_bound: "unat (w :: u32) < 4294967296"
  using unsigned_less [of w] by simp

lemma unat_u8_bound: "unat (w :: u8) < 256"
  using unsigned_less [of w] by simp

lemma unat_succ_lt [word_nat]: "(i :: 'a::len word) < n \<Longrightarrow> unat (i + 1) = Suc (unat i)"
  using less_trans_Suc [of "unat i" "unat n" "2 ^ LENGTH('a)"] unsigned_less [of n]
  by (simp add: unat_word_ariths word_less_nat_alt)

lemma unat_pred [word_nat]: "(n :: 'a::len word) \<noteq> 0 \<Longrightarrow> unat (n - 1) = unat n - 1"
  by (simp add: unat_minus_one)

lemma unat_pred_less: "(n :: 'a::len word) \<noteq> 0 \<Longrightarrow> unat (n - 1) < unat n"
  by (simp add: unat_minus_one unat_gt_0)

text \<open>A counter that the \<open>loop\<close> instruction counts down: it goes on unless the decremented counter is 0.\<close>

lemma loop_measure: "(c :: 'a::len word) \<noteq> 1 \<Longrightarrow> unat (c - 2) < unat (c - 1)"
  using unat_pred_less [of "c - 1"] by simp

lemma unat_add_no_wrap: "unat (a :: u32) + n < 4294967296 \<Longrightarrow> unat (a + of_nat n) = unat a + n"
  by (simp add: unat_word_ariths unat_of_nat)

lemma unat_diff_less_iff:
  assumes "unat (a :: u32) + n \<le> 4294967296"
  shows "unat (p - a) < n \<longleftrightarrow> unat a \<le> unat p \<and> unat p < unat a + n"
  using assms unat_u32_bound [of p] by (subst unat_sub_if') auto

lemma sint_eq_iff: "sint (x :: 'a::len word) = sint y \<longleftrightarrow> x = y"
  by (rule word_eq_iff_signed [symmetric])

lemma sint_u8: "sint (x :: u8) = (if uint x < 128 then uint x else uint x - 256)"
proof -
  have b: "0 \<le> uint x" "uint x < 256" using uint_lt2p [of x] by simp_all
  have s: "sint x = (uint x + 2 ^ 7) mod 2 ^ Suc 7 - 2 ^ 7"
    by (simp add: sint_uint signed_take_bit_eq_take_bit_shift take_bit_eq_mod)
  show ?thesis
  proof (cases "uint x < 128")
    case False
    have "(uint x + 128) mod 256 = (uint x - 128 + 256) mod 256" by (simp add: algebra_simps)
    also have "\<dots> = uint x - 128" using b False by (subst mod_add_self2) simp
    finally show ?thesis using s False by simp
  qed (use b s in simp)
qed

lemma sint_eq_uint: "sint (x :: u8) = uint ch \<longleftrightarrow> x = ch \<and> ch < 0x80"
proof -
  have "uint x < 256" using uint_lt2p [of x] by simp
  then have "uint x - 256 \<noteq> uint ch" using uint_ge_0 [of ch] by linarith
  then show ?thesis unfolding sint_u8 word_less_def word_uint_eq_iff by auto
qed

lemma sint_nonneg_u32:
  assumes "0 \<le> sint (x :: u32)"
  shows "sint x = int (unat x)" "unat x < 0x80000000"
proof -
  have "uint x = take_bit 32 (sint x)" using uint_sint [of x] by simp
  also have "\<dots> = sint x" using assms sint_lt [of x] by (simp add: take_bit_eq_mod)
  finally show "sint x = int (unat x)" by simp
  then have "int (unat x) < 0x80000000" using sint_lt [of x] by simp
  then show "unat x < 0x80000000" by linarith
qed

lemma option_eqI:
  assumes "\<And>b. x = Some b \<longleftrightarrow> y = Some b"
  shows "x = y"
  using assms [of "the x"] assms [of "the y"] by (cases x; cases y) simp_all

lemma takeWhile_neq [simp]: "x \<notin> set xs \<Longrightarrow> takeWhile (\<lambda>y. y \<noteq> x) xs = xs"
  by (induction xs) auto

section \<open>The masks of the sources\<close>

lemma and_fff [masks]: "(w :: u32) AND 0xfff = take_bit 12 w"
  by (simp add: take_bit_eq_mask mask_eq_exp_minus_1)

lemma and_3ff [masks]: "(w :: u32) AND 0x3ff = take_bit 10 w"
  by (simp add: take_bit_eq_mask mask_eq_exp_minus_1)

lemma and_fffff000 [masks]: "(w :: u32) AND 0xfffff000 = push_bit 12 (drop_bit 12 w)"
proof -
  have "(0xfffff000 :: u32) = push_bit 12 (mask 20)" by (simp add: mask_eq_exp_minus_1)
  then show ?thesis by (auto simp: bit_eq_iff bit_simps)
qed

lemma and_ffc00000 [masks]: "(w :: u32) AND 0xffc00000 = push_bit 22 (drop_bit 22 w)"
proof -
  have "(0xffc00000 :: u32) = push_bit 22 (mask 10)" by (simp add: mask_eq_exp_minus_1)
  then show ?thesis by (auto simp: bit_eq_iff bit_simps)
qed

lemma and_3ff000 [masks]: "(w :: u32) AND 0x003ff000 = push_bit 12 (take_bit 10 (drop_bit 12 w))"
proof -
  have "(0x003ff000 :: u32) = push_bit 12 (mask 10)" by (simp add: mask_eq_exp_minus_1)
  then show ?thesis by (auto simp: bit_eq_iff bit_simps)
qed

lemma and_ffff [masks]: "(w :: u32) AND 0xffff = take_bit 16 w"
  by (simp add: take_bit_eq_mask mask_eq_exp_minus_1)

lemma and_ffff0000 [masks]: "(w :: u32) AND 0xffff0000 = push_bit 16 (drop_bit 16 w)"
proof -
  have "(0xffff0000 :: u32) = push_bit 16 (mask 16)" by (simp add: mask_eq_exp_minus_1)
  then show ?thesis by (auto simp: bit_eq_iff bit_simps)
qed

lemma and_one_iff_bit0: "(w :: 'a::len word) AND 1 = 0 \<longleftrightarrow> \<not> bit w 0"
  by (simp add: and_one_eq even_iff_mod_2_eq_zero bit_0)

end
