(* ===== verification/Paging.thy ===== *)
theory Paging
  imports Prelude
begin

text \<open>
  The memory the kernel of \<open>os-elephant\<close> runs on: physical memory as bytes, the two-level
  page walk of the processor through the page directory at \<open>PAGE_DIR_TABLE_POS\<close>, and the
  loads and stores through it that every C access to memory is.  A walk that meets an entry
  whose present bit is clear is a page fault, the failure of the access.  The boot loader
  loads \<open>cr3\<close> with \<open>PAGE_DIR_TABLE_POS\<close> (\<open>boot/loader.S\<close>) and nothing changes it later, so
  the page directory's address is a constant here.  Protection bits do not matter to
  supervisor code with \<open>CR0.WP\<close> clear; accessed and dirty bits and the TLB are not modelled.

  The second half gives the notion that carries the proofs about memory: a \<open>data_region\<close>,
  a set of virtual addresses that are mapped, to different physical bytes, none of which is
  part of the page tables that map the region.  On a data region, memory behaves as an array
  of bytes; the locale \<open>byte_store\<close> states that contract, and the loads and stores below
  are an interpretation of it.
\<close>

section \<open>Failures\<close>

text \<open>
  \<open>Panic file line function condition\<close> is a call of \<open>panic_spin\<close> (\<open>kernel/debug.c\<close>) with
  these arguments; \<open>PageFault v\<close> is an access to the unmapped virtual address \<open>v\<close>.
\<close>

datatype fault =
    PageFault u32
  | Panic string nat string string

type_synonym 'a result = "fault + 'a"

section \<open>Physical memory\<close>

type_synonym mem = "u32 \<Rightarrow> u8"

definition load32 :: "mem \<Rightarrow> u32 \<Rightarrow> u32" where
  "load32 m p = ucast (m p) OR push_bit 8 (ucast (m (p + 1)))
     OR push_bit 16 (ucast (m (p + 2))) OR push_bit 24 (ucast (m (p + 3)))"

definition store32 :: "mem \<Rightarrow> u32 \<Rightarrow> u32 \<Rightarrow> mem" where
  "store32 m p x = m(p := ucast x, p + 1 := ucast (drop_bit 8 x),
     p + 2 := ucast (drop_bit 16 x), p + 3 := ucast (drop_bit 24 x))"

definition word_bytes :: "u32 \<Rightarrow> u32 set" where
  "word_bytes p = {p, p + 1, p + 2, p + 3}"

section \<open>The page walk\<close>

definition PAGE_DIR_TABLE_POS :: u32 where
  "PAGE_DIR_TABLE_POS = 0x100000"

definition pde_addr :: "u32 \<Rightarrow> u32" where
  "pde_addr v = PAGE_DIR_TABLE_POS + 4 * drop_bit 22 v"

definition pte_addr :: "mem \<Rightarrow> u32 \<Rightarrow> u32" where
  "pte_addr m v = (load32 m (pde_addr v) AND 0xfffff000) + 4 * (drop_bit 12 v AND 0x3ff)"

definition translate :: "mem \<Rightarrow> u32 \<Rightarrow> u32 option" where
  "translate m v =
     (if load32 m (pde_addr v) AND 1 = 0 then None
      else if load32 m (pte_addr m v) AND 1 = 0 then None
      else Some ((load32 m (pte_addr m v) AND 0xfffff000) + (v AND 0xfff)))"

section \<open>Loads and stores by virtual address\<close>

text \<open>
  The 32-bit accesses of the sources are to addresses divisible by 4, whose four bytes are
  in one page: one walk serves all four.
\<close>

definition vread8 :: "mem \<Rightarrow> u32 \<Rightarrow> u8 result" where
  "vread8 m v = (case translate m v of None \<Rightarrow> Inl (PageFault v) | Some p \<Rightarrow> Inr (m p))"

definition vwrite8 :: "mem \<Rightarrow> u32 \<Rightarrow> u8 \<Rightarrow> mem result" where
  "vwrite8 m v x =
     (case translate m v of None \<Rightarrow> Inl (PageFault v) | Some p \<Rightarrow> Inr (m(p := x)))"

definition vread32 :: "mem \<Rightarrow> u32 \<Rightarrow> u32 result" where
  "vread32 m v = (case translate m v of None \<Rightarrow> Inl (PageFault v) | Some p \<Rightarrow> Inr (load32 m p))"

definition vwrite32 :: "mem \<Rightarrow> u32 \<Rightarrow> u32 \<Rightarrow> mem result" where
  "vwrite32 m v x =
     (case translate m v of None \<Rightarrow> Inl (PageFault v) | Some p \<Rightarrow> Inr (store32 m p x))"

section \<open>Words in memory\<close>

lemma load32_store32 [simp]: "load32 (store32 m p x) p = x"
proof (rule bit_word_eqI)
  fix n assume "n < LENGTH(32)"
  then show "bit (load32 (store32 m p x) p) n = bit x n"
    by (cases "n < 8"; cases "n < 16"; cases "n < 24")
      (simp_all add: load32_def store32_def bit_simps not_less less_diff_conv2)
qed

lemma load32_cong: "(\<And>q. q \<in> word_bytes p \<Longrightarrow> m' q = m q) \<Longrightarrow> load32 m' p = load32 m p"
  by (simp add: load32_def word_bytes_def)

lemma store32_other: "q \<notin> word_bytes p \<Longrightarrow> store32 m p x q = m q"
  by (simp add: store32_def word_bytes_def)

lemma load32_store32_disjoint:
  "word_bytes p \<inter> word_bytes q = {} \<Longrightarrow> load32 (store32 m p x) q = load32 m q"
  by (rule load32_cong) (auto intro: store32_other)

lemma load32_upd_other: "p \<notin> word_bytes q \<Longrightarrow> load32 (m(p := x)) q = load32 m q"
  by (rule load32_cong) auto

section \<open>The bytes a walk depends on\<close>

definition walk_bytes :: "mem \<Rightarrow> u32 \<Rightarrow> u32 set" where
  "walk_bytes m v = word_bytes (pde_addr v) \<union> word_bytes (pte_addr m v)"

lemma pte_addr_cong:
  "(\<And>p. p \<in> walk_bytes m v \<Longrightarrow> m' p = m p) \<Longrightarrow> pte_addr m' v = pte_addr m v"
  using load32_cong [of "pde_addr v" m' m] by (simp add: pte_addr_def walk_bytes_def)

lemma walk_bytes_cong:
  "(\<And>p. p \<in> walk_bytes m v \<Longrightarrow> m' p = m p) \<Longrightarrow> walk_bytes m' v = walk_bytes m v"
  by (drule pte_addr_cong) (simp only: walk_bytes_def)

lemma translate_cong:
  assumes "\<And>p. p \<in> walk_bytes m v \<Longrightarrow> m' p = m p"
  shows "translate m' v = translate m v"
proof -
  have "load32 m' (pde_addr v) = load32 m (pde_addr v)"
    using assms by (intro load32_cong) (simp add: walk_bytes_def)
  moreover have "load32 m' (pte_addr m v) = load32 m (pte_addr m v)"
    using assms by (intro load32_cong) (simp add: walk_bytes_def)
  ultimately show ?thesis
    using pte_addr_cong [OF assms] by (simp add: translate_def)
qed

section \<open>Data regions\<close>

definition data_region :: "mem \<Rightarrow> u32 set \<Rightarrow> bool" where
  "data_region m S \<longleftrightarrow> (\<forall>v\<in>S. translate m v \<noteq> None) \<and> inj_on (translate m) S
     \<and> (\<forall>v\<in>S. \<forall>w\<in>S. the (translate m v) \<notin> walk_bytes m w)"

definition byte_at :: "mem \<Rightarrow> u32 \<Rightarrow> u8" where
  "byte_at m v = (case translate m v of None \<Rightarrow> 0 | Some p \<Rightarrow> m p)"

definition frames_of :: "mem \<Rightarrow> u32 set \<Rightarrow> u32 set" where
  "frames_of m S = (the \<circ> translate m) ` S"

lemma data_region_mono: "data_region m S \<Longrightarrow> T \<subseteq> S \<Longrightarrow> data_region m T"
  unfolding data_region_def by (meson inj_on_subset subset_eq)

lemma data_region_cong:
  assumes R: "data_region m S" and same: "\<And>p v. v \<in> S \<Longrightarrow> p \<in> walk_bytes m v \<Longrightarrow> m' p = m p"
  shows "data_region m' S" "v \<in> S \<Longrightarrow> translate m' v = translate m v"
proof -
  have t: "translate m' v = translate m v" if "v \<in> S" for v
    using same [OF that] by (rule translate_cong)
  have w: "walk_bytes m' v = walk_bytes m v" if "v \<in> S" for v
    using same [OF that] by (rule walk_bytes_cong)
  show "v \<in> S \<Longrightarrow> translate m' v = translate m v" by (rule t)
  have "inj_on (translate m') S"
    using R t unfolding data_region_def inj_on_def by metis
  with R t w show "data_region m' S"
    unfolding data_region_def by metis
qed

lemma region_translate:
  assumes "data_region m S" "v \<in> S"
  obtains p where "translate m v = Some p"
  using assms by (auto simp: data_region_def)

lemma vread8_region: "data_region m S \<Longrightarrow> v \<in> S \<Longrightarrow> vread8 m v = Inr (byte_at m v)"
  by (erule (1) region_translate) (simp add: vread8_def byte_at_def)

lemma vwrite8_region:
  assumes R: "data_region m S" and v: "v \<in> S"
  obtains m' where "vwrite8 m v x = Inr m'" "data_region m' S"
    "\<And>w. w \<in> S \<Longrightarrow> byte_at m' w = (if w = v then x else byte_at m w)"
    "\<And>w. w \<in> S \<Longrightarrow> translate m' w = translate m w"
    "\<And>p. p \<notin> frames_of m {v} \<Longrightarrow> m' p = m p"
proof -
  obtain p where p: "translate m v = Some p" using R v by (rule region_translate)
  let ?m = "m(p := x)"
  have same: "?m q = m q" if "w \<in> S" "q \<in> walk_bytes m w" for w q
    using R v that p by (auto simp: data_region_def)
  have R': "data_region ?m S" by (rule data_region_cong(1) [OF R]) (rule same)
  have t: "translate ?m w = translate m w" if "w \<in> S" for w
    by (rule data_region_cong(2) [OF R _ that]) (rule same)
  have "byte_at ?m w = (if w = v then x else byte_at m w)" if "w \<in> S" for w
  proof -
    from R \<open>w \<in> S\<close> obtain q where q: "translate m w = Some q" by (rule region_translate)
    have "q = p \<longleftrightarrow> w = v" using R v \<open>w \<in> S\<close> p q by (auto simp: data_region_def inj_on_def)
    with q \<open>w \<in> S\<close> show ?thesis by (auto simp: byte_at_def t)
  qed
  moreover have "vwrite8 m v x = Inr ?m" by (simp add: vwrite8_def p)
  ultimately show ?thesis
    using that [of ?m] R' t p by (auto simp: frames_of_def)
qed

text \<open>
  The contract of byte memory: reads return the bytes, a write succeeds, keeps the region and
  changes one byte of it.
\<close>

locale byte_store =
  fixes rd :: "'m \<Rightarrow> u32 \<Rightarrow> 'f + u8"
    and wr :: "'m \<Rightarrow> u32 \<Rightarrow> u8 \<Rightarrow> 'f + 'm"
    and region :: "'m \<Rightarrow> u32 set \<Rightarrow> bool"
    and byte :: "'m \<Rightarrow> u32 \<Rightarrow> u8"
  assumes rd_byte: "region m S \<Longrightarrow> v \<in> S \<Longrightarrow> rd m v = Inr (byte m v)"
    and wr_byte: "region m S \<Longrightarrow> v \<in> S \<Longrightarrow> \<exists>m'. wr m v x = Inr m' \<and> region m' S
      \<and> (\<forall>w\<in>S. byte m' w = (if w = v then x else byte m w))"
begin

lemma read_after_write:
  "region m S \<Longrightarrow> v \<in> S \<Longrightarrow> w \<in> S \<Longrightarrow>
     rbind (wr m v x) (\<lambda>m'. rd m' w) = Inr (if w = v then x else byte m w)"
  using wr_byte [of m S v x] by (auto simp: rd_byte)

lemma read_modify_write:
  assumes "region m S" "v \<in> S"
  shows "\<exists>m'. rbind (rd m v) (\<lambda>b. wr m v (f b)) = Inr m' \<and> region m' S
      \<and> (\<forall>w\<in>S. byte m' w = (if w = v then f (byte m v) else byte m w))"
  using wr_byte [OF assms, of "f (byte m v)"] by (simp add: rd_byte [OF assms])

end

interpretation vm: byte_store vread8 vwrite8 data_region byte_at
proof unfold_locales
  fix m S v x
  assume R: "data_region m S" "v \<in> S"
  then show "vread8 m v = Inr (byte_at m v)" by (rule vread8_region)
  show "\<exists>m'. vwrite8 m v x = Inr m' \<and> data_region m' S
      \<and> (\<forall>w\<in>S. byte_at m' w = (if w = v then x else byte_at m w))"
    using R by (rule vwrite8_region [where x = x]) blast
qed

section \<open>Updates of a region\<close>

text \<open>
  \<open>updates m S D f m'\<close>: \<open>m'\<close> is \<open>m\<close> with the bytes of \<open>D\<close> set to what \<open>f\<close> says; the other
  bytes of the region \<open>S\<close>, its mapping and all physical memory outside \<open>D\<close> are as before.
\<close>

definition updates :: "mem \<Rightarrow> u32 set \<Rightarrow> u32 set \<Rightarrow> (u32 \<Rightarrow> u8) \<Rightarrow> mem \<Rightarrow> bool" where
  "updates m S D f m' \<longleftrightarrow> data_region m' S
     \<and> (\<forall>w\<in>S. byte_at m' w = (if w \<in> D then f w else byte_at m w))
     \<and> (\<forall>w\<in>S. translate m' w = translate m w)
     \<and> (\<forall>p. p \<notin> frames_of m D \<longrightarrow> m' p = m p)"

lemma updates_refl: "data_region m S \<Longrightarrow> updates m S {} f m"
  by (simp add: updates_def)

lemma updates_region [dest]: "updates m S D f m' \<Longrightarrow> data_region m' S"
  by (simp add: updates_def)

lemma updates_byte: "updates m S D f m' \<Longrightarrow> w \<in> S \<Longrightarrow> byte_at m' w = (if w \<in> D then f w else byte_at m w)"
  by (simp add: updates_def)

lemma updates_byte_other: "updates m S D f m' \<Longrightarrow> w \<in> S \<Longrightarrow> w \<notin> D \<Longrightarrow> byte_at m' w = byte_at m w"
  by (simp add: updates_def)

lemma updates_translate: "updates m S D f m' \<Longrightarrow> w \<in> S \<Longrightarrow> translate m' w = translate m w"
  by (simp add: updates_def)

lemma updates_frame [frame]: "updates m S D f m' \<Longrightarrow> p \<notin> frames_of m D \<Longrightarrow> m' p = m p"
  by (simp add: updates_def)

lemma frames_of_cong: "(\<And>w. w \<in> D \<Longrightarrow> translate m' w = translate m w) \<Longrightarrow> frames_of m' D = frames_of m D"
  by (auto simp: frames_of_def)

lemma updates_trans:
  assumes 1: "updates m S D f m1" and 2: "updates m1 S E g m2" and "E \<subseteq> S"
  shows "updates m S (D \<union> E) (\<lambda>w. if w \<in> E then g w else f w) m2"
proof -
  have "frames_of m1 E = frames_of m E"
    by (rule frames_of_cong) (use 1 \<open>E \<subseteq> S\<close> in \<open>auto simp: updates_def\<close>)
  moreover have "frames_of m (D \<union> E) = frames_of m D \<union> frames_of m E"
    by (simp add: frames_of_def image_Un)
  ultimately show ?thesis
    using 1 2 by (auto simp: updates_def)
qed

lemma updates_cong:
  "updates m S D f m' \<Longrightarrow> D = E \<Longrightarrow> (\<And>w. w \<in> S \<Longrightarrow> w \<in> E \<Longrightarrow> f w = g w) \<Longrightarrow> updates m S E g m'"
  by (simp add: updates_def)

lemma vwrite8_updates:
  assumes "data_region m S" "v \<in> S"
  obtains m' where "vwrite8 m v x = Inr m'" "updates m S {v} (\<lambda>_. x) m'"
  using assms by (rule vwrite8_region [where x = x]) (auto simp: updates_def)

section \<open>Spans of addresses\<close>

definition span :: "u32 \<Rightarrow> nat \<Rightarrow> u32 set" where
  "span p n = (\<lambda>i. p + of_nat i) ` {..<n}"

lemma span_0 [simp]: "span p 0 = {}"
  by (simp add: span_def)

lemma span_Suc: "span p (Suc n) = insert p (span (p + 1) n)"
  by (simp add: span_def lessThan_Suc_eq_insert_0 image_image ac_simps)

lemma span_I: "i < n \<Longrightarrow> p + of_nat i \<in> span p n"
  by (simp add: span_def)

lemma span_E:
  assumes "w \<in> span p n" obtains i where "i < n" "w = p + of_nat i"
  using assms by (auto simp: span_def)

lemma span_mono: "k \<le> n \<Longrightarrow> span p k \<subseteq> span p n"
  by (auto simp: span_def)

lemma span_iff: "n \<le> 4294967296 \<Longrightarrow> w \<in> span p n \<longleftrightarrow> unat (w - p) < n"
proof
  assume n: "n \<le> 4294967296"
  show "unat (w - p) < n" if "w \<in> span p n"
    using that n by (auto simp: unat_of_nat32 elim!: span_E)
  show "w \<in> span p n" if "unat (w - p) < n"
    using span_I [OF that, of p] by simp
qed

end
