(* ===== verification/Page_Tables.thy ===== *)
theory Page_Tables
  imports Paging
begin

text \<open>
  The page tables the boot loader builds (\<open>setup_page\<close> of \<open>boot/loader.S\<close>), the invariant
  \<open>kernel_mapped\<close> they satisfy and what the page walk gives under it: the first megabyte of
  physical memory appears at \<open>0xc0000000\<close>, and the last directory entry, which points to the
  directory itself, makes every page table visible at the top of the address space.  Virtual
  addresses are split as \<open>va a b c\<close>: directory index, table index, offset.
\<close>

section \<open>\<open>setup_page\<close>\<close>

text \<open>The three loops, counted down in \<open>ecx\<close> as the \<open>loop\<close> instruction does.  The loader runs
  before paging is on, so the addresses are physical.\<close>

primrec clear_page_dir :: "nat \<Rightarrow> u32 \<Rightarrow> mem \<Rightarrow> mem" where
  "clear_page_dir 0 esi m = m"
| "clear_page_dir (Suc ecx) esi m = clear_page_dir ecx (esi + 1) (m(PAGE_DIR_TABLE_POS + esi := 0))"

primrec create_pte :: "nat \<Rightarrow> u32 \<Rightarrow> u32 \<Rightarrow> u32 \<Rightarrow> mem \<Rightarrow> mem" where
  "create_pte 0 ebx esi edx m = m"
| "create_pte (Suc ecx) ebx esi edx m =
     create_pte ecx ebx (esi + 1) (edx + 4096) (store32 m (ebx + esi * 4) edx)"

primrec create_kernel_pde :: "nat \<Rightarrow> u32 \<Rightarrow> u32 \<Rightarrow> u32 \<Rightarrow> mem \<Rightarrow> mem" where
  "create_kernel_pde 0 ebx esi eax m = m"
| "create_kernel_pde (Suc ecx) ebx esi eax m =
     create_kernel_pde ecx ebx (esi + 1) (eax + 0x1000) (store32 m (ebx + esi * 4) eax)"

definition PG_ATTR :: u32 where
  "PG_ATTR = 4 OR 2 OR 1"

definition setup_page :: "mem \<Rightarrow> mem" where
  "setup_page m0 =
     (let m1 = clear_page_dir 4096 0 m0;
          ebx = PAGE_DIR_TABLE_POS + 0x1000;
          eax = ebx OR PG_ATTR;
          m2 = store32 m1 (PAGE_DIR_TABLE_POS + 0x0) eax;
          m3 = store32 m2 (PAGE_DIR_TABLE_POS + 0xc00) eax;
          m4 = store32 m3 (PAGE_DIR_TABLE_POS + 4092) (eax - 0x1000);
          m5 = create_pte 256 ebx 0 PG_ATTR m4;
          eax' = (PAGE_DIR_TABLE_POS + 0x2000) OR PG_ATTR
      in create_kernel_pde 254 PAGE_DIR_TABLE_POS 769 eax' m5)"

section \<open>Table entries\<close>

definition pt_entry :: "mem \<Rightarrow> nat \<Rightarrow> nat \<Rightarrow> u32" where
  "pt_entry m t i = load32 m (of_nat (t + 4 * i))"

definition frame_no :: "u32 \<Rightarrow> nat" where
  "frame_no e = unat e div 4096 * 4096"

definition kernel_mapped :: "mem \<Rightarrow> bool" where
  "kernel_mapped m \<longleftrightarrow> pt_entry m 0x100000 0 = 0x101007 \<and> pt_entry m 0x100000 768 = 0x101007
     \<and> pt_entry m 0x100000 1023 = 0x100007
     \<and> (\<forall>i. 769 \<le> i \<and> i < 1023 \<longrightarrow> pt_entry m 0x100000 i = of_nat (0x102007 + (i - 769) * 4096))
     \<and> (\<forall>j<256. pt_entry m 0x101000 j = of_nat (j * 4096 + 7))"

lemma word_bytes_iff:
  assumes "n + 4 \<le> 4294967296"
  shows "q \<in> word_bytes (of_nat n) \<longleftrightarrow> n \<le> unat q \<and> unat q < n + 4"
proof
  assume "q \<in> word_bytes (of_nat n)"
  then have "q = of_nat n \<or> q = of_nat (n + 1) \<or> q = of_nat (n + 2) \<or> q = of_nat (n + 3)"
    by (simp add: word_bytes_def add.commute)
  with assms show "n \<le> unat q \<and> unat q < n + 4"
    using unat_of_nat32 [of n] unat_of_nat32 [of "n + 1"] unat_of_nat32 [of "n + 2"]
      unat_of_nat32 [of "n + 3"] by (elim disjE) (simp_all only:, simp_all)
next
  assume "n \<le> unat q \<and> unat q < n + 4"
  then have "unat q = n \<or> unat q = n + 1 \<or> unat q = n + 2 \<or> unat q = n + 3" by arith
  moreover have "q = of_nat (unat q)" by simp
  ultimately show "q \<in> word_bytes (of_nat n)"
    unfolding word_bytes_def by (elim disjE) (simp_all add: add.commute)
qed

lemma word_bytes_nat_disjoint:
  "n + 4 \<le> k \<or> k + 4 \<le> n \<Longrightarrow> n + 4 \<le> 4294967296 \<Longrightarrow> k + 4 \<le> 4294967296 \<Longrightarrow>
     word_bytes (of_nat n) \<inter> word_bytes (of_nat k) = {}"
  by (auto simp: word_bytes_iff)

lemma pt_entry_store:
  assumes "n + 4 \<le> t + 4 * i \<or> t + 4 * i + 4 \<le> n \<or> n = t + 4 * i" "n + 4 \<le> 4294967296" "t + 4 * i + 4 \<le> 4294967296"
  shows "pt_entry (store32 m (of_nat n) x) t i = (if n = t + 4 * i then x else pt_entry m t i)"
proof (cases "n = t + 4 * i")
  case False
  with assms have "word_bytes (of_nat n) \<inter> word_bytes (of_nat (t + 4 * i)) = {}"
    by (intro word_bytes_nat_disjoint) auto
  with False show ?thesis unfolding pt_entry_def by (simp only: load32_store32_disjoint if_False)
qed (simp add: pt_entry_def)

lemma pt_entry_store_same:
  assumes "n = t + 4 * k" "t + 4 * k + 4 \<le> 4294967296" "t + 4 * i + 4 \<le> 4294967296"
  shows "pt_entry (store32 m (of_nat n) x) t i = (if i = k then x else pt_entry m t i)"
  unfolding assms(1) using assms(2,3) by (subst pt_entry_store) auto

section \<open>\<open>setup_page\<close> establishes the invariant\<close>

lemma create_pte_entry:
  assumes "t = 0x101000 \<and> j < 1024 \<or> t = 0x100000 \<and> j < 1024" "s + n \<le> 1024"
  shows "pt_entry (create_pte n 0x101000 (of_nat s) (of_nat (s * 4096 + 7)) m) t j =
     (if t = 0x101000 \<and> s \<le> j \<and> j < s + n then of_nat (j * 4096 + 7) else pt_entry m t j)"
  using assms(2)
proof (induction n arbitrary: s m)
  case (Suc n)
  let ?m = "store32 m (0x101000 + of_nat s * 4) (of_nat (s * 4096 + 7))"
  have a: "0x101000 + of_nat s * 4 = (of_nat (0x101000 + 4 * s) :: u32)" by simp
  have e: "pt_entry ?m t j = (if t = 0x101000 \<and> j = s then of_nat (s * 4096 + 7) else pt_entry m t j)"
    unfolding a using assms(1) Suc.prems by (subst pt_entry_store) auto
  have "of_nat s + 1 = (of_nat (Suc s) :: u32)"
    "of_nat (s * 4096 + 7) + 4096 = (of_nat (Suc s * 4096 + 7) :: u32)" by simp_all
  then show ?case using Suc.IH [of "Suc s" ?m] Suc.prems e
    by (auto simp del: of_nat_Suc of_nat_add of_nat_mult)
qed auto

lemma create_kernel_pde_entry:
  assumes "t = 0x101000 \<and> j < 1024 \<or> t = 0x100000 \<and> j < 1024" "769 \<le> s" "s + n \<le> 1023"
  shows "pt_entry (create_kernel_pde n 0x100000 (of_nat s) (of_nat (0x102007 + (s - 769) * 4096)) m) t j =
     (if t = 0x100000 \<and> s \<le> j \<and> j < s + n then of_nat (0x102007 + (j - 769) * 4096) else pt_entry m t j)"
  using assms(2,3)
proof (induction n arbitrary: s m)
  case (Suc n)
  let ?x = "of_nat (0x102007 + (s - 769) * 4096) :: u32"
  let ?m = "store32 m (0x100000 + of_nat s * 4) ?x"
  have a: "0x100000 + of_nat s * 4 = (of_nat (0x100000 + 4 * s) :: u32)" by simp
  have e: "pt_entry ?m t j = (if t = 0x100000 \<and> j = s then ?x else pt_entry m t j)"
    unfolding a using assms(1) Suc.prems by (subst pt_entry_store) auto
  have x: "?x + 0x1000 = of_nat (0x102007 + (Suc s - 769) * 4096)"
    using Suc.prems(1) by (simp add: Suc_diff_le)
  have "of_nat s + 1 = (of_nat (Suc s) :: u32)" by simp
  with x show ?case using Suc.IH [of "Suc s" ?m] Suc.prems e
    by (auto simp del: of_nat_Suc of_nat_add of_nat_mult)
qed auto

lemma clear_page_dir_byte:
  "s + n \<le> 4096 \<Longrightarrow> clear_page_dir n (of_nat s) m p =
     (if 0x100000 + s \<le> unat p \<and> unat p < 0x100000 + s + n then 0 else m p)"
proof (induction n arbitrary: s m)
  case (Suc n)
  have a: "PAGE_DIR_TABLE_POS + of_nat s = of_nat (0x100000 + s)" "of_nat s + 1 = (of_nat (Suc s) :: u32)"
    by (simp_all add: PAGE_DIR_TABLE_POS_def)
  have "p = of_nat (0x100000 + s) \<longleftrightarrow> unat p = 0x100000 + s"
    using Suc.prems unat_of_nat32 [of "0x100000 + s"] by (auto simp only: word_unat_eq_iff)
  then show ?case using Suc.IH [of "Suc s"] Suc.prems
    by (auto simp: a simp del: of_nat_Suc of_nat_add of_nat_mult)
qed auto

lemma load32_zero: "(\<And>q. q \<in> word_bytes p \<Longrightarrow> m q = 0) \<Longrightarrow> load32 m p = 0"
  by (simp add: load32_def word_bytes_def)

lemma clear_page_dir_entry: "i < 1024 \<Longrightarrow> pt_entry (clear_page_dir 4096 0 m) 0x100000 i = 0"
  unfolding pt_entry_def using clear_page_dir_byte [of 0 4096 m]
  by (intro load32_zero) (auto simp: word_bytes_iff simp del: of_nat_add of_nat_mult of_nat_numeral)

lemma setup_page_entry:
  assumes "i < 1024"
  shows "pt_entry (setup_page m) 0x100000 i =
     (if i = 0 \<or> i = 768 then 0x101007 else if i = 1023 then 0x100007
      else if 769 \<le> i then of_nat (0x102007 + (i - 769) * 4096) else 0)"
    and "i < 256 \<Longrightarrow> pt_entry (setup_page m) 0x101000 i = of_nat (i * 4096 + 7)"
proof -
  let ?m1 = "clear_page_dir 4096 0 m"
  let ?m4 = "store32 (store32 (store32 ?m1 (of_nat 0x100000) 0x101007) (of_nat 0x100c00) 0x101007)
    (of_nat 0x100ffc) 0x100007"
  let ?m5 = "create_pte 256 0x101000 (of_nat 0) (of_nat (0 * 4096 + 7)) ?m4"
  have s: "setup_page m = create_kernel_pde 254 0x100000 (of_nat 769) (of_nat (0x102007 + (769 - 769) * 4096)) ?m5"
    by (simp add: setup_page_def PAGE_DIR_TABLE_POS_def PG_ATTR_def)
  have e: "pt_entry (store32 M (of_nat 0x100ffc) x) 0x100000 i = (if i = 1023 then x else pt_entry M 0x100000 i)"
      "pt_entry (store32 M (of_nat 0x100c00) x) 0x100000 i = (if i = 768 then x else pt_entry M 0x100000 i)"
      "pt_entry (store32 M (of_nat 0x100000) x) 0x100000 i = (if i = 0 then x else pt_entry M 0x100000 i)"
    for M x by (rule pt_entry_store_same; use assms in simp)+
  have m4: "pt_entry ?m4 0x100000 i = (if i = 0 \<or> i = 768 then 0x101007 else if i = 1023 then 0x100007 else 0)"
    by (simp only: e clear_page_dir_entry [OF assms]) auto
  have m5: "pt_entry ?m5 0x100000 i = pt_entry ?m4 0x100000 i"
    by (subst create_pte_entry) (use assms in simp_all)
  show "pt_entry (setup_page m) 0x100000 i =
     (if i = 0 \<or> i = 768 then 0x101007 else if i = 1023 then 0x100007
      else if 769 \<le> i then of_nat (0x102007 + (i - 769) * 4096) else 0)"
    unfolding s using assms
    by (subst create_kernel_pde_entry, simp, simp, simp, simp only: m5 m4, auto)
  show "pt_entry (setup_page m) 0x101000 i = of_nat (i * 4096 + 7)" if "i < 256"
    unfolding s using that
    by (subst create_kernel_pde_entry, simp, simp, simp, subst create_pte_entry) auto
qed

lemma clear_page_dir_table:
  assumes "i < 1024" shows "pt_entry (clear_page_dir 4096 0 m) 0x101000 i = pt_entry m 0x101000 i"
  unfolding pt_entry_def using clear_page_dir_byte [of 0 4096 m] assms
  by (intro load32_cong) (auto simp: word_bytes_iff simp del: of_nat_add of_nat_mult of_nat_numeral)

text \<open>Only the first 256 entries of the first table are written: the rest of it, and the other
  tables the directory points to, keep what was in memory.\<close>

lemma setup_page_entry_kept:
  assumes "256 \<le> i" "i < 1024"
  shows "pt_entry (setup_page m) 0x101000 i = pt_entry m 0x101000 i"
proof -
  let ?m1 = "clear_page_dir 4096 0 m"
  let ?m4 = "store32 (store32 (store32 ?m1 (of_nat 0x100000) 0x101007) (of_nat 0x100c00) 0x101007)
    (of_nat 0x100ffc) 0x100007"
  have s: "setup_page m = create_kernel_pde 254 0x100000 (of_nat 769) (of_nat (0x102007 + (769 - 769) * 4096))
      (create_pte 256 0x101000 (of_nat 0) (of_nat (0 * 4096 + 7)) ?m4)"
    by (simp add: setup_page_def PAGE_DIR_TABLE_POS_def PG_ATTR_def)
  have "pt_entry ?m4 0x101000 i = pt_entry m 0x101000 i"
    using assms clear_page_dir_table [of i m]
    by (subst pt_entry_store, simp, simp, simp)+ simp
  then show ?thesis
    unfolding s using assms
    by (subst create_kernel_pde_entry, simp, simp, simp, subst create_pte_entry) auto
qed

lemma setup_page_kernel_mapped: "kernel_mapped (setup_page m)"
  unfolding kernel_mapped_def by (auto simp: setup_page_entry)

text \<open>The loader's tables start at one megabyte: nothing below is touched.\<close>

lemma store32_low:
  assumes "0x100000 \<le> n" "n + 4 \<le> 4294967296" "unat p < 0x100000"
  shows "store32 m (of_nat n) x p = m p"
  by (rule store32_other) (use assms in \<open>auto simp: word_bytes_iff\<close>)

lemma create_pte_low:
  "unat p < 0x100000 \<Longrightarrow> s + n \<le> 1024 \<Longrightarrow> create_pte n 0x101000 (of_nat s) x m p = m p"
proof (induction n arbitrary: s x m)
  case (Suc n)
  have "0x101000 + of_nat s * 4 = (of_nat (0x101000 + 4 * s) :: u32)" "of_nat s + 1 = (of_nat (Suc s) :: u32)"
    by simp_all
  with Suc store32_low [of "0x101000 + 4 * s" p m x] show ?case
    by (simp del: of_nat_Suc of_nat_add of_nat_mult)
qed simp

lemma create_kernel_pde_low:
  "unat p < 0x100000 \<Longrightarrow> s + n \<le> 1024 \<Longrightarrow> create_kernel_pde n 0x100000 (of_nat s) x m p = m p"
proof (induction n arbitrary: s x m)
  case (Suc n)
  have "0x100000 + of_nat s * 4 = (of_nat (0x100000 + 4 * s) :: u32)" "of_nat s + 1 = (of_nat (Suc s) :: u32)"
    by simp_all
  with Suc store32_low [of "0x100000 + 4 * s" p m x] show ?case
    by (simp del: of_nat_Suc of_nat_add of_nat_mult)
qed simp

lemma setup_page_low:
  assumes "unat p < 0x100000"
  shows "setup_page m p = m p"
proof -
  have st: "store32 M 0x100000 x p = M p" "store32 M 0x100c00 x p = M p" "store32 M 0x100ffc x p = M p" for M x
    using store32_low [of "0x100000" p M x, OF _ _ assms] store32_low [of "0x100c00" p M x, OF _ _ assms]
      store32_low [of "0x100ffc" p M x, OF _ _ assms] by simp_all
  show ?thesis
    using assms create_kernel_pde_low [OF assms, of 769 254] create_pte_low [OF assms, of 0 256]
      clear_page_dir_byte [of 0 4096 m p]
    by (simp add: setup_page_def PAGE_DIR_TABLE_POS_def PG_ATTR_def st)
qed

section \<open>Virtual addresses by their indices\<close>

definition va :: "nat \<Rightarrow> nat \<Rightarrow> nat \<Rightarrow> u32" where
  "va a b c = of_nat (c + 4096 * (b + 1024 * a))"

lemma va_cases:
  obtains a b c where "a < 1024" "b < 1024" "c < 4096" "v = va a b c"
proof -
  let ?n = "unat v"
  have a: "?n div 4096 div 1024 < 1024" using unat_u32_bound [of v] by simp
  have bc: "?n div 4096 mod 1024 < 1024" "?n mod 4096 < 4096" by simp_all
  have "v = va (?n div 4096 div 1024) (?n div 4096 mod 1024) (?n mod 4096)"
    by (simp only: va_def mod_mult_div_eq of_nat_unat ucast_id)
  with a bc show thesis by (rule that)
qed

lemma unat_va: "a < 1024 \<Longrightarrow> b < 1024 \<Longrightarrow> c < 4096 \<Longrightarrow> unat (va a b c) = c + 4096 * (b + 1024 * a)"
  unfolding va_def by (rule unat_of_nat32) simp

lemma va_inj:
  assumes "a < 1024" "b < 1024" "c < 4096" "a' < 1024" "b' < 1024" "c' < 4096"
  shows "va a b c = va a' b' c' \<longleftrightarrow> a = a' \<and> b = b' \<and> c = c'"
proof -
  have "a = a' \<and> b = b' \<and> c = c'" if eq: "c + 4096 * (b + 1024 * a) = c' + 4096 * (b' + 1024 * a')"
  proof -
    from arg_cong [OF eq, of "\<lambda>x. x mod 4096"] arg_cong [OF eq, of "\<lambda>x. x div 4096"] assms
    have c: "c = c'" and ba: "b + 1024 * a = b' + 1024 * a'"
      by (simp_all del: distrib_left_numeral)
    from arg_cong [OF ba, of "\<lambda>x. x mod 1024"] arg_cong [OF ba, of "\<lambda>x. x div 1024"] assms c
    show ?thesis by simp
  qed
  with assms show ?thesis by (auto simp: word_unat_eq_iff unat_va)
qed

lemma va_dir: 
  assumes "a < 1024" "b < 1024" "c < 4096" shows "drop_bit 22 (va a b c) = of_nat a"
proof -
  have "(c + 4096 * (b + 1024 * a)) div 4096 div 1024 = a" using assms by (simp del: distrib_left_numeral)
  then have "(c + 4096 * (b + 1024 * a)) div 4194304 = a" by (simp only: div_mult2_eq [symmetric]) simp
  with assms show ?thesis by (simp add: word_unat_eq_iff unat_va unat_drop_bit_div unat_of_nat32 del: distrib_left_numeral)
qed

lemma va_tab:
  assumes "a < 1024" "b < 1024" "c < 4096" shows "take_bit 10 (drop_bit 12 (va a b c)) = of_nat b"
  using assms by (simp add: word_unat_eq_iff unat_va unat_drop_bit_div unat_take_bit_mod unat_of_nat32
      del: distrib_left_numeral)

lemma va_off:
  assumes "a < 1024" "b < 1024" "c < 4096" shows "take_bit 12 (va a b c) = of_nat c"
  using assms by (simp add: word_unat_eq_iff unat_va unat_take_bit_mod unat_of_nat32 del: distrib_left_numeral)

lemmas va_simps = va_dir va_tab va_off

lemma frame_and: "e AND 0xfffff000 = (of_nat (frame_no e) :: u32)"
  by (simp only: and_fffff000 word_unat_eq_iff unat_push_bit_mult unat_drop_bit_div frame_no_def
      unat_of_nat) simp

lemma frame_no_le: "frame_no e \<le> unat e"
  by (simp add: frame_no_def)

lemma frame_no_bound: "frame_no e + 4096 \<le> 4294967296"
proof -
  have "unat e div 4096 < 1048576" using unat_u32_bound [of e] by simp
  then show ?thesis by (simp add: frame_no_def)
qed

lemma frame_no_of_nat: "k * 4096 + f < 4294967296 \<Longrightarrow> f < 4096 \<Longrightarrow> frame_no (of_nat (k * 4096 + f)) = k * 4096"
  by (simp add: frame_no_def unat_of_nat32 del: of_nat_add of_nat_mult)

text \<open>The walk of an address given by its indices.\<close>

lemma pde_addr_va: "a < 1024 \<Longrightarrow> b < 1024 \<Longrightarrow> c < 4096 \<Longrightarrow> pde_addr (va a b c) = of_nat (0x100000 + 4 * a)"
  by (simp add: pde_addr_def PAGE_DIR_TABLE_POS_def va_dir)

lemma pte_addr_va:
  assumes "a < 1024" "b < 1024" "c < 4096"
  shows "pte_addr m (va a b c) = of_nat (frame_no (pt_entry m 0x100000 a) + 4 * b)"
  using assms by (simp only: pte_addr_def pde_addr_va frame_and and_3ff va_tab pt_entry_def) simp

lemma translate_va:
  assumes "a < 1024" "b < 1024" "c < 4096"
  shows "translate m (va a b c) =
    (let e = pt_entry m 0x100000 a; f = pt_entry m (frame_no e) b in
     if e AND 1 = 0 \<or> f AND 1 = 0 then None else Some (of_nat (frame_no f + c)))"
  using assms by (simp only: translate_def pde_addr_va pte_addr_va frame_and and_fff va_off
      flip: pt_entry_def) (auto simp: Let_def pt_entry_def)

section \<open>What the kernel sees\<close>

lemma entry_present [simp]: "(0x101007 :: u32) AND 1 \<noteq> 0" "(0x100007 :: u32) AND 1 \<noteq> 0"
  by simp_all

lemma frame_no_kernel [simp]: "frame_no 0x101007 = 0x101000" "frame_no 0x100007 = 0x100000"
  by (simp_all add: frame_no_def)

lemma of_nat_odd_present: "odd n \<Longrightarrow> (of_nat n :: u32) AND 1 \<noteq> 0"
  by (simp add: and_one_iff_bit0 bit_0 even_of_nat_iff)

lemma low_entry:
  assumes "kernel_mapped m" "b < 256"
  shows "pt_entry m 0x101000 b AND 1 \<noteq> 0" "frame_no (pt_entry m 0x101000 b) = b * 4096"
proof -
  have e: "pt_entry m 0x101000 b = of_nat (b * 4096 + 7)" using assms by (simp add: kernel_mapped_def)
  show "pt_entry m 0x101000 b AND 1 \<noteq> 0" unfolding e by (rule of_nat_odd_present) simp
  show "frame_no (pt_entry m 0x101000 b) = b * 4096"
    unfolding e by (rule frame_no_of_nat) (use assms in simp_all)
qed

lemma low_translate:
  assumes "kernel_mapped m" "a = 0 \<or> a = 768" "b < 256" "c < 4096"
  shows "translate m (va a b c) = Some (of_nat (b * 4096 + c))"
  using assms low_entry [OF assms(1,3)]
  by (subst translate_va) (auto simp: Let_def kernel_mapped_def)

text \<open>The page directory maps itself: the last 4 MB of the address space show the page tables.\<close>

lemma table_translate:
  assumes "kernel_mapped m" "a < 1024" "c < 4096"
  shows "translate m (va 1023 a c) =
    (if pt_entry m 0x100000 a AND 1 = 0 then None else Some (of_nat (frame_no (pt_entry m 0x100000 a) + c)))"
  using assms by (subst translate_va) (auto simp: Let_def kernel_mapped_def)

definition low_kernel :: "u32 set" where
  "low_kernel = span 0xc0000000 0x100000"

lemma low_kernel_va: "x < 0x100000 \<Longrightarrow> 0xc0000000 + of_nat x = va 768 (x div 4096) (x mod 4096)"
  by (simp only: va_def word_unat_eq_iff) (simp add: unat_word_ariths unat_of_nat)

lemma low_kernel_iff: "v \<in> low_kernel \<longleftrightarrow> (\<exists>b<256. \<exists>c<4096. v = va 768 b c)"
proof
  assume "v \<in> low_kernel"
  then obtain x where x: "x < 0x100000" "v = 0xc0000000 + of_nat x" unfolding low_kernel_def by (rule span_E)
  then have "x div 4096 < 256" "x mod 4096 < 4096" by simp_all
  with x low_kernel_va [OF x(1)] show "\<exists>b<256. \<exists>c<4096. v = va 768 b c" by blast
next
  assume "\<exists>b<256. \<exists>c<4096. v = va 768 b c"
  then obtain b c where bc: "b < 256" "c < 4096" "v = va 768 b c" by blast
  then have x: "c + 4096 * b < 0x100000" by simp
  have "v = 0xc0000000 + of_nat (c + 4096 * b)"
    using low_kernel_va [OF x] bc by simp
  then show "v \<in> low_kernel" unfolding low_kernel_def using span_I [OF x] by simp
qed

lemma low_kernel_translate:
  assumes "kernel_mapped m" "v \<in> low_kernel"
  shows "translate m v = Some (v - 0xc0000000)" "unat (v - 0xc0000000) < 0x100000"
proof -
  obtain x where x: "x < 0x100000" "v = 0xc0000000 + of_nat x"
    using assms(2) unfolding low_kernel_def by (rule span_E)
  have "translate m v = Some (of_nat x)"
    unfolding x(2) low_kernel_va [OF x(1)]
    using low_translate [OF assms(1), of 768 "x div 4096" "x mod 4096"] x(1) by simp
  with x show "translate m v = Some (v - 0xc0000000)" by simp
  show "unat (v - 0xc0000000) < 0x100000" using x by (simp add: unat_of_nat32)
qed

lemma low_walk:
  assumes "kernel_mapped m" "v \<in> low_kernel" "p \<in> walk_bytes m v"
  shows "0x100000 \<le> unat p \<and> unat p < 0x101400"
proof -
  obtain b c where bc: "b < 256" "c < 4096" "v = va 768 b c" using assms(2) by (auto simp: low_kernel_iff)
  have "pt_entry m 0x100000 768 = 0x101007" using assms(1) by (simp add: kernel_mapped_def)
  then have "walk_bytes m v = word_bytes (of_nat (0x100000 + 4 * 768)) \<union> word_bytes (of_nat (0x101000 + 4 * b))"
    using bc pde_addr_va [of 768 b c] pte_addr_va [of 768 b c m] by (simp add: walk_bytes_def)
  with assms(3) bc show ?thesis by (auto simp: word_bytes_iff simp del: of_nat_add of_nat_mult of_nat_numeral)
qed

lemma data_region_low:
  assumes K: "kernel_mapped m"
  shows "data_region m low_kernel"
  unfolding data_region_def
proof (intro conjI ballI)
  show "inj_on (translate m) low_kernel"
    by (rule inj_onI) (simp add: low_kernel_translate(1) [OF K])
  show "translate m v \<noteq> None" if "v \<in> low_kernel" for v
    using that by (simp add: low_kernel_translate(1) [OF K])
  show "the (translate m v) \<notin> walk_bytes m w" if "v \<in> low_kernel" "w \<in> low_kernel" for v w
    using low_kernel_translate [OF K that(1)] low_walk [OF K that(2)] by fastforce
qed

lemma kernel_mapped_cong:
  assumes "\<And>p. 0x100000 \<le> unat p \<Longrightarrow> unat p < 0x101400 \<Longrightarrow> m' p = m p" "kernel_mapped m"
  shows "kernel_mapped m'"
proof -
  have "pt_entry m' t i = pt_entry m t i" if "0x100000 \<le> t" "t + 4 * i + 4 \<le> 0x101400" for t i
    unfolding pt_entry_def
    by (rule load32_cong, rule assms(1)) (use that in \<open>auto simp: word_bytes_iff simp del: of_nat_add of_nat_mult\<close>)
  with assms(2) show ?thesis unfolding kernel_mapped_def by (auto simp del: of_nat_add of_nat_mult)
qed

lemma frames_of_low:
  assumes "kernel_mapped m" "D \<subseteq> low_kernel" "p \<in> frames_of m D"
  shows "unat p < 0x100000" "0xc0000000 + p \<in> D"
proof -
  obtain v where v: "v \<in> D" "v \<in> low_kernel" "p = the (translate m v)"
    using assms by (auto simp: frames_of_def)
  then show "unat p < 0x100000" "0xc0000000 + p \<in> D"
    using low_kernel_translate [OF assms(1) v(2)] by simp_all
qed

lemma updates_low:
  assumes "updates m low_kernel D f m'" "kernel_mapped m" "D \<subseteq> low_kernel"
  shows "kernel_mapped m'" and "0x100000 \<le> unat p \<Longrightarrow> m' p = m p"
proof -
  show same: "m' p = m p" if "0x100000 \<le> unat p" for p
    using updates_frame [OF assms(1), of p] frames_of_low(1) [OF assms(2,3), of p] that by auto
  show "kernel_mapped m'" by (rule kernel_mapped_cong [OF same assms(2)])
qed

lemma byte_at_setup_page:
  assumes "v \<in> low_kernel"
  shows "byte_at (setup_page m) v = m (v - 0xc0000000)"
  using low_kernel_translate [OF setup_page_kernel_mapped [of m] assms]
  by (simp add: byte_at_def setup_page_low)

lemma in_low_kernel: "unat (v - 0xc0000000) < 0x100000 \<Longrightarrow> v \<in> low_kernel"
  by (simp add: low_kernel_def span_iff)

lemma span_low: "unat (v - 0xc0000000) + n \<le> 0x100000 \<Longrightarrow> span v n \<subseteq> low_kernel"
proof
  fix w assume n: "unat (v - 0xc0000000) + n \<le> 0x100000" and "w \<in> span v n"
  then obtain i where i: "i < n" "w = v + of_nat i" by (auto elim: span_E)
  have "unat (v - 0xc0000000 + of_nat i) = unat (v - 0xc0000000) + i"
    using n i(1) by (intro unat_add_no_wrap) simp
  moreover have "w - 0xc0000000 = v - 0xc0000000 + of_nat i" by (simp add: i(2))
  ultimately have "unat (w - 0xc0000000) < 0x100000" using n i(1) by (simp only:)
  then show "w \<in> low_kernel" by (rule in_low_kernel)
qed

lemma span_disjoint:
  assumes "unat p + i \<le> unat q" "unat q + j \<le> 4294967296"
  shows "span p i \<inter> span q j = {}"
proof -
  have False if "x < i" "y < j" "p + of_nat x = q + of_nat y" for x y
    using that assms unat_add_no_wrap [of p x] unat_add_no_wrap [of q y] by auto
  then show ?thesis by (fastforce elim!: span_E)
qed

text \<open>A boot memory with the string \<open>AB\<close> at \<open>0x5000\<close>, for concrete runs.\<close>

definition demo_mem :: mem where
  "demo_mem = setup_page (\<lambda>p. if p = 0x5000 then 65 else if p = 0x5001 then 66 else 0)"

lemma demo_region: "data_region demo_mem low_kernel"
  unfolding demo_mem_def by (rule data_region_low [OF setup_page_kernel_mapped])

lemma demo_byte: "v \<in> low_kernel \<Longrightarrow>
    byte_at demo_mem v = (if v = 0xc0005000 then 65 else if v = 0xc0005001 then 66 else 0)"
  unfolding demo_mem_def by (subst byte_at_setup_page) (auto simp: algebra_simps)

lemma demo_table:
  assumes "256 \<le> i" "i < 1024" shows "pt_entry demo_mem 0x101000 i = 0"
proof -
  let ?m = "\<lambda>p :: u32. if p = 0x5000 then 65 else if p = 0x5001 then 66 else (0 :: u8)"
  have "?m q = 0" if "q \<in> word_bytes (of_nat (0x101000 + 4 * i))" for q
    using that assms by (auto simp: word_bytes_iff simp del: of_nat_add of_nat_mult)
  then have "pt_entry ?m 0x101000 i = 0" unfolding pt_entry_def by (rule load32_zero)
  then show ?thesis unfolding demo_mem_def by (simp only: setup_page_entry_kept [OF assms])
qed

lemma demo_kernel_mapped: "kernel_mapped demo_mem" "pt_entry demo_mem 0x100000 1 = 0"
  unfolding demo_mem_def by (simp_all add: setup_page_kernel_mapped setup_page_entry)

section \<open>Properties\<close>

text \<open>C16: whatever memory holds, after the boot loader's \<open>setup_page\<close> the first megabyte of
  physical memory appears both at 0 and at \<open>0xc0000000\<close>, the page directory shows at
  \<open>0xfffff000\<close>, no address from 4 MB to 3 GB is mapped, and the physical memory below the
  tables is as it was.\<close>

theorem setup_page_maps_kernel:
  "(\<forall>x < 0x100000. translate (setup_page m) (of_nat x) = Some (of_nat x)
     \<and> translate (setup_page m) (0xc0000000 + of_nat x) = Some (of_nat x) \<and> setup_page m (of_nat x) = m (of_nat x))
   \<and> (\<forall>c < 4096. translate (setup_page m) (0xfffff000 + of_nat c) = Some (0x100000 + of_nat c))
   \<and> (\<forall>v. 0x400000 \<le> unat v \<and> unat v < 0xc0000000 \<longrightarrow> translate (setup_page m) v = None)"
proof (intro conjI allI impI)
  note K = setup_page_kernel_mapped [of m]
  fix x :: nat assume x: "x < 0x100000"
  then have "x div 4096 < 256" "x mod 4096 < 4096" "x mod 4096 + 4096 * (x div 4096) = x" by simp_all
  moreover from this have "of_nat x = va 0 (x div 4096) (x mod 4096)" by (simp add: va_def flip: of_nat_mult of_nat_add)
  ultimately show "translate (setup_page m) (of_nat x) = Some (of_nat x)"
    "translate (setup_page m) (0xc0000000 + of_nat x) = Some (of_nat x)"
    using low_translate [OF K, of 0 "x div 4096" "x mod 4096"] low_translate [OF K, of 768 "x div 4096" "x mod 4096"]
      low_kernel_va [OF x] by (simp_all only: mult.commute add.commute) simp_all
  show "setup_page m (of_nat x) = m (of_nat x)" by (rule setup_page_low) (use x in \<open>simp add: unat_of_nat32\<close>)
next
  fix c :: nat assume c: "c < 4096"
  have "0xfffff000 + of_nat c = va 1023 1023 c" by (simp add: va_def)
  then show "translate (setup_page m) (0xfffff000 + of_nat c) = Some (0x100000 + of_nat c)"
    using table_translate [OF setup_page_kernel_mapped, of 1023 c m] c setup_page_entry(1) [of 1023 m] by simp
next
  fix v :: u32 assume v: "0x400000 \<le> unat v \<and> unat v < 0xc0000000"
  obtain a b c where abc: "a < 1024" "b < 1024" "c < 4096" "v = va a b c" by (rule va_cases)
  then have "0x400000 \<le> c + 4096 * (b + 1024 * a)" "c + 4096 * (b + 1024 * a) < 0xc0000000"
    using v unat_va [OF abc(1-3)] by simp_all
  moreover have "c \<le> 4095" "b \<le> 1023" using abc(2,3) by simp_all
  ultimately have "a \<noteq> 0" "a < 768" by (auto intro: ccontr)
  then have "pt_entry (setup_page m) 0x100000 a = 0" using setup_page_entry(1) [of a m] by simp
  then show "translate (setup_page m) v = None" using abc translate_va [of a b c "setup_page m"] by (simp add: Let_def)
qed

theorem setup_page_maps_kernel_witness:
  "translate (setup_page (\<lambda>_. 0)) 0xc0005000 = Some 0x5000 \<and> translate (setup_page (\<lambda>_. 0)) 0x80000000 = None"
proof -
  have "(0x5000 :: nat) < 0x100000" by simp
  then have "translate (setup_page (\<lambda>_. 0)) (0xc0000000 + of_nat 0x5000) = Some (of_nat 0x5000)"
    using setup_page_maps_kernel [of "\<lambda>_. 0"] by blast
  moreover have "0x400000 \<le> unat (0x80000000 :: u32) \<and> unat (0x80000000 :: u32) < 0xc0000000" by simp
  then have "translate (setup_page (\<lambda>_. 0)) 0x80000000 = None" using setup_page_maps_kernel [of "\<lambda>_. 0"] by blast
  ultimately show ?thesis by simp
qed

end
