(* ===== verification/Boot_Disk.thy ===== *)
theory Boot_Disk
  imports Page_Tables "HOL-Library.Monad_Syntax"
begin

text \<open>
  Reading sectors from the disk: \<open>rd_disk_m_16\<close> of \<open>boot/mbr.S\<close> and \<open>rd_disk_m_32\<close> of
  \<open>boot/loader.S\<close>, and the part of \<open>mbr.S\<close> that loads the boot loader.  The routines talk to an
  ATA controller through ports; the controller is not part of the sources, so the port
  operations are a parameter, the record \<open>ata_io\<close>, of every definition.  The locale \<open>ata_disk\<close> is the
  programmed-input protocol of an ATA drive: an idle drive accepts register writes and the read command; after the
  command and after each sector the drive needs some time, that is finitely many polls of its status, before the
  words of the next sector can be read; after the last one it is idle again.  The routines poll once, before the first
  sector.  \<open>prompt_disk\<close> is a drive that has the next sector ready when the last word of a sector has been read, as the
  controller of an emulator with its disk in memory has (\<open>bochsrc.disk\<close> runs the system on one); several
  sectors arrive only from such a drive.  \<open>drive_io\<close> is a controller that satisfies the first contract
  for any number of polls and the second when none is needed between sectors.

  The routines run before paging is on: addresses are physical.  The polling loop is a
  partial function, \<open>None\<close> where the drive never gets ready.
\<close>

section \<open>Ports\<close>

record 'd ata_io =
  io_out8 :: "u16 \<Rightarrow> u8 \<Rightarrow> 'd \<Rightarrow> 'd"
  io_in8 :: "u16 \<Rightarrow> 'd \<Rightarrow> u8 \<times> 'd"
  io_in16 :: "u16 \<Rightarrow> 'd \<Rightarrow> u16 \<times> 'd"

definition store16 :: "mem \<Rightarrow> u32 \<Rightarrow> u16 \<Rightarrow> mem" where
  "store16 m p x = m(p := ucast x, p + 1 := ucast (drop_bit 8 x))"

definition LOADER_BASE_ADDR :: u32 where "LOADER_BASE_ADDR = 0x900"
definition LOADER_START_SECTOR :: u32 where "LOADER_START_SECTOR = 0x2"
definition KERNEL_BIN_BASE_ADDR :: u32 where "KERNEL_BIN_BASE_ADDR = 0x70000"
definition KERNEL_START_SECTOR :: u32 where "KERNEL_START_SECTOR = 0x9"

section \<open>The two routines\<close>

text \<open>The first three steps are the same instructions in both routines: the sector count, the
  four parts of the block address, the command.\<close>

definition rd_disk_setup :: "'d ata_io \<Rightarrow> u32 \<Rightarrow> u16 \<Rightarrow> 'd \<Rightarrow> 'd" where
  "rd_disk_setup io eax cx d =
     (let d = io_out8 io 0x1f2 (ucast cx) d;
          d = io_out8 io 0x1f3 (ucast eax) d;
          eax = drop_bit 8 eax;
          d = io_out8 io 0x1f4 (ucast eax) d;
          eax = drop_bit 8 eax;
          d = io_out8 io 0x1f5 (ucast eax) d;
          eax = drop_bit 8 eax;
          d = io_out8 io 0x1f6 ((ucast eax AND 0x0f) OR 0xe0) d
      in io_out8 io 0x1f7 0x20 d)"

partial_function (option) not_ready :: "'d ata_io \<Rightarrow> 'd \<Rightarrow> 'd option" where
  "not_ready io d = (case io_in8 io 0x1f7 d of (al, d) \<Rightarrow>
     if al AND 0x88 = 0x08 then Some d else not_ready io d)"

text \<open>The transfer loops.  \<open>loop\<close> decrements \<open>cx\<close>, or \<open>ecx\<close> in 32-bit code, and goes on unless it
  is then zero.  In 16-bit code the address is an offset in the data segment, which wraps at 64 KB.\<close>

function go_on_read_16 :: "'d ata_io \<Rightarrow> u16 \<Rightarrow> u16 \<Rightarrow> u16 \<Rightarrow> mem \<Rightarrow> 'd \<Rightarrow> mem \<times> 'd" where
  "go_on_read_16 io ds cx bx m d =
     (case io_in16 io 0x1f0 d of (ax, d) \<Rightarrow>
       (let m = store16 m (push_bit 4 (ucast ds) + ucast bx) ax; bx = bx + 2; cx = cx - 1
        in if cx \<noteq> 0 then go_on_read_16 io ds cx bx m d else (m, d)))"
  by pat_completeness auto
termination
  by (relation "measure (\<lambda>(io, ds, cx, bx, m, d). unat (cx - 1))") (auto intro: loop_measure)

function go_on_read_32 :: "'d ata_io \<Rightarrow> u32 \<Rightarrow> u32 \<Rightarrow> mem \<Rightarrow> 'd \<Rightarrow> mem \<times> 'd" where
  "go_on_read_32 io ecx ebx m d =
     (case io_in16 io 0x1f0 d of (ax, d) \<Rightarrow>
       (let m = store16 m ebx ax; ebx = ebx + 2; ecx = ecx - 1
        in if ecx \<noteq> 0 then go_on_read_32 io ecx ebx m d else (m, d)))"
  by pat_completeness auto
termination
  by (relation "measure (\<lambda>(io, ecx, ebx, m, d). unat (ecx - 1))") (auto intro: loop_measure)

declare go_on_read_16.simps [simp del] go_on_read_32.simps [simp del]

text \<open>\<open>mul dx\<close> leaves the low half of the product of the count and 256 in \<open>ax\<close>; \<open>mov cx, ax\<close>
  keeps the upper half of \<open>ecx\<close>.\<close>

definition rd_disk_m_16 :: "'d ata_io \<Rightarrow> u16 \<Rightarrow> u32 \<Rightarrow> u16 \<Rightarrow> u16 \<Rightarrow> mem \<Rightarrow> 'd \<Rightarrow> (mem \<times> 'd) option" where
  "rd_disk_m_16 io ds eax bx cx m d =
     do { let di = cx;
          d \<leftarrow> not_ready io (rd_disk_setup io eax cx d);
          Some (go_on_read_16 io ds (di * 256) bx m d) }"

definition rd_disk_m_32 :: "'d ata_io \<Rightarrow> u32 \<Rightarrow> u32 \<Rightarrow> u32 \<Rightarrow> mem \<Rightarrow> 'd \<Rightarrow> (mem \<times> 'd) option" where
  "rd_disk_m_32 io eax ebx ecx m d =
     do { let di = (ucast ecx :: u16);
          d \<leftarrow> not_ready io (rd_disk_setup io eax (ucast ecx) d);
          Some (go_on_read_32 io ((ecx AND 0xffff0000) OR ucast (di * 256)) ebx m d) }"

text \<open>\<open>mbr.S\<close>: the text \<open>1 MBR\<close> at the top of the screen, four sectors from sector 2 to
  \<open>LOADER_BASE_ADDR\<close>, and the jump past the loader's data.  The data segment is the code segment the firmware
  entered with.  Clearing the screen is a call of the firmware, the parameter \<open>int10\<close>.\<close>

definition mbr_text :: "mem \<Rightarrow> mem" where
  "mbr_text m = m(0xb8000 := 0x31, 0xb8001 := 0xa4, 0xb8002 := 0x20, 0xb8003 := 0xa4, 0xb8004 := 0x4d, 0xb8005 := 0xa4,
     0xb8006 := 0x42, 0xb8007 := 0xa4, 0xb8008 := 0x52, 0xb8009 := 0xa4)"

definition mbr :: "'d ata_io \<Rightarrow> (mem \<Rightarrow> mem) \<Rightarrow> u16 \<Rightarrow> mem \<Rightarrow> 'd \<Rightarrow> (u32 \<times> mem \<times> 'd) option" where
  "mbr io int10 cs m d =
     do { (m, d) \<leftarrow> rd_disk_m_16 io cs LOADER_START_SECTOR (ucast LOADER_BASE_ADDR) 4 (mbr_text (int10 m)) d;
          Some (LOADER_BASE_ADDR + 0x300, m, d) }"

section \<open>The bytes of the disk\<close>

definition disk_word :: "(nat \<Rightarrow> u8) \<Rightarrow> nat \<Rightarrow> u16" where
  "disk_word disk i = ucast (disk (2 * i)) OR push_bit 8 (ucast (disk (2 * i + 1)))"

definition sector_words :: "(nat \<Rightarrow> u8) \<Rightarrow> nat \<Rightarrow> nat \<Rightarrow> u16 list" where
  "sector_words disk lba n = map (disk_word disk) [256 * lba..<256 * (lba + n)]"

text \<open>\<open>disk_copy disk m a x n\<close>: memory with \<open>n\<close> bytes of the disk, from its byte \<open>x\<close> on, at \<open>a\<close>.\<close>

definition disk_copy :: "(nat \<Rightarrow> u8) \<Rightarrow> mem \<Rightarrow> u32 \<Rightarrow> nat \<Rightarrow> nat \<Rightarrow> mem" where
  "disk_copy disk m a x n = (\<lambda>p. if unat (p - a) < n then disk (x + unat (p - a)) else m p)"

primrec write_words :: "mem \<Rightarrow> u32 \<Rightarrow> u16 list \<Rightarrow> mem" where
  "write_words m a [] = m"
| "write_words m a (w # ws) = write_words (store16 m a w) (a + 2) ws"

lemma store16_disk_word:
  "store16 m a (disk_word disk i) = m(a := disk (2 * i), a + 1 := disk (2 * i + 1))"
proof -
  have "ucast (disk_word disk i) = disk (2 * i)"
    by (rule bit_word_eqI) (simp add: disk_word_def bit_simps)
  moreover have "ucast (drop_bit 8 (disk_word disk i)) = disk (2 * i + 1)"
    by (rule bit_word_eqI) (auto simp: disk_word_def bit_simps dest: bit_imp_le_length)
  ultimately show ?thesis by (simp add: store16_def)
qed

lemma unat_sub_two: "unat (p - (a + 2)) = (if 2 \<le> unat (p - a) then unat (p - a) - 2 else unat (p - a) + 4294967294)"
  for p a :: u32
proof -
  have "p - (a + 2) = p - a - 2" by simp
  then show ?thesis by (simp only:) (subst unat_sub_if', simp)
qed

lemma write_words_disk:
  "2 * n \<le> 4294967296 \<Longrightarrow> write_words m a (map (disk_word disk) [i..<i + n]) = disk_copy disk m a (2 * i) (2 * n)"
proof (induction n arbitrary: m a i)
  case 0
  then show ?case by (simp add: disk_copy_def)
next
  case (Suc n)
  have u: "[i..<i + Suc n] = i # [Suc i..<Suc i + n]" by (simp add: upt_conv_Cons)
  let ?m = "m(a := disk (2 * i), a + 1 := disk (2 * i + 1))"
  have "write_words m a (map (disk_word disk) [i..<i + Suc n]) = disk_copy disk ?m (a + 2) (2 * Suc i) (2 * n)"
    unfolding u using Suc.IH [of ?m "a + 2" "Suc i"] Suc.prems by (simp add: store16_disk_word del: upt_Suc fun_upd_apply)
  also have "\<dots> = disk_copy disk m a (2 * i) (2 * Suc n)"
  proof
    fix p
    have b: "unat (p - a) < 4294967296" by (rule unat_u32_bound)
    have 0: "p = a \<longleftrightarrow> unat (p - a) = 0" by (simp add: unat_eq_0)
    have 1: "p = a + 1 \<longleftrightarrow> unat (p - a) = 1"
      by (metis add_diff_cancel_left' diff_add_cancel add.commute unat_1 word_unat_eq_iff)
    show "disk_copy disk ?m (a + 2) (2 * Suc i) (2 * n) p = disk_copy disk m a (2 * i) (2 * Suc n) p"
    proof (cases "2 \<le> unat (p - a)")
      case True
      then obtain k where "unat (p - a) = 2 + k" by (auto dest: le_Suc_ex)
      then show ?thesis using 0 1 by (auto simp: disk_copy_def unat_sub_two)
    next
      case False
      then have "unat (p - a) = 0 \<or> unat (p - a) = 1" by arith
      then show ?thesis using 0 1 False Suc.prems by (auto simp: disk_copy_def unat_sub_two)
    qed
  qed
  finally show ?case .
qed


section \<open>What the routines rely on\<close>

definition lba_of :: "(u16 \<Rightarrow> u8) \<Rightarrow> nat" where
  "lba_of r = unat (r 0x1f3) + 256 * unat (r 0x1f4) + 65536 * unat (r 0x1f5) + 16777216 * (unat (r 0x1f6) mod 16)"

definition count_of :: "(u16 \<Rightarrow> u8) \<Rightarrow> nat" where
  "count_of r = (if r 0x1f2 = 0 then 256 else unat (r 0x1f2))"

lemma lba_bytes:
  fixes x :: nat
  assumes "x < 0x10000000"
  shows "x mod 256 + 256 * (x div 256 mod 256) + 65536 * (x div 65536 mod 256) + 16777216 * (x div 16777216 mod 16) = x"
proof -
  define a b c where "a = x div 256" "b = a div 256" "c = b div 256"
  have "x div 65536 = b" "x div 16777216 = c" by (simp_all add: a_b_c_def div_mult2_eq [of x 256 256] flip: div_mult2_eq)
  moreover have "x mod 256 + 256 * a = x" "a mod 256 + 256 * b = a" "b mod 256 + 256 * c = b" by (simp_all add: a_b_c_def)
  moreover from this have "c < 16" using assms by linarith
  ultimately show ?thesis by (simp flip: a_b_c_def(1))
qed

lemma count_words:
  assumes "n < 256"
  shows "unat ((of_nat n :: u16) * 256) = 256 * n"
proof -
  have "(of_nat n :: u16) * 256 = of_nat (256 * n)" by simp
  then show ?thesis using assms by (simp only: unat_of_nat) simp
qed

text \<open>A drive in the programmed-input protocol.  \<open>todo\<close> are the words of the command that are still to be
  transferred, \<open>ready\<close> says that the words of the current sector can be read now, \<open>busy\<close> bounds the number of polls until
  then.  Nothing is said of a register written or a word read at any other time.  The addressed sectors exist and are readable.\<close>

lemma ecx_words:
  assumes "n < 256"
  shows "((of_nat n :: u32) AND 0xffff0000) OR ucast ((ucast (of_nat n :: u32) :: u16) * 256) = of_nat (256 * n)"
proof -
  have "(of_nat n :: u32) = take_bit 8 (of_nat n)" "(0xffff0000 :: u32) = push_bit 16 (mask 16)"
    using assms by (simp_all add: word_unat_eq_iff unat_take_bit_mod unat_of_nat32 mask_eq_exp_minus_1)
  moreover have "take_bit 8 x AND push_bit 16 (mask 16) = 0" for x :: u32 by (auto simp: bit_eq_iff bit_simps)
  ultimately have "(of_nat n :: u32) AND 0xffff0000 = 0" by metis
  moreover have "ucast ((ucast (of_nat n :: u32) :: u16) * 256) = (of_nat (256 * n) :: u32)"
  proof -
    have "ucast (of_nat n :: u32) = (of_nat n :: u16)" using assms by (simp add: word_unat_eq_iff unat_ucast_mod unat_of_nat)
    then have "unat (ucast ((ucast (of_nat n :: u32) :: u16) * 256) :: u32) = unat (of_nat (256 * n) :: u32)"
      using assms count_words [OF assms] by (simp only: unat_ucast_mod unat_of_nat)
    then show ?thesis by (simp only: word_unat_eq_iff)
  qed
  ultimately show ?thesis by (simp only: or.left_neutral)
qed

lemma sector_words_nonempty: "0 < n \<Longrightarrow> sector_words disk lba n \<noteq> []"
  by (simp add: sector_words_def)

locale ata_disk =
  fixes io :: "'d ata_io" and disk :: "nat \<Rightarrow> u8"
    and regs :: "'d \<Rightarrow> u16 \<Rightarrow> u8" and todo :: "'d \<Rightarrow> u16 list" and ready :: "'d \<Rightarrow> bool" and idle :: "'d \<Rightarrow> bool" and busy :: "'d \<Rightarrow> nat"
  assumes out_reg: "idle d \<Longrightarrow> p \<in> {0x1f2, 0x1f3, 0x1f4, 0x1f5, 0x1f6} \<Longrightarrow>
      idle (io_out8 io p v d) \<and> regs (io_out8 io p v d) = (regs d)(p := v)"
    and out_read: "idle d \<Longrightarrow> regs d 0x1f6 AND 0xf0 = 0xe0 \<Longrightarrow>
      todo (io_out8 io 0x1f7 0x20 d) = sector_words disk (lba_of (regs d)) (count_of (regs d))"
    and in_status: "todo d \<noteq> [] \<Longrightarrow> io_in8 io 0x1f7 d = (s, d') \<Longrightarrow>
      todo d' = todo d \<and> (if s AND 0x88 = 0x08 then ready d' else busy d' < busy d)"
    and in_data: "todo d = w # ws \<Longrightarrow> ready d \<Longrightarrow> \<exists>d'. io_in16 io 0x1f0 d = (w, d') \<and> todo d' = ws
      \<and> (ws = [] \<longrightarrow> idle d') \<and> (length ws mod 256 \<noteq> 0 \<longrightarrow> ready d')"

text \<open>The next sector is there as soon as the previous one has been read.\<close>

locale prompt_disk = ata_disk +
  assumes next_ready: "todo d = w # ws \<Longrightarrow> ready d \<Longrightarrow> ws \<noteq> [] \<Longrightarrow> ready (snd (io_in16 io 0x1f0 d))"

text \<open>\<open>streams io todo ready k\<close>: the last \<open>k\<close> words of a command can be read one after the other.  Every drive
  streams one sector, a prompt drive any number.\<close>

definition streams :: "'d ata_io \<Rightarrow> ('d \<Rightarrow> u16 list) \<Rightarrow> ('d \<Rightarrow> bool) \<Rightarrow> nat \<Rightarrow> bool" where
  "streams io todo ready k \<longleftrightarrow> (\<forall>d w ws. todo d = w # ws \<and> ready d \<and> ws \<noteq> [] \<and> length ws < k \<longrightarrow> ready (snd (io_in16 io 0x1f0 d)))"

context ata_disk
begin

lemma streams_sector: "streams io todo ready 256"
  unfolding streams_def
proof (intro allI impI)
  fix d w ws assume *: "todo d = w # ws \<and> ready d \<and> ws \<noteq> [] \<and> length ws < 256"
  then obtain d' where "io_in16 io 0x1f0 d = (w, d')" "length ws mod 256 \<noteq> 0 \<longrightarrow> ready d'" using in_data by blast
  with * show "ready (snd (io_in16 io 0x1f0 d))" by simp
qed

lemma setup_todo:
  assumes "idle d" "unat lba < 0x10000000"
  shows "todo (rd_disk_setup io lba cx d) = sector_words disk (unat lba) (if (ucast cx :: u8) = 0 then 256 else unat (ucast cx :: u8))"
proof -
  let ?dev = "(ucast (drop_bit 8 (drop_bit 8 (drop_bit 8 lba))) AND 0x0f) OR 0xe0 :: u8"
  have dev: "?dev AND 0xf0 = 0xe0"
  proof (rule bit_word_eqI)
    fix n assume "n < LENGTH(8)"
    then have "n \<in> {0, 1, 2, 3, 4, 5, 6, 7}" by auto
    then show "bit (?dev AND 0xf0) n = bit (0xe0 :: u8) n" by (elim insertE emptyE) (simp_all add: bit_simps)
  qed
  have "unat ?dev mod 16 = unat (take_bit 4 ?dev)" by (simp only: unat_take_bit_mod) simp
  also have "take_bit 4 ?dev = take_bit 4 (ucast (drop_bit 24 lba))"
  proof (rule bit_word_eqI)
    fix n assume "n < LENGTH(8)"
    then have "n \<in> {0, 1, 2, 3, 4, 5, 6, 7}" by auto
    then show "bit (take_bit 4 ?dev) n = bit (take_bit 4 (ucast (drop_bit 24 lba) :: u8)) n"
      by (elim insertE emptyE) (simp_all add: bit_simps)
  qed
  finally have hi: "unat ?dev mod 16 = unat lba div 16777216 mod 16"
    by (simp only: unat_take_bit_mod unat_drop_bit_div unat_ucast_mod) (simp add: mod_mod_cancel)
  have b: "unat (ucast (drop_bit k lba) :: u8) = unat lba div 2 ^ k mod 256" for k
    by (simp add: unat_ucast_mod unat_drop_bit_div)
  have d: "drop_bit 8 (drop_bit 8 lba) = drop_bit 16 lba" by (simp add: drop_bit_drop_bit)
  show ?thesis
    unfolding rd_disk_setup_def Let_def
    using dev hi b [of 0] b [of 8] b [of 16] lba_bytes [OF assms(2)] assms(1)
    by (subst out_read) (simp_all add: out_reg lba_of_def count_of_def d)
qed

lemma not_ready_ends: "todo d \<noteq> [] \<Longrightarrow> \<exists>d'. not_ready io d = Some d' \<and> todo d' = todo d \<and> ready d'"
proof (induction "busy d" arbitrary: d rule: less_induct)
  case less
  obtain s d1 where 1: "io_in8 io 0x1f7 d = (s, d1)" by fastforce
  note p = in_status [OF less.prems 1]
  show ?case
  proof (cases "s AND 0x88 = 0x08")
    case True
    then show ?thesis using p by (subst not_ready.simps) (simp add: 1)
  next
    case False
    then have "busy d1 < busy d" "todo d1 = todo d" using p by auto
    with less.hyps [of d1] less.prems False show ?thesis by (subst not_ready.simps) (simp add: 1)
  qed
qed

lemma next_word:
  assumes "streams io todo ready k" "todo d = w # ws" "ready d" "length ws < k"
  obtains d' where "io_in16 io 0x1f0 d = (w, d')" "todo d' = ws" "ws = [] \<Longrightarrow> idle d'" "ws \<noteq> [] \<Longrightarrow> ready d'"
proof -
  obtain d' where d': "io_in16 io 0x1f0 d = (w, d')" "todo d' = ws" "ws = [] \<longrightarrow> idle d'" using in_data [OF assms(2,3)] by blast
  have "ready d'" if "ws \<noteq> []"
  proof -
    from assms(1) have "ready (snd (io_in16 io 0x1f0 d))"
      unfolding streams_def by (elim allE impE) (use assms(2-4) that in simp_all)
    then show ?thesis by (simp add: d'(1))
  qed
  with d' show thesis by (intro that) simp_all
qed

lemma go_on_read_32_words:
  assumes "streams io todo ready k" "todo d = ws" "ready d" "length ws = unat ecx" "ecx \<noteq> 0" "length ws \<le> k"
  shows "\<exists>d'. go_on_read_32 io ecx ebx m d = (write_words m ebx ws, d') \<and> idle d'"
  using assms
proof (induction ws arbitrary: ecx ebx m d)
  case Nil
  then show ?case by (simp add: unat_eq_0)
next
  case (Cons w ws)
  obtain d1 where 1: "io_in16 io 0x1f0 d = (w, d1)" "todo d1 = ws" "ws = [] \<Longrightarrow> idle d1" "ws \<noteq> [] \<Longrightarrow> ready d1"
    by (rule next_word [OF Cons.prems(1-3)]) (use Cons.prems(6) in simp_all)
  have n: "length ws = unat (ecx - 1)" using Cons.prems(4,5) by (simp add: unat_pred)
  show ?case
  proof (cases "ecx - 1 = 0")
    case True
    with n have "ws = []" by simp
    with True 1(1,3) show ?thesis by (subst go_on_read_32.simps) (simp add: Let_def)
  next
    case False
    with n have "ws \<noteq> []" by (auto simp: unat_eq_0)
    then obtain d2 where "go_on_read_32 io (ecx - 1) (ebx + 2) (store16 m ebx w) d1
        = (write_words (store16 m ebx w) (ebx + 2) ws, d2)" "idle d2"
      using Cons.IH [OF Cons.prems(1) 1(2,4) n False] Cons.prems(6) by auto
    with False 1(1) show ?thesis by (subst go_on_read_32.simps) (simp add: Let_def)
  qed
qed

text \<open>In 16-bit code the same words arrive as long as the offset does not wrap.\<close>

lemma go_on_read_16_words:
  assumes "streams io todo ready k" "todo d = ws" "ready d" "length ws = unat cx" "cx \<noteq> 0" "length ws \<le> k" "unat bx + 2 * length ws < 65536"
  shows "\<exists>d'. go_on_read_16 io ds cx bx m d = (write_words m (push_bit 4 (ucast ds) + ucast bx) ws, d') \<and> idle d'"
  using assms
proof (induction ws arbitrary: cx bx m d)
  case Nil
  then show ?case by (simp add: unat_eq_0)
next
  case (Cons w ws)
  let ?a = "push_bit 4 (ucast ds) + ucast bx :: u32"
  obtain d1 where 1: "io_in16 io 0x1f0 d = (w, d1)" "todo d1 = ws" "ws = [] \<Longrightarrow> idle d1" "ws \<noteq> [] \<Longrightarrow> ready d1"
    by (rule next_word [OF Cons.prems(1-3)]) (use Cons.prems(6) in simp_all)
  have n: "length ws = unat (cx - 1)" using Cons.prems(4,5) by (simp add: unat_pred)
  have b: "unat (bx + 2) = unat bx + 2" using Cons.prems(7) by (simp add: unat_word_ariths)
  have "unat (ucast (bx + 2) :: u32) = unat (ucast bx + 2 :: u32)"
    using b Cons.prems(7) by (simp add: unat_word_ariths unat_ucast_mod)
  then have a: "(ucast (bx + 2) :: u32) = ucast bx + 2" by (simp only: word_unat_eq_iff)
  show ?case
  proof (cases "cx - 1 = 0")
    case True
    with n have "ws = []" by simp
    with True 1(1,3) show ?thesis by (subst go_on_read_16.simps) (simp add: Let_def)
  next
    case False
    with n have "ws \<noteq> []" by (auto simp: unat_eq_0)
    moreover have "unat (bx + 2) + 2 * length ws < 65536" using b Cons.prems(7) by simp
    ultimately obtain d2 where "go_on_read_16 io ds (cx - 1) (bx + 2) (store16 m ?a w) d1
        = (write_words (store16 m ?a w) (push_bit 4 (ucast ds) + ucast (bx + 2)) ws, d2)" "idle d2"
      using Cons.IH [OF Cons.prems(1) 1(2,4) n False] Cons.prems(6) by auto
    with False 1(1) show ?thesis by (subst go_on_read_16.simps) (simp add: Let_def a add.assoc)
  qed
qed

text \<open>The command and the poll leave the words of the sectors to be read, the first of them ready; if they stream,
  a read of 1 to 255 sectors brings exactly the bytes of these sectors, and the drive is idle again.\<close>

lemma rd_disk_starts:
  assumes "idle d" "unat lba < 0x10000000" "0 < n" "n < 256"
  obtains d1 where "not_ready io (rd_disk_setup io lba (ucast (of_nat n :: u32)) d) = Some d1"
    "todo d1 = sector_words disk (unat lba) n" "ready d1"
proof -
  have c: "ucast (of_nat n :: u32) = (of_nat n :: u16)" "ucast (of_nat n :: u16) = (of_nat n :: u8)"
    "unat (of_nat n :: u8) = n" "of_nat n \<noteq> (0 :: u8)"
    using assms(3,4) by (simp_all add: word_unat_eq_iff unat_ucast_mod unat_of_nat)
  then have "todo (rd_disk_setup io lba (ucast (of_nat n :: u32)) d) = sector_words disk (unat lba) n"
    using setup_todo [OF assms(1,2)] by simp
  then show thesis using not_ready_ends sector_words_nonempty [OF assms(3)] that by metis
qed

lemma rd_disk_m_32_copies:
  assumes "streams io todo ready (256 * n)" "idle d" "unat lba < 0x10000000" "0 < n" "n < 256"
  shows "\<exists>d'. rd_disk_m_32 io lba a (of_nat n) m d = Some (disk_copy disk m a (512 * unat lba) (512 * n), d') \<and> idle d'"
proof -
  obtain d1 where 1: "not_ready io (rd_disk_setup io lba (ucast (of_nat n :: u32)) d) = Some d1"
      "todo d1 = sector_words disk (unat lba) n" "ready d1"
    by (rule rd_disk_starts [OF assms(2-5)])
  have u: "unat (of_nat (256 * n) :: u32) = 256 * n" using assms(5) by (intro unat_of_nat32) simp
  then have nz: "of_nat (256 * n) \<noteq> (0 :: u32)" using assms(4) by (metis mult_eq_0_iff unat_0 zero_neq_numeral less_not_refl)
  obtain d2 where "go_on_read_32 io (of_nat (256 * n)) a m d1 = (write_words m a (sector_words disk (unat lba) n), d2)" "idle d2"
    using go_on_read_32_words [OF assms(1) 1(2,3) _ nz, of a m] u by (auto simp: sector_words_def simp del: of_nat_mult)
  then show ?thesis
    using 1(1) write_words_disk [of "256 * n" m a disk "256 * unat lba"] assms(5)
    by (simp add: rd_disk_m_32_def sector_words_def Let_def distrib_left ecx_words del: of_nat_mult)
qed

lemma rd_disk_m_16_copies:
  assumes "streams io todo ready (256 * n)" "idle d" "unat lba < 0x10000000" "0 < n" "n < 256" "unat bx + 512 * n < 65536"
  shows "\<exists>d'. rd_disk_m_16 io ds lba bx (of_nat n) m d
    = Some (disk_copy disk m (push_bit 4 (ucast ds) + ucast bx) (512 * unat lba) (512 * n), d') \<and> idle d'"
proof -
  let ?ws = "sector_words disk (unat lba) n" and ?cx = "(of_nat n :: u16) * 256"
  have c: "ucast (of_nat n :: u32) = (of_nat n :: u16)" using assms(5) by (simp add: word_unat_eq_iff unat_ucast_mod unat_of_nat)
  obtain d1 where 1: "not_ready io (rd_disk_setup io lba (of_nat n) d) = Some d1" "todo d1 = ?ws" "ready d1"
    using rd_disk_starts [OF assms(2-5)] unfolding c by blast
  have "length ?ws = unat ?cx" using count_words [OF assms(5)] by (simp add: sector_words_def)
  moreover have "?cx \<noteq> 0" using count_words [OF assms(5)] assms(4) by (metis mult_eq_0_iff unat_0 zero_neq_numeral less_not_refl)
  moreover have "unat bx + 2 * length ?ws < 65536" "length ?ws \<le> 256 * n" using assms(6) by (simp_all add: sector_words_def)
  ultimately obtain d2 where "go_on_read_16 io ds ?cx bx m d1 = (write_words m (push_bit 4 (ucast ds) + ucast bx) ?ws, d2)" "idle d2"
    using go_on_read_16_words [OF assms(1) 1(2,3)] by blast
  then show ?thesis
    using 1(1) write_words_disk [of "256 * n" m _ disk "256 * unat lba"] assms(5)
    by (simp add: rd_disk_m_16_def sector_words_def Let_def distrib_left)
qed

end

section \<open>Drives\<close>

context prompt_disk
begin

lemma streams_all: "streams io todo ready k"
  by (auto simp: streams_def intro: next_ready)

lemmas rd_disk_m_32_prompt = rd_disk_m_32_copies [OF streams_all]
  and rd_disk_m_16_prompt = rd_disk_m_16_copies [OF streams_all]

end

text \<open>A controller with the disk it reads from: the last byte written to each register, the words
  still to be read, and the number of polls it answers with busy: \<open>delay\<close> polls after the command, \<open>gap\<close> after each sector but the last.
  It ignores writes while a command is in progress; the data port floats while no word is available.\<close>

record drive =
  drive_regs :: "u16 \<Rightarrow> u8"
  drive_todo :: "u16 list"
  drive_busy :: nat

definition drive_ready :: "drive \<Rightarrow> bool" where
  "drive_ready d \<longleftrightarrow> drive_busy d = 0"

definition drive_idle :: "drive \<Rightarrow> bool" where
  "drive_idle d \<longleftrightarrow> drive_todo d = []"

definition drive_io :: "(nat \<Rightarrow> u8) \<Rightarrow> nat \<Rightarrow> nat \<Rightarrow> drive ata_io" where
  "drive_io disk delay gap =
     \<lparr>io_out8 = (\<lambda>p v d. if drive_todo d \<noteq> [] then d
        else if p = 0x1f7
        then (if v = 0x20 then d\<lparr>drive_todo := sector_words disk (lba_of (drive_regs d)) (count_of (drive_regs d)), drive_busy := delay\<rparr> else d)
        else d\<lparr>drive_regs := (drive_regs d)(p := v)\<rparr>),
      io_in8 = (\<lambda>p d. if drive_todo d = [] then (0x50, d)
        else if drive_busy d = 0 then (0x58, d) else (0xd0, d\<lparr>drive_busy := drive_busy d - 1\<rparr>)),
      io_in16 = (\<lambda>p d. case drive_todo d of
          [] \<Rightarrow> (0xffff, d)
        | w # ws \<Rightarrow> if drive_busy d = 0
            then (w, d\<lparr>drive_todo := ws, drive_busy := (if ws \<noteq> [] \<and> length ws mod 256 = 0 then gap else 0)\<rparr>) else (0xffff, d))\<rparr>"

interpretation ata: ata_disk "drive_io disk delay gap" disk drive_regs drive_todo drive_ready drive_idle drive_busy for disk delay gap
  by unfold_locales (auto simp: drive_io_def drive_ready_def drive_idle_def split: if_splits)

interpretation prompt: prompt_disk "drive_io disk delay 0" disk drive_regs drive_todo drive_ready drive_idle drive_busy for disk delay
  by unfold_locales (auto simp: drive_io_def drive_ready_def)

definition demo_drive :: drive where
  "demo_drive = \<lparr>drive_regs = (\<lambda>_. 0), drive_todo = [], drive_busy = 0\<rparr>"

lemma demo_drive_idle: "drive_idle demo_drive"
  by (simp add: drive_idle_def demo_drive_def)


text \<open>With \<open>gap > 0\<close> the loop reads on before the second sector is there: it gets what the port floats to.\<close>

lemma stalled_read:
  assumes "drive_busy d \<noteq> 0" "unat ecx = k" "ecx \<noteq> 0"
  shows "go_on_read_32 (drive_io disk delay gap) ecx ebx m d = (write_words m ebx (replicate k 0xffff), d)"
  using assms
proof (induction k arbitrary: ecx ebx m)
  case 0
  then show ?case by (simp add: unat_eq_0)
next
  case (Suc k)
  have i: "io_in16 (drive_io disk delay gap) 0x1f0 d = (0xffff, d)" using Suc.prems(1) by (simp add: drive_io_def split: list.split)
  have k: "unat (ecx - 1) = k" using Suc.prems(2,3) by (simp add: unat_pred)
  then have "ecx - 1 = 0 \<longleftrightarrow> k = 0" by (metis unat_0 unat_eq_0)
  then show ?case using i Suc.IH [OF Suc.prems(1) k] by (subst go_on_read_32.simps) (auto simp: Let_def)
qed

lemma gap_read:
  assumes "drive_busy d = 0" "drive_todo d = ws @ rest" "ws \<noteq> []" "length ws \<le> 256" "rest \<noteq> []" "length rest mod 256 = 0"
    "unat ecx = length ws + k" "0 < k" "0 < gap"
  shows "\<exists>d'. go_on_read_32 (drive_io disk delay gap) ecx ebx m d = (write_words m ebx (ws @ replicate k 0xffff), d')"
  using assms
proof (induction ws arbitrary: ecx ebx m d)
  case (Cons w ws)
  let ?g = "if ws @ rest \<noteq> [] \<and> length (ws @ rest) mod 256 = 0 then gap else 0"
  let ?d = "d\<lparr>drive_todo := ws @ rest, drive_busy := ?g\<rparr>"
  have i: "io_in16 (drive_io disk delay gap) 0x1f0 d = (w, ?d)" using Cons.prems(1,2) by (simp add: drive_io_def)
  have e: "ecx \<noteq> 0" using Cons.prems(7) by auto
  then have k: "unat (ecx - 1) = length ws + k" using Cons.prems(7) by (simp add: unat_pred)
  then have e1: "ecx - 1 \<noteq> 0" using Cons.prems(8) by (metis add_is_0 not_gr_zero unat_0)
  have s: "go_on_read_32 (drive_io disk delay gap) ecx ebx m d = go_on_read_32 (drive_io disk delay gap) (ecx - 1) (ebx + 2) (store16 m ebx w) ?d"
    using e1 by (subst go_on_read_32.simps) (simp add: i Let_def)
  show ?case
  proof (cases "ws = []")
    case True
    then have "drive_busy ?d \<noteq> 0" using Cons.prems(5,6,9) by simp
    from stalled_read [OF this k e1] True show ?thesis by (simp add: s)
  next
    case False
    have "length (ws @ rest) mod 256 = length ws mod 256" using Cons.prems(6) by (simp flip: mod_add_right_eq)
    also have "\<dots> \<noteq> 0" using False Cons.prems(4) by simp
    finally have "?g = 0" by (simp only:) simp
    then show ?thesis using Cons.IH [of ?d "ecx - 1" "ebx + 2" "store16 m ebx w"] Cons.prems False k by (simp add: s)
  qed
qed simp

lemma write_words_append: "write_words m a (xs @ ys) = write_words (write_words m a xs) (a + of_nat (2 * length xs)) ys"
  by (induction xs arbitrary: m a) (simp_all add: algebra_simps)

lemma gap_sectors:
  assumes "drive_idle d" "unat lba < 0x10000000" "1 < n" "n < 256" "0 < gap"
  shows "\<exists>d'. rd_disk_m_32 (drive_io disk delay gap) lba a (of_nat n) m d
    = Some (disk_copy (\<lambda>_. 0xff) (disk_copy disk m a (512 * unat lba) 512) (a + 512) 0 (512 * (n - 1)), d')"
proof -
  let ?io = "drive_io disk delay gap" and ?ws = "sector_words disk (unat lba) n"
  let ?x = "sector_words disk (unat lba) 1" and ?k = "256 * (n - 1)"
  have "0 < n" using assms(3) by simp
  obtain d1 where 1: "not_ready ?io (rd_disk_setup ?io lba (ucast (of_nat n :: u32)) d) = Some d1" "drive_todo d1 = ?ws" "drive_ready d1"
    by (rule ata.rd_disk_starts [OF assms(1,2) \<open>0 < n\<close> assms(4)])
  have w: "?ws = ?x @ map (disk_word disk) [256 * unat lba + 256..<256 * unat lba + 256 + ?k]"
  proof -
    have "256 * (unat lba + n) = 256 * unat lba + 256 + ?k" using assms(3) by (simp add: algebra_simps)
    moreover have "[256 * unat lba..<256 * unat lba + 256 + ?k] = [256 * unat lba..<256 * unat lba + 256] @ [256 * unat lba + 256..<256 * unat lba + 256 + ?k]"
      by (rule upt_add_eq_append) simp
    moreover have "256 * (unat lba + 1) = 256 * unat lba + 256" by simp
    ultimately show ?thesis by (simp only: sector_words_def map_append)
  qed
  have u: "unat (of_nat (256 * n) :: u32) = length ?x + ?k"
    using assms(3,4) by (subst unat_of_nat32) (simp_all add: sector_words_def algebra_simps)
  obtain d2 where "go_on_read_32 ?io (of_nat (256 * n)) a m d1 = (write_words m a (?x @ replicate ?k 0xffff), d2)"
    using gap_read [OF _ 1(2) [unfolded w] _ _ _ _ u, of gap disk delay a m] 1(3) assms(3,5)
    unfolding drive_ready_def length_map length_upt by (auto simp: sector_words_def simp del: of_nat_mult)
  moreover have "write_words m a (?x @ replicate ?k 0xffff) = disk_copy (\<lambda>_. 0xff) (disk_copy disk m a (512 * unat lba) 512) (a + 512) 0 (512 * (n - 1))"
  proof -
    have "disk_word (\<lambda>_. 0xff) i = 0xffff" for i by (simp add: disk_word_def)
    then have "replicate ?k 0xffff = map (disk_word (\<lambda>_. 0xff)) [0..<0 + ?k]" by (intro nth_equalityI) simp_all
    then show ?thesis
      using write_words_disk [of 256 m a disk "256 * unat lba"] write_words_disk [of ?k _ _ "\<lambda>_. 0xff" 0] assms(4)
      by (simp add: write_words_append sector_words_def distrib_left add.commute [of 256])
  qed
  ultimately show ?thesis using 1(1) assms(4) by (simp add: rd_disk_m_32_def Let_def ecx_words [OF assms(4)] del: of_nat_mult)
qed


section \<open>Properties\<close>

text \<open>C39: reading sectors from an idle ATA drive at a 28-bit block address.  One sector from any drive, or 1 to 255
  sectors from a prompt one: both routines return, the bytes of these sectors are at the given address, nothing else
  has changed and the drive is idle again; the 16-bit routine needs a range that ends within its segment.  From a drive that
  has to be polled before each sector a read of more than one sector still returns, but only the first
  one has arrived: the rest of the range holds what the data port floats to, since the routine polls once per command.\<close>

theorem rd_disk_reads:
  assumes "ata_disk io disk regs todo ready idle busy" "idle d" "unat lba < 0x10000000" "0 < n" "n < 256"
  shows "(n = 1 \<or> prompt_disk io disk regs todo ready idle busy \<longrightarrow>
      (\<exists>d'. rd_disk_m_32 io lba a (of_nat n) m d = Some (disk_copy disk m a (512 * unat lba) (512 * n), d') \<and> idle d')
      \<and> (unat bx + 512 * n < 65536 \<longrightarrow> (\<exists>d'. rd_disk_m_16 io ds lba bx (of_nat n) m d
        = Some (disk_copy disk m (push_bit 4 (ucast ds) + ucast bx) (512 * unat lba) (512 * n), d') \<and> idle d')))
    \<and> (1 < n \<and> 0 < gap \<and> drive_idle dr \<longrightarrow> (\<exists>d'. rd_disk_m_32 (drive_io disk delay gap) lba a (of_nat n) m dr
      = Some (disk_copy (\<lambda>_. 0xff) (disk_copy disk m a (512 * unat lba) 512) (a + 512) 0 (512 * (n - 1)), d')))"
proof -
  have "streams io todo ready (256 * n)" if "n = 1 \<or> prompt_disk io disk regs todo ready idle busy"
    using that ata_disk.streams_sector [OF assms(1)] prompt_disk.streams_all by auto
  then show ?thesis
    using ata_disk.rd_disk_m_32_copies [OF assms(1) _ assms(2-5)] ata_disk.rd_disk_m_16_copies [OF assms(1) _ assms(2-5)]
      gap_sectors [OF _ assms(3) _ assms(5)] by blast
qed

theorem rd_disk_reads_witness:
  "(\<exists>d'. rd_disk_m_32 (drive_io (\<lambda>i. of_nat i) 7 0) 9 0x70000 (of_nat 200) (\<lambda>_. 0) demo_drive
      = Some (disk_copy (\<lambda>i. of_nat i) (\<lambda>_. 0) 0x70000 4608 102400, d'))
   \<and> disk_copy (\<lambda>i. of_nat i) (\<lambda>_. 0) 0x70000 4608 102400 0x70221 = 0x21
   \<and> disk_copy (\<lambda>i. of_nat i) (\<lambda>_. 0) 0x70000 4608 102400 0x89000 = 0
   \<and> (\<exists>m' d'. rd_disk_m_32 (drive_io (\<lambda>i. of_nat i) 7 1) 9 0x70000 (of_nat 200) (\<lambda>_. 0) demo_drive = Some (m', d') \<and> m' 0x70221 = 0xff)"
  using rd_disk_reads [OF ata.ata_disk_axioms demo_drive_idle, of 9 200 "\<lambda>i. of_nat i" 7 0 "0x70000" "\<lambda>_. 0" _ _ 1 demo_drive 7]
    prompt.prompt_disk_axioms [of "\<lambda>i. of_nat i" 7]
  by (auto simp: disk_copy_def demo_drive_idle)

end
