(* ===== verification/Boot_Probe.thy ===== *)
theory Boot_Probe
  imports Boot_Disk
begin

text \<open>
  The memory size (\<open>loader_start\<close> of \<open>boot/loader.S\<close>): the loader asks the firmware for the memory
  map (\<open>int 0x15\<close>, function \<open>0xe820\<close>) and takes the largest end of an area; if that fails it tries the functions
  \<open>0xe801\<close> and \<open>0x88\<close>, and halts when all fail.  The firmware is a parameter \<open>int15\<close>
  from registers and memory to the carry flag, registers and memory.  The locale \<open>e820_bios\<close> states
  the documented behaviour of function \<open>0xe820\<close> that the loop relies on; \<open>demo_bios\<close> is a firmware that has it.
  The segment registers are 0, as the boot sector leaves them.  The loop over the map is a partial function, \<open>None\<close> where the firmware never ends its list.
\<close>

section \<open>The data of the loader\<close>

definition GDT_BASE :: u32 where "GDT_BASE = LOADER_BASE_ADDR"
definition GDT_SIZE :: u32 where "GDT_SIZE = 4 * 8"
definition total_mem_bytes :: u32 where "total_mem_bytes = GDT_BASE + GDT_SIZE + 60 * 8"
definition gdt_ptr :: u32 where "gdt_ptr = total_mem_bytes + 4"
definition ards_buf :: u32 where "ards_buf = gdt_ptr + 2 + 4"
definition ards_nr :: u32 where "ards_nr = ards_buf + 244"
definition loader_start :: u32 where "loader_start = ards_nr + 2"

lemmas loader_layout = GDT_BASE_def GDT_SIZE_def total_mem_bytes_def gdt_ptr_def ards_buf_def ards_nr_def loader_start_def
  LOADER_BASE_ADDR_def

lemma unat_ards_nr: "unat ards_nr = 0xbfe" "unat (ards_nr + 1) = 0xbff"
  by (simp_all add: loader_layout)

definition load16 :: "mem \<Rightarrow> u32 \<Rightarrow> u16" where
  "load16 m p = ucast (m p) OR push_bit 8 (ucast (m (p + 1)))"

record regs =
  r_eax :: u32
  r_ebx :: u32
  r_ecx :: u32
  r_edx :: u32
  r_edi :: u32

type_synonym bios = "regs \<Rightarrow> mem \<Rightarrow> bool \<times> regs \<times> mem"

definition lo16 :: "u32 \<Rightarrow> u16" where
  "lo16 x = ucast x"

definition set_lo16 :: "u32 \<Rightarrow> u16 \<Rightarrow> u32" where
  "set_lo16 x w = (x AND 0xffff0000) OR ucast w"

section \<open>The three ways to ask\<close>

partial_function (option) e820_mem_get_loop :: "bios \<Rightarrow> regs \<Rightarrow> mem \<Rightarrow> (bool \<times> regs \<times> mem) option" where
  "e820_mem_get_loop int15 r m =
     (case int15 (r\<lparr>r_eax := 0xe820, r_ecx := 20\<rparr>) m of (cf, r, m) \<Rightarrow>
       if cf then Some (False, r, m)
       else (let r = r\<lparr>r_edi := set_lo16 (r_edi r) (lo16 (r_edi r) + lo16 (r_ecx r))\<rparr>;
                 m = store16 m ards_nr (load16 m ards_nr + 1)
             in if r_ebx r \<noteq> 0 then e820_mem_get_loop int15 r m else Some (True, r, m)))"

text \<open>The comparison \<open>jge\<close> is signed.\<close>

function find_max_mem_area :: "u16 \<Rightarrow> u32 \<Rightarrow> u32 \<Rightarrow> mem \<Rightarrow> u32" where
  "find_max_mem_area cx ebx edx m =
     (let eax = load32 m ebx + load32 m (ebx + 8);
          ebx = ebx + 20;
          edx = (if sint edx \<ge> sint eax then edx else eax);
          cx = cx - 1
      in if cx \<noteq> 0 then find_max_mem_area cx ebx edx m else edx)"
  by pat_completeness auto
termination
  by (relation "measure (\<lambda>(cx, ebx, edx, m). unat (cx - 1))") (auto intro: loop_measure)

declare find_max_mem_area.simps [simp del]

text \<open>A 16-bit \<open>mul\<close>: the product of \<open>ax\<close> and the operand in \<open>dx:ax\<close>.\<close>

definition mul16 :: "u16 \<Rightarrow> u32 \<Rightarrow> u32 \<Rightarrow> u32 \<times> u32" where
  "mul16 cx eax edx = (let p = ucast (lo16 eax) * ucast cx :: u32 in
     (set_lo16 eax (ucast p), set_lo16 edx (ucast (drop_bit 16 p))))"

definition e801_total :: "regs \<Rightarrow> u32" where
  "e801_total r =
     (case mul16 0x400 (r_eax r) (r_edx r) of (eax, edx) \<Rightarrow>
       (let edx = push_bit 16 edx;
            eax = eax AND 0x0000FFFF;
            edx = edx OR eax;
            edx = edx + 0x100000;
            esi = edx;
            eax = set_lo16 0 (lo16 (r_ebx r));
            eax = eax * 0x10000;
            esi = esi + eax
        in esi))"

definition e88_total :: "regs \<Rightarrow> u32" where
  "e88_total r =
     (case mul16 0x400 (r_eax r AND 0x0000FFFF) (r_edx r) of (eax, edx) \<Rightarrow>
       (let edx = push_bit 16 edx;
            edx = edx OR eax
        in edx + 0x100000))"

definition e801_try88 :: "bios \<Rightarrow> regs \<Rightarrow> mem \<Rightarrow> mem option" where
  "e801_try88 int15 r m =
     (case int15 (r\<lparr>r_eax := set_lo16 (r_eax r) 0xe801\<rparr>) m of (cf, r, m) \<Rightarrow>
       if \<not> cf then Some (store32 m total_mem_bytes (e801_total r))
       else (case int15 (r\<lparr>r_eax := set_lo16 (r_eax r) ((lo16 (r_eax r) AND 0x00ff) OR 0x8800)\<rparr>) m of (cf, r, m) \<Rightarrow>
         if \<not> cf then Some (store32 m total_mem_bytes (e88_total r)) else None))"

text \<open>
  The inner \<open>None\<close> is that the \<open>hlt\<close> at \<open>.error_hlt\<close> is reached, the outer one a map that does not end.  What an interrupt
  that wakes the processor from the \<open>hlt\<close> makes of it, which falls into the 32-bit code behind, is not modelled.
\<close>

definition mem_probe :: "bios \<Rightarrow> regs \<Rightarrow> mem \<Rightarrow> mem option option" where
  "mem_probe int15 r m =
     do { (ok, r, m) \<leftarrow> e820_mem_get_loop int15 (r\<lparr>r_ebx := 0, r_edx := 0x534d4150, r_edi := set_lo16 (r_edi r) (lo16 ards_buf)\<rparr>) m;
          Some (if ok then Some (store32 m total_mem_bytes (find_max_mem_area (load16 m ards_nr) ards_buf 0 m))
                else e801_try88 int15 r m) }"

section \<open>Half registers\<close>

lemma set_lo16_alt: "set_lo16 x w = push_bit 16 (drop_bit 16 x) OR ucast w"
  by (simp only: set_lo16_def and_ffff0000)

lemma lo16_set [simp]: "lo16 (set_lo16 x w) = w"
  by (rule bit_word_eqI) (auto simp: lo16_def set_lo16_alt bit_simps)

lemma mul16_product: "push_bit 16 (set_lo16 y (ucast (drop_bit 16 p))) OR (set_lo16 x (ucast p) AND 0xffff) = p"
  for p :: u32
proof (rule bit_word_eqI)
  fix n assume "n < LENGTH(32)"
  then show "bit (push_bit 16 (set_lo16 y (ucast (drop_bit 16 p))) OR (set_lo16 x (ucast p) AND 0xffff)) n = bit p n"
    unfolding and_ffff set_lo16_alt by (cases "n < 16") (auto simp: bit_simps)
qed

lemma e801_total_eq: "e801_total r = ucast (lo16 (r_eax r)) * 0x400 + 0x100000 + ucast (lo16 (r_ebx r)) * 0x10000"
proof -
  have "set_lo16 0 w = ucast w" for w by (simp add: set_lo16_def)
  then show ?thesis by (simp add: e801_total_def mul16_def Let_def mul16_product)
qed

lemma e88_total_eq: "e88_total r = ucast (lo16 (r_eax r)) * 0x400 + 0x100000"
proof -
  have l: "lo16 (x AND 0xffff) = lo16 x" for x unfolding and_ffff
    by (rule bit_word_eqI) (auto simp: lo16_def bit_simps)
  have "set_lo16 (x AND 0xffff) w = set_lo16 x w AND 0xffff" for x w unfolding and_ffff set_lo16_alt
    by (rule bit_word_eqI) (auto simp: bit_simps dest: bit_imp_le_length)
  then show ?thesis by (simp add: e88_total_def mul16_def Let_def mul16_product l)
qed

lemma unat_e88_total: "unat (e88_total r) = 1024 * unat (lo16 (r_eax r)) + 0x100000"
proof -
  have "unat (lo16 (r_eax r)) < 65536" using unsigned_less [of "lo16 (r_eax r)"] by simp
  then show ?thesis by (simp add: e88_total_eq unat_word_ariths unat_ucast_mod)
qed

section \<open>The memory map\<close>

definition put_bytes :: "mem \<Rightarrow> u32 \<Rightarrow> u8 list \<Rightarrow> mem" where
  "put_bytes m a bs = (\<lambda>p. if unat (p - a) < length bs then bs ! unat (p - a) else m p)"

text \<open>The end of an area descriptor: its base and its length, both cut to 32 bits.\<close>

definition area_end :: "u8 list \<Rightarrow> u32" where
  "area_end bs = load32 (put_bytes (\<lambda>_. 0) 0 bs) 0 + load32 (put_bytes (\<lambda>_. 0) 0 bs) 8"

text \<open>The memory that the firmware leaves alone: the loader, and everything above the boot sector's stack.\<close>

definition kept :: "u32 \<Rightarrow> bool" where
  "kept p \<longleftrightarrow> 0x900 \<le> unat p \<and> unat p < 0x1100 \<or> 0x7c00 \<le> unat p"

text \<open>Memory after \<open>k\<close> areas, and the registers with which the next one is asked for.\<close>

definition e820_mem :: "u8 list list \<Rightarrow> mem \<Rightarrow> nat \<Rightarrow> mem \<Rightarrow> bool" where
  "e820_mem areas m0 k m \<longleftrightarrow>
     (\<forall>p. kept p \<longrightarrow> m p = store16 (put_bytes m0 ards_buf (concat (take k areas))) ards_nr (of_nat k) p)"

definition e820_regs :: "(nat \<Rightarrow> u32) \<Rightarrow> nat \<Rightarrow> regs \<Rightarrow> bool" where
  "e820_regs cont k r \<longleftrightarrow> r_ebx r = cont k \<and> r_edx r = 0x534d4150 \<and> lo16 (r_edi r) = of_nat (0xb0a + 20 * k)"

lemma put_bytes_append:
  assumes "length xs + length ys \<le> 4294967296"
  shows "put_bytes m a (xs @ ys) = put_bytes (put_bytes m a xs) (a + of_nat (length xs)) ys"
proof
  fix p
  let ?n = "length xs"
  have b: "unat (p - a) < 4294967296" by (rule unat_u32_bound)
  have "unat (p - (a + of_nat ?n)) = unat (p - a - of_nat ?n)" by (simp add: algebra_simps)
  also have "\<dots> = (if ?n \<le> unat (p - a) then unat (p - a) - ?n else unat (p - a) + 4294967296 - ?n)" if "?n < 4294967296"
    using that by (subst unat_sub_if') (simp add: unat_of_nat32)
  finally have "unat (p - (a + of_nat ?n)) = (if ?n \<le> unat (p - a) then unat (p - a) - ?n else unat (p - a) + 4294967296 - ?n)"
    if "?n < 4294967296" using that .
  then show "put_bytes m a (xs @ ys) p = put_bytes (put_bytes m a xs) (a + of_nat (length xs)) ys p"
    using assms b by (cases "?n < 4294967296") (auto simp: put_bytes_def nth_append)
qed

lemma load16_store16 [simp]: "load16 (store16 m p x) p = x"
  by (rule bit_word_eqI) (auto simp: load16_def store16_def bit_simps)

lemma load16_cong: "m' p = m p \<Longrightarrow> m' (p + 1) = m (p + 1) \<Longrightarrow> load16 m' p = load16 m p"
  by (simp add: load16_def)

lemma store16_cong: "(q = p \<Longrightarrow> False) \<Longrightarrow> (q = p + 1 \<Longrightarrow> False) \<Longrightarrow> store16 m p x q = m q"
  by (auto simp: store16_def)

locale e820_bios =
  fixes int15 :: bios and areas :: "u8 list list" and cont :: "nat \<Rightarrow> u32"
  assumes some_area: "areas \<noteq> []"
    and area_length: "a \<in> set areas \<Longrightarrow> length a = 20"
    and cont_first: "cont 0 = 0"
    and cont_more: "0 < k \<Longrightarrow> k < length areas \<Longrightarrow> cont k \<noteq> 0"
    and call: "k < length areas \<Longrightarrow> r_eax r = 0xe820 \<Longrightarrow> r_edx r = 0x534d4150 \<Longrightarrow> r_ecx r = 20 \<Longrightarrow> r_ebx r = cont k \<Longrightarrow>
      \<exists>r' m'. int15 r m = (False, r', m') \<and> r_ecx r' = 20 \<and> r_edx r' = r_edx r \<and> r_edi r' = r_edi r
        \<and> r_ebx r' = (if Suc k = length areas then 0 else cont (Suc k))
        \<and> (\<forall>p. kept p \<longrightarrow> m' p = put_bytes m (ucast (lo16 (r_edi r))) (areas ! k) p)"
begin

lemma length_concat_take: "k \<le> length areas \<Longrightarrow> length (concat (take k areas)) = 20 * k"
  by (induction k) (simp_all add: take_Suc_conv_app_nth area_length)

text \<open>One turn of the loop, from the \<open>k\<close>-th area; the count is intact while the buffer is not overrun.\<close>

lemma turn:
  assumes "k < length areas" "k < 12" "e820_mem areas m0 k m" "e820_regs cont k r"
  shows "\<exists>r' m'. e820_mem_get_loop int15 r m = (if Suc k < length areas then e820_mem_get_loop int15 r' m' else Some (True, r', m'))
    \<and> e820_mem areas m0 (Suc k) m' \<and> (Suc k < length areas \<longrightarrow> e820_regs cont (Suc k) r')"
proof -
  let ?a = "of_nat (0xb0a + 20 * k) :: u32" and ?A = "areas ! k"
  let ?r = "r\<lparr>r_eax := 0xe820, r_ecx := 20\<rparr>"
  obtain r1 m1 where 1: "int15 ?r m = (False, r1, m1)" "r_ecx r1 = 20" "r_edx r1 = r_edx r" "r_edi r1 = r_edi r"
      "r_ebx r1 = (if Suc k = length areas then 0 else cont (Suc k))"
      "\<forall>p. kept p \<longrightarrow> m1 p = put_bytes m (ucast (lo16 (r_edi r))) ?A p"
    using call [of k ?r m] assms(1,4) by (auto simp: e820_regs_def)
  let ?r2 = "r1\<lparr>r_edi := set_lo16 (r_edi r1) (lo16 (r_edi r1) + lo16 (r_ecx r1))\<rparr>"
    and ?m2 = "store16 m1 ards_nr (load16 m1 ards_nr + 1)"
  have A: "length ?A = 20" using assms(1) by (simp add: area_length)
  have a: "ucast (lo16 (r_edi r)) = ?a"
    using assms(2,4) unfolding e820_regs_def by (simp add: word_unat_eq_iff unat_ucast_mod unat_of_nat unat_word_ariths)
  have nr: "ards_nr = 0xbfe" "ards_nr + 1 = 0xbff" "ards_buf = 0xb0a" by (simp_all add: loader_layout)
  have off: "unat (p - ?a) = unat p - (0xb0a + 20 * k)" if "0xb0a + 20 * k \<le> unat p" for p
  proof -
    have "unat ?a = 0xb0a + 20 * k" using assms(2) by (intro unat_of_nat32) simp
    then show ?thesis using that by (simp add: unat_sub word_le_nat_alt del: of_nat_add of_nat_mult)
  qed
  have m1: "m1 p = put_bytes m ?a ?A p" if "kept p" for p using 1(6) that a by simp
  have K: "kept 0xbfe" "kept 0xbff" by (simp_all add: kept_def)
  have "\<not> 244 - 20 * k < 20" "\<not> 245 - 20 * k < 20" using assms(2) by simp_all
  then have "m1 0xbfe = m 0xbfe" "m1 0xbff = m 0xbff"
    using m1 K off [of "0xbfe"] off [of "0xbff"] assms(2) A by (simp_all add: put_bytes_def)
  then have "load16 m1 ards_nr = load16 m ards_nr" by (intro load16_cong) (simp_all add: nr)
  also have "\<dots> = of_nat k"
    using assms(3) K by (subst load16_cong [where m = "store16 (put_bytes m0 ards_buf (concat (take k areas))) ards_nr (of_nat k)"]) (simp_all add: e820_mem_def nr)
  finally have cnt: "load16 m1 ards_nr + 1 = of_nat (Suc k)" by simp
  have "put_bytes m0 ards_buf (concat (take (Suc k) areas)) = put_bytes (put_bytes m0 ards_buf (concat (take k areas))) ?a ?A"
    using assms(1,2) A length_concat_take [of k]
    by (subst take_Suc_conv_app_nth) (simp_all add: put_bytes_append nr add.commute)
  then have "?m2 p = store16 (put_bytes m0 ards_buf (concat (take (Suc k) areas))) ards_nr (of_nat (Suc k)) p" if "kept p" for p
    using m1 [OF that] that assms(3) unfolding cnt by (auto simp: store16_def e820_mem_def put_bytes_def)
  then have M: "e820_mem areas m0 (Suc k) ?m2" by (simp add: e820_mem_def)
  have "e820_mem_get_loop int15 r m = (if r_ebx r1 \<noteq> 0 then e820_mem_get_loop int15 ?r2 ?m2 else Some (True, ?r2, ?m2))"
    by (subst e820_mem_get_loop.simps) (simp add: 1(1) Let_def)
  moreover have "r_ebx r1 \<noteq> 0 \<longleftrightarrow> Suc k < length areas" using 1(5) cont_more [of "Suc k"] assms(1) by auto
  moreover have "e820_regs cont (Suc k) ?r2" if "Suc k < length areas"
  proof -
    have "lo16 20 = 20" by (simp add: lo16_def)
    then show ?thesis using that 1(2,3,4,5) assms(2,4) by (auto simp: e820_regs_def)
  qed
  ultimately show ?thesis using M by (intro exI [of _ ?r2] exI [of _ ?m2]) auto
qed

lemma reach:
  assumes "k < length areas" "k \<le> 12" "e820_mem areas m0 0 m" "e820_regs cont 0 r"
  shows "\<exists>r' m'. e820_mem_get_loop int15 r m = e820_mem_get_loop int15 r' m' \<and> e820_mem areas m0 k m' \<and> e820_regs cont k r'"
  using assms(1,2)
proof (induction k)
  case 0
  with assms(3,4) show ?case by blast
next
  case (Suc k)
  then obtain r1 m1 where 1: "e820_mem_get_loop int15 r m = e820_mem_get_loop int15 r1 m1" "e820_mem areas m0 k m1" "e820_regs cont k r1"
    by auto
  have "k < length areas" "k < 12" using Suc.prems by simp_all
  from turn [OF this 1(2,3)] show ?case using 1(1) Suc.prems(1) by auto
qed

lemma map_read:
  assumes "length areas \<le> 12" "e820_mem areas m0 0 m" "e820_regs cont 0 r"
  shows "\<exists>r' m'. e820_mem_get_loop int15 r m = Some (True, r', m') \<and> e820_mem areas m0 (length areas) m'"
proof -
  obtain k where k: "length areas = Suc k" "k < length areas" "k < 12"
    using some_area assms(1) by (cases areas) auto
  then obtain r1 m1 where "e820_mem_get_loop int15 r m = e820_mem_get_loop int15 r1 m1" "e820_mem areas m0 k m1" "e820_regs cont k r1"
    using reach [of k m0 m r] assms(2,3) by auto
  with turn [OF k(2,3) this(2,3)] k(1) show ?thesis by auto
qed

text \<open>What the buffer holds when the map is read.\<close>

lemma area_in_memory:
  assumes "length areas \<le> 12" "e820_mem areas m0 (length areas) m" "i < length areas"
  shows "load32 m (ards_buf + of_nat (20 * i)) + load32 m (ards_buf + of_nat (20 * i) + 8) = area_end (areas ! i)"
proof -
  let ?b = "ards_buf + of_nat (20 * i)"
  have byte: "m (?b + of_nat j) = areas ! i ! j" if "j < 20" for j
  proof -
    have b: "?b + of_nat j = of_nat (0xb0a + (20 * i + j))" by (simp add: loader_layout)
    have u: "unat (?b + of_nat j) = 0xb0a + (20 * i + j)" unfolding b using that assms(1,3) by (intro unat_of_nat32) simp
    have "kept (?b + of_nat j)" unfolding kept_def u using that assms(1,3) by simp
    moreover have "unat (?b + of_nat j - ards_buf) = 20 * i + j"
    proof -
      have "?b + of_nat j - ards_buf = of_nat (20 * i + j)" by simp
      then show ?thesis using that assms(1,3) by (simp only:) (rule unat_of_nat32, simp)
    qed
    moreover have "?b + of_nat j \<noteq> ards_nr" "?b + of_nat j \<noteq> ards_nr + 1"
    proof -
      have "unat (?b + of_nat j) < 0xbfe" unfolding u using that assms(1,3) by simp
      then show "?b + of_nat j \<noteq> ards_nr" "?b + of_nat j \<noteq> ards_nr + 1" using unat_ards_nr by auto
    qed
    ultimately have "m (?b + of_nat j) = concat areas ! (20 * i + j)"
      using assms that by (simp add: e820_mem_def store16_def put_bytes_def length_concat_take [of "length areas", simplified])
    also have "concat areas = concat (take i areas) @ areas ! i @ concat (drop (Suc i) areas)"
      using assms(3) by (metis concat.simps(2) concat_append id_take_nth_drop)
    also have "\<dots> ! (20 * i + j) = areas ! i ! j"
      using that assms(3) length_concat_take [of i] by (simp add: nth_append area_length)
    finally show ?thesis .
  qed
  have P: "put_bytes (\<lambda>_. 0) 0 (areas ! i) (of_nat j) = areas ! i ! j" if "j < 20" for j
    using that assms(3) by (simp add: put_bytes_def area_length unat_of_nat32)
  have "load32 m ?b = load32 (put_bytes (\<lambda>_. 0) 0 (areas ! i)) 0"
    using byte [of 0] byte [of 1] byte [of 2] byte [of 3] P [of 0] P [of 1] P [of 2] P [of 3] by (simp add: load32_def)
  moreover have "load32 m (?b + 8) = load32 (put_bytes (\<lambda>_. 0) 0 (areas ! i)) 8"
    using byte [of 8] byte [of 9] byte [of 10] byte [of 11] P [of 8] P [of 9] P [of 10] P [of 11]
    by (simp add: load32_def add.assoc)
  ultimately show ?thesis by (simp add: area_end_def)
qed

text \<open>A thirteenth area runs over the count and the first instructions of the loader.\<close>

lemma overrun:
  assumes "length areas = 13" "e820_mem areas m0 0 m" "e820_regs cont 0 r"
  shows "\<exists>r' m'. e820_mem_get_loop int15 r m = Some (True, r', m')
    \<and> load16 m' ards_nr = (ucast (areas ! 12 ! 4) OR push_bit 8 (ucast (areas ! 12 ! 5))) + 1
    \<and> (\<forall>i < 14. m' (loader_start + of_nat i) = areas ! 12 ! (6 + i))"
proof -
  obtain r1 m1 where 1: "e820_mem_get_loop int15 r m = e820_mem_get_loop int15 r1 m1" "e820_regs cont 12 r1"
    using reach [of 12 m0 m r] assms by auto
  let ?A = "areas ! 12"
  obtain r2 m2 where 2: "int15 (r1\<lparr>r_eax := 0xe820, r_ecx := 20\<rparr>) m1 = (False, r2, m2)" "r_ebx r2 = 0"
      "\<forall>p. kept p \<longrightarrow> m2 p = put_bytes m1 (ucast (lo16 (r_edi r1))) ?A p"
    using call [of 12 "r1\<lparr>r_eax := 0xe820, r_ecx := 20\<rparr>" m1] assms(1) 1(2) by (auto simp: e820_regs_def)
  have A: "length ?A = 20" using assms(1) by (simp add: area_length)
  have a: "ucast (lo16 (r_edi r1)) = (0xbfa :: u32)" using 1(2) by (simp add: e820_regs_def)
  have byte: "m2 (0xbfa + of_nat j) = ?A ! j" if "j < 20" for j
  proof -
    have "unat (0xbfa + of_nat j :: u32) = 0xbfa + j" using that unat_add_no_wrap [of "0xbfa" j] by simp
    then have "kept (0xbfa + of_nat j)" using that by (simp add: kept_def)
    then show ?thesis using 2(3) a A that by (simp add: put_bytes_def unat_of_nat32)
  qed
  let ?m = "store16 m2 ards_nr (load16 m2 ards_nr + 1)"
  have "?m (loader_start + of_nat i) = ?A ! (6 + i)" if "i < 14" for i
  proof -
    have e: "loader_start + of_nat i = 0xbfa + of_nat (6 + i)" by (simp add: loader_layout)
    have "unat (0xbfa + of_nat (6 + i) :: u32) = 0xbfa + (6 + i)" using that unat_add_no_wrap [of "0xbfa" "6 + i"] by simp
    then have "0xbfa + of_nat (6 + i) \<noteq> ards_nr" "0xbfa + of_nat (6 + i) \<noteq> ards_nr + 1" by (intro unat_neqI; simp add: unat_ards_nr)+
    then show ?thesis using byte [of "6 + i"] that unfolding e by (simp add: store16_def)
  qed
  moreover have "load16 m2 ards_nr = ucast (?A ! 4) OR push_bit 8 (ucast (?A ! 5))"
    using byte [of 4] byte [of 5] by (simp add: load16_def loader_layout)
  moreover have "e820_mem_get_loop int15 r1 m1 = Some (True, r2\<lparr>r_edi := set_lo16 (r_edi r2) (lo16 (r_edi r2) + lo16 (r_ecx r2))\<rparr>, ?m)"
    by (subst e820_mem_get_loop.simps) (simp add: 2(1,2) Let_def)
  ultimately show ?thesis using 1(1) by (intro exI conjI) (assumption | simp)+
qed

end

section \<open>The largest end\<close>

definition smax :: "u32 \<Rightarrow> u32 \<Rightarrow> u32" where
  "smax e x = (if sint x \<ge> sint e then x else e)"

lemma find_max_fold:
  assumes "es \<noteq> []" "length es < 65536"
    "\<And>i. i < length es \<Longrightarrow> load32 m (ebx + of_nat (20 * i)) + load32 m (ebx + of_nat (20 * i) + 8) = es ! i"
  shows "find_max_mem_area (of_nat (length es)) ebx edx m = fold smax es edx"
  using assms
proof (induction es arbitrary: ebx edx)
  case (Cons e es)
  have e: "load32 m ebx + load32 m (ebx + 8) = e" using Cons.prems(3) [of 0] by simp
  have n: "of_nat (length (e # es)) - 1 = (of_nat (length es) :: u16)" by simp
  have z: "of_nat (length es) = (0 :: u16) \<longleftrightarrow> es = []"
    using Cons.prems(2) by (simp add: word_unat_eq_iff unat_of_nat)
  show ?case
  proof (cases "es = []")
    case False
    have "load32 m (ebx + 20 + of_nat (20 * i)) + load32 m (ebx + 20 + of_nat (20 * i) + 8) = es ! i" if "i < length es" for i
      using Cons.prems(3) [of "Suc i"] that by (simp add: ac_simps)
    then have "find_max_mem_area (of_nat (length es)) (ebx + 20) x m = fold smax es x" for x
      using Cons.IH [OF False] Cons.prems(2) by simp
    with False z show ?thesis
      by (subst find_max_mem_area.simps) (simp only: Let_def n e, simp add: smax_def)
  next
    case True
    then show ?thesis by (subst find_max_mem_area.simps) (simp add: e smax_def)
  qed
qed simp

lemma sint_fold_smax: "sint (fold smax es x) = Max (insert (sint x) (sint ` set es))"
proof (induction es arbitrary: x)
  case (Cons e es)
  have "sint (smax e x) = max (sint e) (sint x)" by (simp add: smax_def)
  with Cons show ?case by (cases "es = []") (simp_all add: max.left_commute max.commute insert_commute)
qed simp

section \<open>The whole probe\<close>

lemma e820_start:
  assumes "cont 0 = 0" "m ards_nr = 0" "m (ards_nr + 1) = 0"
  shows "e820_mem areas m 0 m" "e820_regs cont 0 (r\<lparr>r_ebx := 0, r_edx := 0x534d4150, r_edi := set_lo16 (r_edi r) (lo16 ards_buf)\<rparr>)"
proof -
  have "lo16 ards_buf = 0xb0a" by (simp add: loader_layout lo16_def)
  then show "e820_regs cont 0 (r\<lparr>r_ebx := 0, r_edx := 0x534d4150, r_edi := set_lo16 (r_edi r) (lo16 ards_buf)\<rparr>)"
    using assms(1) by (simp add: e820_regs_def)
  show "e820_mem areas m 0 m" using assms(2,3) by (auto simp: e820_mem_def store16_def put_bytes_def)
qed

lemma mem_probe_map:
  assumes B: "e820_bios int15 areas cont" and n: "length areas \<le> 12" and z: "m ards_nr = 0" "m (ards_nr + 1) = 0"
  obtains m1 where "mem_probe int15 r m = Some (Some (store32 m1 total_mem_bytes (fold smax (map area_end areas) 0)))"
    "e820_mem areas m (length areas) m1"
proof -
  let ?r = "r\<lparr>r_ebx := 0, r_edx := 0x534d4150, r_edi := set_lo16 (r_edi r) (lo16 ards_buf)\<rparr>"
  note s = e820_start [of cont m, OF e820_bios.cont_first [OF B] z]
  obtain r1 m1 where 1: "e820_mem_get_loop int15 ?r m = Some (True, r1, m1)" "e820_mem areas m (length areas) m1"
    using e820_bios.map_read [OF B n s] by blast
  have "kept ards_nr" "kept (ards_nr + 1)" by (simp_all add: kept_def loader_layout)
  then have "load16 m1 ards_nr = load16 (store16 (put_bytes m ards_buf (concat areas)) ards_nr (of_nat (length areas))) ards_nr"
    using 1(2) by (intro load16_cong) (simp_all add: e820_mem_def)
  then have "load16 m1 ards_nr = of_nat (length (map area_end areas))" by simp
  moreover have "find_max_mem_area (of_nat (length (map area_end areas))) ards_buf 0 m1 = fold smax (map area_end areas) 0"
    by (rule find_max_fold) (use e820_bios.some_area [OF B] n e820_bios.area_in_memory [OF B n 1(2)] in \<open>simp_all del: of_nat_mult\<close>)
  ultimately have "mem_probe int15 r m = Some (Some (store32 m1 total_mem_bytes (fold smax (map area_end areas) 0)))"
    by (simp only: mem_probe_def 1(1)) simp
  with 1(2) show thesis by (rule that [rotated])
qed

lemma store32_get: "load32 (store32 m p x) p = x" "unat p + 4 \<le> 4294967296 \<Longrightarrow> unat q < unat p \<or> unat p + 4 \<le> unat q \<Longrightarrow> store32 m p x q = m q"
proof -
  show "load32 (store32 m p x) p = x" by simp
  assume "unat p + 4 \<le> 4294967296" "unat q < unat p \<or> unat p + 4 \<le> unat q"
  then show "store32 m p x q = m q" using word_bytes_iff [of "unat p" q] by (intro store32_other) auto
qed

lemma store16_get: "unat p + 2 \<le> 4294967296 \<Longrightarrow> unat q < unat p \<or> unat p + 2 \<le> unat q \<Longrightarrow> store16 m p x q = m q"
  using unat_add_no_wrap [of p 1] by (intro store16_cong) auto

lemma load32_bytes:
  assumes "unat a + 4 \<le> 4294967296" "\<And>q. unat a \<le> unat q \<Longrightarrow> unat q < unat a + 4 \<Longrightarrow> m' q = m q"
  shows "load32 m' a = load32 m a"
  by (rule load32_cong, rule assms(2)) (use word_bytes_iff [of "unat a"] assms(1) in auto)

lemma load16_bytes:
  assumes "unat a + 2 \<le> 4294967296" "\<And>q. unat a \<le> unat q \<Longrightarrow> unat q < unat a + 2 \<Longrightarrow> m' q = m q"
  shows "load16 m' a = load16 m a"
  using unat_add_no_wrap [of a 1] assms by (intro load16_cong) auto

lemma put_bytes_outside:
  "unat a + length bs \<le> 4294967296 \<Longrightarrow> unat p < unat a \<or> unat a + length bs \<le> unat p \<Longrightarrow> put_bytes m a bs p = m p"
  by (auto simp: put_bytes_def unat_diff_less_iff)

text \<open>What the probe leaves of the loader: everything but the size and the buffer of the map.\<close>

lemma probe_frame:
  assumes "e820_bios int15 areas cont" "length areas \<le> 12" "e820_mem areas m (length areas) m1" "kept p"
    "unat p < 0xb00 \<or> 0xb04 \<le> unat p \<and> unat p < 0xb0a \<or> 0xc00 \<le> unat p"
  shows "store32 m1 total_mem_bytes x p = m p"
proof -
  have t: "unat total_mem_bytes = 0xb00" "unat ards_buf = 0xb0a" by (simp_all add: loader_layout)
  have l: "length (concat areas) = 20 * length areas" using e820_bios.length_concat_take [OF assms(1), of "length areas"] by simp
  have "store32 m1 total_mem_bytes x p = m1 p" using assms(5) t by (intro store32_get(2)) auto
  also have "\<dots> = store16 (put_bytes m ards_buf (concat areas)) ards_nr (of_nat (length areas)) p"
    using assms(3,4) by (simp add: e820_mem_def)
  also have "\<dots> = put_bytes m ards_buf (concat areas) p"
    using assms(5) by (intro store16_cong) (auto simp: unat_ards_nr)
  also have "\<dots> = m p" using assms(2,5) t(2) l by (intro put_bytes_outside) auto
  finally show ?thesis .
qed

text \<open>A firmware with a given map; the continuation value is the index of the next area.\<close>

definition list_bios :: "u8 list list \<Rightarrow> bios" where
  "list_bios areas r m =
     (let k = unat (r_ebx r) in
      if r_eax r = 0xe820 \<and> k < length areas
      then (False, r\<lparr>r_eax := 0x534d4150, r_ebx := (if Suc k = length areas then 0 else of_nat (Suc k))\<rparr>,
            put_bytes m (ucast (lo16 (r_edi r))) (areas ! k))
      else (True, r, m))"

definition le_bytes :: "nat \<Rightarrow> nat \<Rightarrow> u8 list" where
  "le_bytes n x = map (\<lambda>i. of_nat (x div 256 ^ i)) [0..<n]"

definition area :: "nat \<Rightarrow> nat \<Rightarrow> u8 list" where
  "area base len = le_bytes 8 base @ le_bytes 8 len @ le_bytes 4 1"

lemma list_bios_e820:
  assumes "areas \<noteq> []" "\<forall>a\<in>set areas. length a = 20" "length areas < 4294967296"
  shows "e820_bios (list_bios areas) areas of_nat"
proof (unfold_locales, goal_cases)
  case (4 k)
  then show ?case using assms(3) by (simp add: word_unat_eq_iff unat_of_nat32)
next
  case (5 k r m)
  then have "unat (r_ebx r) = k" using assms(3) by (simp add: unat_of_nat32)
  with 5 show ?case by (simp add: list_bios_def Let_def)
qed (use assms in auto)

definition demo_areas :: "u8 list list" where
  "demo_areas = [area 0 0x9fc00, area 0x100000 0x1f00000]"

interpretation demo: e820_bios "list_bios demo_areas" demo_areas of_nat
  by (rule list_bios_e820) (simp_all add: demo_areas_def area_def le_bytes_def)

lemma demo_area_ends: "map area_end demo_areas = [0x9fc00, 0x2000000]"
  by (simp add: demo_areas_def area_def le_bytes_def area_end_def load32_def put_bytes_def upt_rec)

section \<open>Properties\<close>

text \<open>C36: with a firmware that reports at most 12 areas, the probe ends, and the size it stores for the kernel is
  the largest end of an area, ends being compared as signed 32-bit numbers: it is below
  2 GB, whatever the map says, and areas that end above are ignored.  Of the loader only the size, the
  buffer and the count change.\<close>

theorem mem_probe_largest_area:
  assumes "e820_bios int15 areas cont" "length areas \<le> 12" "m ards_nr = 0" "m (ards_nr + 1) = 0"
  shows "\<exists>m'. mem_probe int15 r m = Some (Some m')
    \<and> sint (load32 m' total_mem_bytes) = Max (insert 0 ((\<lambda>a. sint (area_end a)) ` set areas))
    \<and> unat (load32 m' total_mem_bytes) < 0x80000000
    \<and> (\<forall>p. kept p \<and> (unat p < 0xb00 \<or> 0xb04 \<le> unat p \<and> unat p < 0xb0a \<or> 0xc00 \<le> unat p) \<longrightarrow> m' p = m p)"
proof -
  let ?t = "fold smax (map area_end areas) 0"
  obtain m1 where 1: "mem_probe int15 r m = Some (Some (store32 m1 total_mem_bytes ?t))" "e820_mem areas m (length areas) m1"
    using assms by (rule mem_probe_map)
  have t: "sint ?t = Max (insert 0 ((\<lambda>a. sint (area_end a)) ` set areas))"
    by (simp add: sint_fold_smax image_image)
  then have "0 \<le> sint ?t" by simp
  then have "unat ?t < 0x80000000" by (rule sint_nonneg_u32)
  then show ?thesis using 1 t probe_frame [OF assms(1,2) 1(2)] by (intro exI [of _ "store32 m1 total_mem_bytes ?t"]) simp
qed

theorem mem_probe_largest_area_witness:
  "\<exists>m'. mem_probe (list_bios demo_areas) \<lparr>r_eax = 0, r_ebx = 0, r_ecx = 0, r_edx = 0, r_edi = 0\<rparr> (\<lambda>_. 0) = Some (Some m')
     \<and> load32 m' total_mem_bytes = 0x2000000"
proof -
  have "(\<lambda>a. sint (area_end a)) ` set demo_areas = sint ` set (map area_end demo_areas)" by (simp add: image_image)
  then have "Max (insert 0 ((\<lambda>a. sint (area_end a)) ` set demo_areas)) = 0x2000000" by (simp add: demo_area_ends)
  moreover have "length demo_areas \<le> 12" by (simp add: demo_areas_def)
  ultimately obtain m' where "mem_probe (list_bios demo_areas) \<lparr>r_eax = 0, r_ebx = 0, r_ecx = 0, r_edx = 0, r_edi = 0\<rparr> (\<lambda>_. 0) = Some (Some m')"
      "sint (load32 m' total_mem_bytes) = sint (0x2000000 :: u32)"
    using mem_probe_largest_area [OF demo.e820_bios_axioms, of "\<lambda>_. 0"] by auto
  then show ?thesis by (auto simp only: sint_eq_iff)
qed

text \<open>C37: a firmware without the memory map.  If function \<open>0xe801\<close> answers, the size is 1 MB and
  what it reports in units of 1 KB and of 64 KB, cut to 32 bits; if only \<open>0x88\<close> answers, it is 1 MB
  and what that reports in units of 1 KB, without a wrap; if none answers, the loader halts.\<close>

theorem mem_probe_fallbacks:
  assumes "int15 (r\<lparr>r_eax := 0xe820, r_ebx := 0, r_ecx := 20, r_edx := 0x534d4150, r_edi := set_lo16 (r_edi r) (lo16 ards_buf)\<rparr>) m = (True, r1, m1)"
    and "int15 (r1\<lparr>r_eax := set_lo16 (r_eax r1) 0xe801\<rparr>) m1 = (no801, r2, m2)"
    and "int15 (r2\<lparr>r_eax := set_lo16 (r_eax r2) ((lo16 (r_eax r2) AND 0x00ff) OR 0x8800)\<rparr>) m2 = (no88, r3, m3)"
  shows "(\<not> no801 \<longrightarrow> (\<exists>m'. mem_probe int15 r m = Some (Some m')
      \<and> load32 m' total_mem_bytes = of_nat (0x100000 + 1024 * unat (lo16 (r_eax r2)) + 65536 * unat (lo16 (r_ebx r2)))))
    \<and> (no801 \<and> \<not> no88 \<longrightarrow> (\<exists>m'. mem_probe int15 r m = Some (Some m')
      \<and> unat (load32 m' total_mem_bytes) = 0x100000 + 1024 * unat (lo16 (r_eax r3))))
    \<and> (no801 \<and> no88 \<longrightarrow> mem_probe int15 r m = Some None)"
proof -
  let ?r = "r\<lparr>r_ebx := 0, r_edx := 0x534d4150, r_edi := set_lo16 (r_edi r) (lo16 ards_buf)\<rparr>"
  have "e820_mem_get_loop int15 ?r m = Some (False, r1, m1)"
    using assms(1) by (subst e820_mem_get_loop.simps) (cases r, simp)
  then have p: "mem_probe int15 r m = Some (e801_try88 int15 r1 m1)" by (simp add: mem_probe_def)
  have "e801_total r2 = of_nat (0x100000 + 1024 * unat (lo16 (r_eax r2)) + 65536 * unat (lo16 (r_ebx r2)))"
    by (simp add: e801_total_eq)
  then show ?thesis
    using assms(2,3) by (simp add: p e801_try88_def unat_e88_total)
qed

definition demo_regs :: regs where
  "demo_regs = \<lparr>r_eax = 0, r_ebx = 0, r_ecx = 0, r_edx = 0, r_edi = 0\<rparr>"

theorem mem_probe_fallbacks_witness:
  "(\<exists>m'. mem_probe (\<lambda>r m. (lo16 (r_eax r) \<noteq> 0xe801, r\<lparr>r_eax := 0x3c00, r_ebx := 0x100\<rparr>, m)) demo_regs (\<lambda>_. 0) = Some (Some m')
      \<and> load32 m' total_mem_bytes = 0x2000000)
   \<and> mem_probe (\<lambda>r m. (True, r, m)) demo_regs (\<lambda>_. 0) = Some None"
proof
  let ?b = "\<lambda>r m. (lo16 (r_eax r) \<noteq> 0xe801, r\<lparr>r_eax := 0x3c00, r_ebx := 0x100\<rparr>, m)"
  have "lo16 (0xe820) \<noteq> 0xe801" "lo16 0x3c00 = 0x3c00" "lo16 0x100 = 0x100" by (simp_all add: lo16_def)
  then show "\<exists>m'. mem_probe ?b demo_regs (\<lambda>_. 0) = Some (Some m') \<and> load32 m' total_mem_bytes = 0x2000000"
    using mem_probe_fallbacks [of ?b demo_regs "\<lambda>_. 0", OF _ refl refl] by simp
  show "mem_probe (\<lambda>r m. (True, r, m)) demo_regs (\<lambda>_. 0) = Some None"
    using mem_probe_fallbacks [of "\<lambda>r m. (True, r, m)" demo_regs "\<lambda>_. 0", OF refl refl refl] by simp
qed

text \<open>C38: the buffer for the memory map has room for 12 areas, and nothing checks their number: with
  13 areas the last one runs over the count, which is then one more than the upper half of its base, and
  over the first 14 bytes of the code at \<open>loader_start\<close>.\<close>

theorem e820_overruns_loader:
  assumes "e820_bios int15 areas cont" "length areas = 13" "m ards_nr = 0" "m (ards_nr + 1) = 0"
  shows "\<exists>r' m'. e820_mem_get_loop int15 (r\<lparr>r_ebx := 0, r_edx := 0x534d4150, r_edi := set_lo16 (r_edi r) (lo16 ards_buf)\<rparr>) m = Some (True, r', m')
    \<and> load16 m' ards_nr = (ucast (areas ! 12 ! 4) OR push_bit 8 (ucast (areas ! 12 ! 5))) + 1
    \<and> (\<forall>i < 14. m' (loader_start + of_nat i) = areas ! 12 ! (6 + i))"
  using e820_bios.overrun [OF assms(1,2) e820_start [of cont m, OF e820_bios.cont_first [OF assms(1)] assms(3,4)]] .

theorem e820_overruns_loader_witness:
  "\<exists>r' m'. e820_mem_get_loop (list_bios (replicate 13 (area 0x100000 0x1000000)))
      (demo_regs\<lparr>r_ebx := 0, r_edx := 0x534d4150, r_edi := set_lo16 (r_edi demo_regs) (lo16 ards_buf)\<rparr>) (\<lambda>_. 0) = Some (True, r', m')
    \<and> load16 m' ards_nr = 1"
proof -
  let ?as = "replicate 13 (area 0x100000 0x1000000)"
  have l: "length (area 0x100000 0x1000000) = 20" by (simp add: area_def le_bytes_def)
  have B: "e820_bios (list_bios ?as) ?as of_nat" by (rule list_bios_e820) (use l in auto)
  have "?as ! 12 ! 4 = 0" "?as ! 12 ! 5 = 0" by (simp_all add: area_def le_bytes_def nth_append)
  then show ?thesis
    using e820_overruns_loader [OF B length_replicate, of "\<lambda>_. 0" demo_regs] by auto
qed

end
