(* ===== verification/Boot_Loader.thy ===== *)
theory Boot_Loader
  imports Boot_Probe
begin

text \<open>
  The rest of \<open>boot/loader.S\<close>: the segment descriptors, the switches to protected mode and to
  paging, and \<open>kernel_init\<close>, which copies the segments of the kernel's ELF file to their addresses; then
  the loader as a whole, from its first instruction to the jump to \<open>KERNEL_ENTRY_POINT\<close>.
  The control registers the loader touches are a record.  As elsewhere in the development the
  arguments a routine takes on the stack are arguments of its definition, and the code itself is not in memory.
\<close>

section \<open>Segment descriptors\<close>

definition DESC_G_4K :: u32 where "DESC_G_4K = 0x800000"
definition DESC_D_32 :: u32 where "DESC_D_32 = 0x400000"
definition DESC_L :: u32 where "DESC_L = 0"
definition DESC_AVL :: u32 where "DESC_AVL = 0"
definition DESC_LIMIT_CODE2 :: u32 where "DESC_LIMIT_CODE2 = 0xf0000"
definition DESC_LIMIT_DATA2 :: u32 where "DESC_LIMIT_DATA2 = DESC_LIMIT_CODE2"
definition DESC_LIMIT_VIDEO2 :: u32 where "DESC_LIMIT_VIDEO2 = 0"
definition DESC_P :: u32 where "DESC_P = 0x8000"
definition DESC_DPL_0 :: u32 where "DESC_DPL_0 = 0"
definition DESC_S_CODE :: u32 where "DESC_S_CODE = 0x1000"
definition DESC_S_DATA :: u32 where "DESC_S_DATA = DESC_S_CODE"
definition DESC_TYPE_CODE :: u32 where "DESC_TYPE_CODE = 0x800"
definition DESC_TYPE_DATA :: u32 where "DESC_TYPE_DATA = 0x200"

definition DESC_CODE_HIGH4 :: u32 where
  "DESC_CODE_HIGH4 = push_bit 24 0x00 + DESC_G_4K + DESC_D_32 + DESC_L + DESC_AVL + DESC_LIMIT_CODE2 + DESC_P + DESC_DPL_0
     + DESC_S_CODE + DESC_TYPE_CODE + 0x00"

definition DESC_DATA_HIGH4 :: u32 where
  "DESC_DATA_HIGH4 = push_bit 24 0x00 + DESC_G_4K + DESC_D_32 + DESC_L + DESC_AVL + DESC_LIMIT_DATA2 + DESC_P + DESC_DPL_0
     + DESC_S_DATA + DESC_TYPE_DATA + 0x00"

definition DESC_VIDEO_HIGH4 :: u32 where
  "DESC_VIDEO_HIGH4 = push_bit 24 0x00 + DESC_G_4K + DESC_D_32 + DESC_L + DESC_AVL + DESC_LIMIT_VIDEO2 + DESC_P + DESC_DPL_0
     + DESC_S_DATA + DESC_TYPE_DATA + 0x0b"

definition gdt_words :: "u32 list" where
  "gdt_words = [0x00000000, 0x00000000, 0x0000FFFF, DESC_CODE_HIGH4, 0x0000FFFF, DESC_DATA_HIGH4, 0x80000007, DESC_VIDEO_HIGH4]"

definition GDT_LIMIT :: u16 where "GDT_LIMIT = ucast (GDT_SIZE - 1)"

definition SELECTOR_CODE :: u16 where "SELECTOR_CODE = push_bit 3 0x0001 + 0 + 0"
definition SELECTOR_DATA :: u16 where "SELECTOR_DATA = push_bit 3 0x0002 + 0 + 0"
definition SELECTOR_VIDEO :: u16 where "SELECTOR_VIDEO = push_bit 3 0x0003 + 0 + 0"

lemmas desc_defs = DESC_G_4K_def DESC_D_32_def DESC_L_def DESC_AVL_def DESC_LIMIT_CODE2_def DESC_LIMIT_DATA2_def
  DESC_LIMIT_VIDEO2_def DESC_P_def DESC_DPL_0_def DESC_S_CODE_def DESC_S_DATA_def DESC_TYPE_CODE_def DESC_TYPE_DATA_def
  DESC_CODE_HIGH4_def DESC_DATA_HIGH4_def DESC_VIDEO_HIGH4_def

text \<open>How the processor reads a descriptor.\<close>

definition seg_base :: "u32 \<Rightarrow> u32 \<Rightarrow> u32" where
  "seg_base lo hi = drop_bit 16 lo OR push_bit 16 (hi AND 0xff) OR (hi AND 0xff000000)"

definition seg_limit :: "u32 \<Rightarrow> u32 \<Rightarrow> u32" where
  "seg_limit lo hi = (let l = (lo AND 0xffff) OR (hi AND 0xf0000) in if bit hi 23 then push_bit 12 l OR 0xfff else l)"

section \<open>Entering protected mode\<close>

record cpu =
  port92 :: u8
  cr0 :: u32
  cr3 :: u32
  gdtr_limit :: u16
  gdtr_base :: u32
  seg_cs :: u16
  seg_ds :: u16
  seg_es :: u16
  seg_ss :: u16
  seg_gs :: u16
  esp :: u32

text \<open>\<open>lgdt\<close> in 16-bit code takes 24 bits of the base.\<close>

definition enter_protected :: "mem \<Rightarrow> cpu \<Rightarrow> cpu" where
  "enter_protected m c =
     (let c = c\<lparr>port92 := port92 c OR 0b10\<rparr>;
          c = c\<lparr>gdtr_limit := load16 m gdt_ptr, gdtr_base := load32 m (gdt_ptr + 2) AND 0x00ffffff\<rparr>;
          c = c\<lparr>cr0 := cr0 c OR 0x00000001\<rparr>
      in c\<lparr>seg_cs := SELECTOR_CODE\<rparr>)"

section \<open>Copying the kernel\<close>

text \<open>Loads through the page walk, byte by byte.\<close>

definition vload16 :: "mem \<Rightarrow> u32 \<Rightarrow> u16 result" where
  "vload16 m v = rbind (vread8 m v) (\<lambda>a. rbind (vread8 m (v + 1)) (\<lambda>b. Inr (ucast a OR push_bit 8 (ucast b))))"

definition vload32 :: "mem \<Rightarrow> u32 \<Rightarrow> u32 result" where
  "vload32 m v = rbind (vread8 m v) (\<lambda>a. rbind (vread8 m (v + 1)) (\<lambda>b. rbind (vread8 m (v + 2)) (\<lambda>c. rbind (vread8 m (v + 3)) (\<lambda>d.
     Inr (ucast a OR push_bit 8 (ucast b) OR push_bit 16 (ucast c) OR push_bit 24 (ucast d))))))"

function rep_movsb :: "u32 \<Rightarrow> u32 \<Rightarrow> u32 \<Rightarrow> mem \<Rightarrow> mem result" where
  "rep_movsb edi esi ecx m =
     (if ecx = 0 then Inr m
      else rbind (vread8 m esi) (\<lambda>b. rbind (vwrite8 m edi b) (\<lambda>m. rep_movsb (edi + 1) (esi + 1) (ecx - 1) m)))"
  by pat_completeness auto
termination
  by (relation "measure (\<lambda>(edi, esi, ecx, m). unat ecx)") (auto intro: unat_pred_less)

definition mem_cpy :: "u32 \<Rightarrow> u32 \<Rightarrow> u32 \<Rightarrow> mem \<Rightarrow> mem result" where
  "mem_cpy dst src sz m = rep_movsb dst src sz m"

definition PT_NULL :: u8 where "PT_NULL = 0"

function each_segment :: "u32 \<Rightarrow> u32 \<Rightarrow> u32 \<Rightarrow> mem \<Rightarrow> mem result" where
  "each_segment ecx ebx edx m =
     rbind (vread8 m (ebx + 0)) (\<lambda>p_type.
     rbind (if p_type = PT_NULL then Inr m
            else rbind (vload32 m (ebx + 16)) (\<lambda>sz.
                 rbind (vload32 m (ebx + 4)) (\<lambda>eax.
                 let eax = eax + KERNEL_BIN_BASE_ADDR in
                 rbind (vload32 m (ebx + 8)) (\<lambda>dst. mem_cpy dst eax sz m)))) (\<lambda>m.
     let ebx = ebx + edx; ecx = ecx - 1
     in if ecx \<noteq> 0 then each_segment ecx ebx edx m else Inr m))"
  by pat_completeness auto
termination
  by (relation "measure (\<lambda>(ecx, ebx, edx, m). unat (ecx - 1))") (auto intro: loop_measure)

declare rep_movsb.simps [simp del] each_segment.simps [simp del]

definition kernel_init :: "mem \<Rightarrow> mem result" where
  "kernel_init m =
     rbind (vload16 m (KERNEL_BIN_BASE_ADDR + 42)) (\<lambda>dx.
     rbind (vload32 m (KERNEL_BIN_BASE_ADDR + 28)) (\<lambda>ebx.
     let ebx = ebx + KERNEL_BIN_BASE_ADDR in
     rbind (vload16 m (KERNEL_BIN_BASE_ADDR + 44)) (\<lambda>cx.
     each_segment (ucast cx) ebx (ucast dx) m)))"

section \<open>The loader\<close>

definition KERNEL_ENTRY_POINT :: u32 where "KERNEL_ENTRY_POINT = 0xc0001500"
definition LOADER_STACK_TOP :: u32 where "LOADER_STACK_TOP = LOADER_BASE_ADDR"

datatype 'd boot_outcome =
    Error_hlt
  | Boot_fault fault
  | Kernel_entry u32 cpu mem 'd

text \<open>From \<open>sgdt\<close> to the new \<open>lgdt\<close>: the base of the video segment and of the table move to 3 GB, then paging is on.\<close>

definition enter_paging :: "mem \<Rightarrow> cpu \<Rightarrow> (mem \<times> cpu) result" where
  "enter_paging m c =
     (let m = store32 (store16 m gdt_ptr (gdtr_limit c)) (gdt_ptr + 2) (gdtr_base c);
          ebx = load32 m (gdt_ptr + 2);
          m = store32 m (ebx + 0x18 + 4) (load32 m (ebx + 0x18 + 4) OR 0xc0000000);
          m = store32 m (gdt_ptr + 2) (load32 m (gdt_ptr + 2) + 0xc0000000);
          c = c\<lparr>esp := esp c + 0xc0000000\<rparr>;
          c = c\<lparr>cr3 := PAGE_DIR_TABLE_POS\<rparr>;
          c = c\<lparr>cr0 := cr0 c OR 0x80000000\<rparr>
      in rbind (vload16 m gdt_ptr) (\<lambda>limit.
         rbind (vload32 m (gdt_ptr + 2)) (\<lambda>base.
         Inr (m, c\<lparr>gdtr_limit := limit, gdtr_base := base, seg_cs := SELECTOR_CODE\<rparr>))))"

definition p_mode_start :: "'d ata_io \<Rightarrow> cpu \<Rightarrow> mem \<Rightarrow> 'd \<Rightarrow> 'd boot_outcome option" where
  "p_mode_start io c m d =
     do { let c = c\<lparr>seg_ds := SELECTOR_DATA, seg_es := SELECTOR_DATA, seg_ss := SELECTOR_DATA, esp := LOADER_STACK_TOP,
            seg_gs := SELECTOR_VIDEO\<rparr>;
          (m, d) \<leftarrow> rd_disk_m_32 io KERNEL_START_SECTOR KERNEL_BIN_BASE_ADDR 200 m d;
          let m = setup_page m;
          Some (case enter_paging m c of
              Inl e \<Rightarrow> Boot_fault e
            | Inr (m, c) \<Rightarrow> (case kernel_init m of
                Inl e \<Rightarrow> Boot_fault e
              | Inr m \<Rightarrow> Kernel_entry KERNEL_ENTRY_POINT (c\<lparr>esp := 0xc009f000\<rparr>) m d)) }"

definition loader :: "bios \<Rightarrow> 'd ata_io \<Rightarrow> regs \<Rightarrow> cpu \<Rightarrow> mem \<Rightarrow> 'd \<Rightarrow> 'd boot_outcome option" where
  "loader int15 io r c m d =
     do { probed \<leftarrow> mem_probe int15 r m;
          (case probed of
             None \<Rightarrow> Some Error_hlt
           | Some m \<Rightarrow> p_mode_start io (enter_protected m c) m d) }"

section \<open>Reading and writing under the boot mapping\<close>

lemma low_identity:
  assumes "kernel_mapped m" "unat v < 0x100000"
  shows "translate m v = Some v"
proof -
  let ?x = "unat v"
  have "v = va 0 (?x div 4096) (?x mod 4096)" by (simp add: va_def flip: of_nat_mult of_nat_add)
  moreover have "?x div 4096 < 256" using assms(2) by simp
  ultimately show ?thesis using low_translate [OF assms(1), of 0 "?x div 4096" "?x mod 4096"]
    by (simp add: mult.commute add.commute flip: of_nat_mult of_nat_add)
qed

lemma vread8_low_id: "kernel_mapped m \<Longrightarrow> unat v < 0x100000 \<Longrightarrow> vread8 m v = Inr (m v)"
  by (simp add: vread8_def low_identity)

lemma vload16_low_id: "kernel_mapped m \<Longrightarrow> unat v + 2 \<le> 0x100000 \<Longrightarrow> vload16 m v = Inr (load16 m v)"
  using unat_add_no_wrap [of v 1] by (simp add: vload16_def vread8_low_id load16_def)

lemma vload32_low_id: "kernel_mapped m \<Longrightarrow> unat v + 4 \<le> 0x100000 \<Longrightarrow> vload32 m v = Inr (load32 m v)"
  using unat_add_no_wrap [of v 1] unat_add_no_wrap [of v 2] unat_add_no_wrap [of v 3]
  by (simp add: vload32_def vread8_low_id load32_def)

lemma vwrite8_high:
  assumes "kernel_mapped m" "unat (v - 0xc0000000) < 0x100000"
  shows "vwrite8 m v b = Inr (m(v - 0xc0000000 := b))" "kernel_mapped (m(v - 0xc0000000 := b))"
proof -
  show "vwrite8 m v b = Inr (m(v - 0xc0000000 := b))"
    using low_kernel_translate(1) [OF assms(1) in_low_kernel [OF assms(2)]] by (simp add: vwrite8_def)
  show "kernel_mapped (m(v - 0xc0000000 := b))" by (rule kernel_mapped_cong [OF _ assms(1)]) (use assms(2) in auto)
qed

text \<open>\<open>copied m0 m d s n\<close>: memory \<open>m\<close> with \<open>n\<close> bytes of \<open>m0\<close>, from \<open>s\<close> on, at \<open>d\<close>.\<close>

definition copied :: "mem \<Rightarrow> mem \<Rightarrow> u32 \<Rightarrow> u32 \<Rightarrow> nat \<Rightarrow> mem" where
  "copied m0 m d s n = (\<lambda>p. if unat (p - d) < n then m0 (s + (p - d)) else m p)"

lemma copied_outside:
  "unat d + n \<le> 4294967296 \<Longrightarrow> unat p < unat d \<or> unat d + n \<le> unat p \<Longrightarrow> copied m0 m d s n p = m p"
  by (auto simp: copied_def unat_diff_less_iff)

lemma copied_Suc:
  assumes "unat d + Suc n \<le> 4294967296" "unat s + Suc n \<le> 4294967296" "unat d + Suc n \<le> unat s \<or> unat s + Suc n \<le> unat d"
  shows "copied (m(d := m s)) (m(d := m s)) (d + 1) (s + 1) n = copied m m d s (Suc n)"
proof
  fix p
  let ?k = "unat (p - d)"
  show "copied (m(d := m s)) (m(d := m s)) (d + 1) (s + 1) n p = copied m m d s (Suc n) p"
  proof (cases "p = d")
    case True
    have "unat (- 1 :: u32) = 4294967295" by (simp add: unsigned_minus_1_eq_mask mask_eq_exp_minus_1)
    with True assms(1) show ?thesis by (simp add: copied_def)
  next
    case False
    then have k: "unat (p - (d + 1)) = ?k - 1" "0 < ?k" using unat_pred [of "p - d"] by (simp_all add: algebra_simps unat_gt_0)
    have "s + (p - d) \<noteq> d" if "?k < Suc n"
    proof -
      have "unat (s + (p - d)) = unat s + ?k" using that assms(2) unat_add_no_wrap [of s ?k] by simp
      then show ?thesis using that assms(3) by (intro unat_neqI) auto
    qed
    with False k show ?thesis by (auto simp: copied_def algebra_simps)
  qed
qed

lemma rep_movsb_copies:
  assumes "kernel_mapped m" "unat (edi - 0xc0000000) + n \<le> 0x100000" "unat esi + n \<le> 0x100000" "unat ecx = n"
    "unat (edi - 0xc0000000) + n \<le> unat esi \<or> unat esi + n \<le> unat (edi - 0xc0000000)"
  shows "rep_movsb edi esi ecx m = Inr (copied m m (edi - 0xc0000000) esi n)"
  using assms
proof (induction n arbitrary: edi esi ecx m)
  case 0
  then have "ecx = 0" by (simp add: unat_eq_0)
  then show ?case by (subst rep_movsb.simps) (simp add: copied_def)
next
  case (Suc n)
  let ?d = "edi - 0xc0000000" and ?m = "m(edi - 0xc0000000 := m esi)"
  have e: "ecx \<noteq> 0" using Suc.prems(4) by auto
  then have "unat (ecx - 1) = n" using Suc.prems(4) by (simp add: unat_pred)
  note e = e this
  have d: "unat (edi + 1 - 0xc0000000) = unat ?d + 1" "unat (esi + 1) = unat esi + 1"
    using unat_add_no_wrap [of ?d 1] unat_add_no_wrap [of esi 1] Suc.prems(2,3) by (simp_all add: algebra_simps)
  have "rep_movsb edi esi ecx m = rep_movsb (edi + 1) (esi + 1) (ecx - 1) ?m"
    using e Suc.prems by (subst rep_movsb.simps) (simp add: vread8_low_id vwrite8_high)
  also have "\<dots> = Inr (copied ?m ?m (edi + 1 - 0xc0000000) (esi + 1) n)"
    using Suc.prems d e by (intro Suc.IH vwrite8_high(2)) auto
  also have "copied ?m ?m (edi + 1 - 0xc0000000) (esi + 1) n = copied m m ?d esi (Suc n)"
    using copied_Suc [of ?d n esi m] Suc.prems by (simp add: algebra_simps)
  finally show ?case .
qed

section \<open>The program headers\<close>

record phdr =
  p_type :: u8
  p_offset :: u32
  p_vaddr :: u32
  p_filesz :: u32

definition phdr_at :: "mem \<Rightarrow> u32 \<Rightarrow> phdr" where
  "phdr_at m a = \<lparr>p_type = m a, p_offset = load32 m (a + 4), p_vaddr = load32 m (a + 8), p_filesz = load32 m (a + 16)\<rparr>"

definition e_phnum :: "mem \<Rightarrow> nat" where
  "e_phnum m = unat (load16 m (KERNEL_BIN_BASE_ADDR + 44))"

definition phdr_addr :: "mem \<Rightarrow> nat \<Rightarrow> u32" where
  "phdr_addr m i = load32 m (KERNEL_BIN_BASE_ADDR + 28) + KERNEL_BIN_BASE_ADDR + of_nat i * ucast (load16 m (KERNEL_BIN_BASE_ADDR + 42))"

definition phdrs :: "mem \<Rightarrow> phdr list" where
  "phdrs m = map (\<lambda>i. phdr_at m (phdr_addr m i)) [0..<e_phnum m]"

text \<open>The physical address of a segment, and a file whose headers and segments lie in the 200 sectors that
  are read and whose segments go between \<open>0xc0001000\<close>, where the link command of the makefile puts the first page of the kernel
  (the entry point is at \<open>0xc0001500\<close>), and the file.  A segment without bytes in the file, as the last one
  of \<open>build/kernel.bin\<close>, which describes the stack, copies nothing wherever it points.\<close>

definition seg_target :: "phdr \<Rightarrow> u32" where
  "seg_target h = p_vaddr h - 0xc0000000"

definition seg_ok :: "phdr \<Rightarrow> bool" where
  "seg_ok h \<longleftrightarrow> p_filesz h = 0 \<or> 0x1000 \<le> unat (seg_target h) \<and> unat (seg_target h) + unat (p_filesz h) \<le> 0x70000
     \<and> 0x70000 \<le> unat (p_offset h + KERNEL_BIN_BASE_ADDR) \<and> unat (p_offset h + KERNEL_BIN_BASE_ADDR) + unat (p_filesz h) \<le> 0x89000"

definition hdr_ok :: "u32 \<Rightarrow> bool" where
  "hdr_ok a \<longleftrightarrow> 0x70000 \<le> unat a \<and> unat a + 20 \<le> 0x89000"

definition elf_ok :: "mem \<Rightarrow> bool" where
  "elf_ok m \<longleftrightarrow> e_phnum m \<noteq> 0 \<and> (\<forall>i < e_phnum m. hdr_ok (phdr_addr m i))
     \<and> (\<forall>h \<in> set (phdrs m). p_type h = PT_NULL \<or> seg_ok h)"

definition load_segment :: "mem \<Rightarrow> phdr \<Rightarrow> mem \<Rightarrow> mem" where
  "load_segment m0 h m = (if p_type h = PT_NULL then m
     else copied m0 m (seg_target h) (p_offset h + KERNEL_BIN_BASE_ADDR) (unat (p_filesz h)))"

definition image_same :: "mem \<Rightarrow> mem \<Rightarrow> bool" where
  "image_same m0 m \<longleftrightarrow> (\<forall>p. 0x70000 \<le> unat p \<and> unat p < 0x89000 \<longrightarrow> m p = m0 p)"

lemma load_segment_other:
  assumes "p_type h = PT_NULL \<or> seg_ok h" "unat p < 0x1000 \<or> 0x70000 \<le> unat p"
  shows "load_segment m0 h m p = m p"
proof (cases "p_type h = PT_NULL \<or> p_filesz h = 0")
  case True
  then show ?thesis by (auto simp: load_segment_def copied_def)
next
  case False
  with assms show ?thesis by (auto simp: load_segment_def seg_ok_def intro!: copied_outside)
qed

lemma fold_load_other:
  assumes "\<forall>h \<in> set hs. p_type h = PT_NULL \<or> seg_ok h" "unat p < 0x1000 \<or> 0x70000 \<le> unat p"
  shows "fold (load_segment m0) hs m p = m p"
  using assms(1)
proof (induction hs arbitrary: m)
  case (Cons h hs)
  then show ?case using load_segment_other [OF _ assms(2), of h m0 m] by simp
qed simp

lemma load32_image: "image_same m0 m \<Longrightarrow> 0x70000 \<le> unat a \<Longrightarrow> unat a + 4 \<le> 0x89000 \<Longrightarrow> load32 m a = load32 m0 a"
  by (rule load32_bytes) (simp_all add: image_same_def)

lemma load16_image: "image_same m0 m \<Longrightarrow> 0x70000 \<le> unat a \<Longrightarrow> unat a + 2 \<le> 0x89000 \<Longrightarrow> load16 m a = load16 m0 a"
  by (rule load16_bytes) (simp_all add: image_same_def)

lemma hdr_fields:
  assumes "hdr_ok a"
  shows "unat (a + 4) = unat a + 4" "unat (a + 8) = unat a + 8" "unat (a + 16) = unat a + 16"
  using assms unat_add_no_wrap [of a 4] unat_add_no_wrap [of a 8] unat_add_no_wrap [of a 16] by (simp_all add: hdr_ok_def)

lemma segment_step:
  assumes "kernel_mapped m" "image_same m0 m" "hdr_ok a" "p_type (phdr_at m0 a) = PT_NULL \<or> seg_ok (phdr_at m0 a)"
  shows "each_segment ecx a edx m = (let m' = load_segment m0 (phdr_at m0 a) m in
      if ecx - 1 \<noteq> 0 then each_segment (ecx - 1) (a + edx) edx m' else Inr m')"
    "kernel_mapped (load_segment m0 (phdr_at m0 a) m)" "image_same m0 (load_segment m0 (phdr_at m0 a) m)"
proof -
  let ?h = "phdr_at m0 a"
  note o = load_segment_other [OF assms(4)]
  show "kernel_mapped (load_segment m0 ?h m)" by (rule kernel_mapped_cong [OF _ assms(1)]) (simp add: o)
  show "image_same m0 (load_segment m0 ?h m)" using assms(2) o by (simp add: image_same_def)
  have f: "vread8 m a = Inr (p_type ?h)" "vload32 m (a + 16) = Inr (p_filesz ?h)" "vload32 m (a + 4) = Inr (p_offset ?h)"
    "vload32 m (a + 8) = Inr (p_vaddr ?h)"
    using assms(1-3) hdr_fields [OF assms(3)] load32_image [OF assms(2)]
    by (simp_all add: phdr_at_def hdr_ok_def vread8_low_id vload32_low_id image_same_def)
  have "mem_cpy (p_vaddr ?h) (p_offset ?h + KERNEL_BIN_BASE_ADDR) (p_filesz ?h) m = Inr (load_segment m0 ?h m)" if n: "p_type ?h \<noteq> PT_NULL"
  proof (cases "p_filesz ?h = 0")
    case True
    then show ?thesis unfolding mem_cpy_def by (subst rep_movsb.simps) (simp add: load_segment_def copied_def)
  next
    case False
    then have s: "seg_ok ?h" "p_filesz ?h \<noteq> 0" using assms(4) n by simp_all
    have "copied m m (seg_target ?h) (p_offset ?h + KERNEL_BIN_BASE_ADDR) (unat (p_filesz ?h)) = load_segment m0 ?h m"
    proof
      fix p
      have "m (p_offset ?h + KERNEL_BIN_BASE_ADDR + (p - seg_target ?h)) = m0 (p_offset ?h + KERNEL_BIN_BASE_ADDR + (p - seg_target ?h))"
        if "unat (p - seg_target ?h) < unat (p_filesz ?h)"
        using s that assms(2) unat_add_no_wrap [of "p_offset ?h + KERNEL_BIN_BASE_ADDR" "unat (p - seg_target ?h)"]
        by (simp add: seg_ok_def image_same_def)
      then show "copied m m (seg_target ?h) (p_offset ?h + KERNEL_BIN_BASE_ADDR) (unat (p_filesz ?h)) p = load_segment m0 ?h m p"
        using n by (simp add: load_segment_def copied_def)
    qed
    moreover have "mem_cpy (p_vaddr ?h) (p_offset ?h + KERNEL_BIN_BASE_ADDR) (p_filesz ?h) m
        = Inr (copied m m (seg_target ?h) (p_offset ?h + KERNEL_BIN_BASE_ADDR) (unat (p_filesz ?h)))"
      unfolding mem_cpy_def seg_target_def by (rule rep_movsb_copies [OF assms(1)]) (use s in \<open>auto simp: seg_ok_def seg_target_def\<close>)
    ultimately show ?thesis by simp
  qed
  then show "each_segment ecx a edx m = (let m' = load_segment m0 ?h m in
      if ecx - 1 \<noteq> 0 then each_segment (ecx - 1) (a + edx) edx m' else Inr m')"
    by (subst each_segment.simps) (auto simp: f Let_def load_segment_def)
qed

lemma each_segment_all:
  assumes "kernel_mapped m" "image_same m0 m" "hs \<noteq> []" "unat ecx = length hs"
    "\<And>i. i < length hs \<Longrightarrow> hdr_ok (a + of_nat i * edx) \<and> hs ! i = phdr_at m0 (a + of_nat i * edx)"
    "\<forall>h \<in> set hs. p_type h = PT_NULL \<or> seg_ok h"
  shows "each_segment ecx a edx m = Inr (fold (load_segment m0) hs m)"
  using assms
proof (induction hs arbitrary: ecx a m)
  case (Cons h hs)
  have h: "hdr_ok a" "h = phdr_at m0 a" using Cons.prems(5) [of 0] by simp_all
  have "p_type (phdr_at m0 a) = PT_NULL \<or> seg_ok (phdr_at m0 a)" using Cons.prems(6) h(2) by simp
  note st = segment_step [OF Cons.prems(1,2) h(1) this]
  have "ecx \<noteq> 0" using Cons.prems(4) by auto
  then have e: "unat (ecx - 1) = length hs" using Cons.prems(4) by (simp add: unat_pred)
  then have z: "ecx - 1 \<noteq> 0 \<longleftrightarrow> hs \<noteq> []" by (metis length_0_conv unat_eq_0)
  show ?case
  proof (cases "hs = []")
    case True
    then show ?thesis using st(1) z h(2) by (simp add: Let_def)
  next
    case False
    have "hdr_ok (a + edx + of_nat i * edx) \<and> hs ! i = phdr_at m0 (a + edx + of_nat i * edx)" if "i < length hs" for i
      using Cons.prems(5) [of "Suc i"] that by (simp add: algebra_simps)
    then have "each_segment (ecx - 1) (a + edx) edx (load_segment m0 h m) = Inr (fold (load_segment m0) hs (load_segment m0 h m))"
      using Cons.prems(6) st(2,3) False e h(2) by (intro Cons.IH) auto
    then show ?thesis using st(1) z False h(2) by (simp add: Let_def)
  qed
qed simp

lemma kernel_init_fold:
  assumes "kernel_mapped m" "elf_ok m"
  shows "kernel_init m = Inr (fold (load_segment m) (phdrs m) m)"
proof -
  let ?dx = "ucast (load16 m (KERNEL_BIN_BASE_ADDR + 42)) :: u32" and ?cx = "ucast (load16 m (KERNEL_BIN_BASE_ADDR + 44)) :: u32"
  have "unat (load16 m (KERNEL_BIN_BASE_ADDR + 44)) < 65536" using unsigned_less [of "load16 m (KERNEL_BIN_BASE_ADDR + 44)"] by simp
  then have "unat ?cx = length (phdrs m)" by (simp add: phdrs_def e_phnum_def unat_ucast_mod)
  moreover have "phdrs m \<noteq> []" using assms(2) by (simp add: elf_ok_def phdrs_def)
  moreover have "hdr_ok (load32 m (KERNEL_BIN_BASE_ADDR + 28) + KERNEL_BIN_BASE_ADDR + of_nat i * ?dx)
      \<and> phdrs m ! i = phdr_at m (load32 m (KERNEL_BIN_BASE_ADDR + 28) + KERNEL_BIN_BASE_ADDR + of_nat i * ?dx)" if "i < length (phdrs m)" for i
    using that assms(2) by (simp add: elf_ok_def phdrs_def phdr_addr_def)
  moreover have "\<forall>h \<in> set (phdrs m). p_type h = PT_NULL \<or> seg_ok h" using assms(2) by (simp add: elf_ok_def)
  ultimately have "each_segment ?cx (load32 m (KERNEL_BIN_BASE_ADDR + 28) + KERNEL_BIN_BASE_ADDR) ?dx m = Inr (fold (load_segment m) (phdrs m) m)"
    by (intro each_segment_all [OF assms(1)]) (simp_all add: image_same_def)
  then show ?thesis
    using assms(1) by (simp add: kernel_init_def KERNEL_BIN_BASE_ADDR_def vload16_low_id vload32_low_id Let_def)
qed

text \<open>The bytes of a segment that no later segment covers.\<close>

definition covers :: "phdr \<Rightarrow> u32 \<Rightarrow> bool" where
  "covers h p \<longleftrightarrow> p_type h \<noteq> PT_NULL \<and> unat (p - seg_target h) < unat (p_filesz h)"

lemma fold_load_uncovered: "\<forall>h \<in> set hs. \<not> covers h p \<Longrightarrow> fold (load_segment m0) hs m p = m p"
  by (induction hs arbitrary: m) (auto simp: load_segment_def covers_def copied_def)

lemma fold_load_last:
  assumes "i < length hs" "covers (hs ! i) p" "\<And>j. i < j \<Longrightarrow> j < length hs \<Longrightarrow> \<not> covers (hs ! j) p"
  shows "fold (load_segment m0) hs m p = m0 (p_offset (hs ! i) + KERNEL_BIN_BASE_ADDR + (p - seg_target (hs ! i)))"
proof -
  have "\<forall>h \<in> set (drop (Suc i) hs). \<not> covers h p"
    using assms(3) by (auto simp: in_set_conv_nth)
  moreover have "fold (load_segment m0) hs m = fold (load_segment m0) (drop (Suc i) hs) (load_segment m0 (hs ! i) (fold (load_segment m0) (take i hs) m))"
    using assms(1) by (metis comp_apply fold_append fold_simps(2) id_take_nth_drop)
  ultimately show ?thesis using assms(2) by (simp add: fold_load_uncovered load_segment_def covers_def copied_def)
qed

section \<open>Descriptors in use\<close>

lemma gdt_values: "gdt_words = [0, 0, 0xffff, 0xcf9800, 0xffff, 0xcf9200, 0x80000007, 0xc0920b]"
  by (simp add: gdt_words_def desc_defs)

text \<open>The move of the table to 3 GB.\<close>

lemma enter_paging_moves:
  assumes K: "kernel_mapped m" and c: "gdtr_limit c = GDT_LIMIT" "gdtr_base c = GDT_BASE"
  obtains m' where "enter_paging m c = Inr (m', c\<lparr>esp := esp c + 0xc0000000, cr3 := PAGE_DIR_TABLE_POS, cr0 := cr0 c OR 0x80000000,
        gdtr_limit := GDT_LIMIT, gdtr_base := 0xc0000900, seg_cs := SELECTOR_CODE\<rparr>)"
    "load32 m' 0x91c = load32 m 0x91c OR 0xc0000000"
    "\<And>p. unat p < 0x91c \<or> 0x920 \<le> unat p \<and> unat p < 0xb04 \<or> 0xb0a \<le> unat p \<Longrightarrow> m' p = m p"
proof -
  have a: "gdt_ptr = 0xb04" "gdt_ptr + 2 = 0xb06" "GDT_BASE = 0x900" by (simp_all add: loader_layout)
  define m1 where "m1 = store32 (store16 m 0xb04 GDT_LIMIT) 0xb06 0x900"
  define m2 where "m2 = store32 m1 0x91c (load32 m1 0x91c OR 0xc0000000)"
  define m3 where "m3 = store32 m2 0xb06 0xc0000900"
  have f: "m1 p = m p" if "unat p < 0xb04 \<or> 0xb0a \<le> unat p" for p
    unfolding m1_def using that by (subst store32_get(2)) (auto intro!: store16_get)
  have f3: "m3 p = m2 p" if "unat p < 0xb06 \<or> 0xb0a \<le> unat p" for p
    unfolding m3_def using that by (intro store32_get(2)) auto
  have f2: "m2 p = m1 p" if "unat p < 0x91c \<or> 0x920 \<le> unat p" for p
    unfolding m2_def using that by (intro store32_get(2)) auto
  have frame: "m3 p = m p" if "unat p < 0x91c \<or> 0x920 \<le> unat p \<and> unat p < 0xb04 \<or> 0xb0a \<le> unat p" for p
    using that f [of p] f2 [of p] f3 [of p] by auto
  have l1: "load32 m1 0xb06 = 0x900" by (simp add: m1_def)
  have l2: "load32 m2 0xb06 = load32 m1 0xb06" by (rule load32_bytes) (auto intro: f2)
  have K3: "kernel_mapped m3" by (rule kernel_mapped_cong [OF _ K]) (simp add: frame)
  have "load16 m3 0xb04 = load16 m1 0xb04" by (rule load16_bytes) (auto simp: f2 f3)
  also have "\<dots> = load16 (store16 m 0xb04 GDT_LIMIT) 0xb04"
    unfolding m1_def by (rule load16_bytes) (auto intro!: store32_get(2))
  finally have lim: "vload16 m3 0xb04 = Inr GDT_LIMIT" using K3 by (simp add: vload16_low_id)
  have base: "vload32 m3 0xb06 = Inr 0xc0000900" using vload32_low_id [OF K3, of "0xb06"] by (simp add: m3_def)
  have "load32 m3 0x91c = load32 m2 0x91c" by (rule load32_bytes) (auto intro: f3)
  also have "\<dots> = load32 m1 0x91c OR 0xc0000000" by (simp add: m2_def)
  also have "load32 m1 0x91c = load32 m 0x91c" by (rule load32_bytes) (auto intro: f)
  finally have "load32 m3 0x91c = load32 m 0x91c OR 0xc0000000" .
  moreover have "enter_paging m c = Inr (m3, c\<lparr>esp := esp c + 0xc0000000, cr3 := PAGE_DIR_TABLE_POS, cr0 := cr0 c OR 0x80000000,
        gdtr_limit := GDT_LIMIT, gdtr_base := 0xc0000900, seg_cs := SELECTOR_CODE\<rparr>)"
    unfolding enter_paging_def Let_def a c m1_def [symmetric]
    using lim base l1 l2 by (simp add: m1_def [symmetric] m2_def [symmetric] m3_def [symmetric])
  ultimately show thesis using frame by (intro that)
qed

text \<open>What the loader knows of the kernel's file is in its image.\<close>

lemma image_elf:
  assumes "image_same m0 m" "elf_ok m0"
  shows "elf_ok m" "phdrs m = phdrs m0"
proof -
  note l = load16_image [OF assms(1)] load32_image [OF assms(1)]
  have n: "e_phnum m = e_phnum m0" and a: "phdr_addr m = phdr_addr m0"
    by (auto simp: e_phnum_def phdr_addr_def KERNEL_BIN_BASE_ADDR_def l)
  have "phdr_at m a = phdr_at m0 a" if "hdr_ok a" for a
    using that hdr_fields [OF that] assms(1) by (simp add: phdr_at_def hdr_ok_def l image_same_def)
  then show h: "phdrs m = phdrs m0" using assms(2) by (simp add: phdrs_def n a elf_ok_def)
  show "elf_ok m" using assms(2) by (simp add: elf_ok_def n a h)
qed

section \<open>The loader as a whole\<close>

definition kernel_file :: "(nat \<Rightarrow> u8) \<Rightarrow> mem" where
  "kernel_file disk = disk_copy disk (\<lambda>_. 0) KERNEL_BIN_BASE_ADDR (512 * 9) (512 * 200)"

definition segments_loaded :: "mem \<Rightarrow> mem \<Rightarrow> bool" where
  "segments_loaded file m \<longleftrightarrow>
     (\<forall>i < length (phdrs file). \<forall>p. covers (phdrs file ! i) p \<and> (\<forall>j. i < j \<and> j < length (phdrs file) \<longrightarrow> \<not> covers (phdrs file ! j) p)
        \<longrightarrow> m p = file (p_offset (phdrs file ! i) + KERNEL_BIN_BASE_ADDR + (p - seg_target (phdrs file ! i))))"

lemma kernel_init_image:
  assumes "kernel_mapped m" "image_same file m" "elf_ok file"
  obtains m' where "kernel_init m = Inr m'" "kernel_mapped m'" "segments_loaded file m'"
    "\<And>p. unat p < 0x1000 \<or> 0x70000 \<le> unat p \<Longrightarrow> m' p = m p" "\<And>p. \<forall>h \<in> set (phdrs file). \<not> covers h p \<Longrightarrow> m' p = m p"
proof -
  let ?hs = "phdrs file" and ?m = "fold (load_segment m) (phdrs file) m"
  note e = image_elf [OF assms(2,3)]
  have ok: "\<forall>h \<in> set ?hs. p_type h = PT_NULL \<or> seg_ok h" using assms(3) by (simp add: elf_ok_def)
  note other = fold_load_other [OF ok]
  have "kernel_mapped ?m" by (rule kernel_mapped_cong [OF _ assms(1)]) (simp add: other)
  moreover have "kernel_init m = Inr ?m" using kernel_init_fold [OF assms(1) e(1)] by (simp add: e(2))
  moreover have "segments_loaded file ?m"
    unfolding segments_loaded_def
  proof (intro allI impI, elim conjE)
    fix i p assume i: "i < length ?hs" and c: "covers (?hs ! i) p" "\<forall>j. i < j \<and> j < length ?hs \<longrightarrow> \<not> covers (?hs ! j) p"
    let ?q = "p_offset (?hs ! i) + KERNEL_BIN_BASE_ADDR + (p - seg_target (?hs ! i))"
    have s: "seg_ok (?hs ! i)" "unat (p - seg_target (?hs ! i)) < unat (p_filesz (?hs ! i))" "p_filesz (?hs ! i) \<noteq> 0"
      using ok i c(1) by (auto simp: covers_def)
    then have "unat ?q = unat (p_offset (?hs ! i) + KERNEL_BIN_BASE_ADDR) + unat (p - seg_target (?hs ! i))"
      using unat_add_no_wrap [of "p_offset (?hs ! i) + KERNEL_BIN_BASE_ADDR" "unat (p - seg_target (?hs ! i))"] by (simp add: seg_ok_def)
    then have "m ?q = file ?q" using s assms(2) by (simp add: image_same_def seg_ok_def)
    then show "?m p = file ?q" using fold_load_last [OF i c(1), of m m] c(2) by simp
  qed
  ultimately show thesis using other fold_load_uncovered by (intro that)
qed

lemma pt_entry_bytes:
  assumes "i < 1024" "\<And>q. 0x101000 + 4 * i \<le> unat q \<Longrightarrow> m' q = m q"
  shows "pt_entry m' 0x101000 i = pt_entry m 0x101000 i"
proof -
  have u: "unat (of_nat (0x101000 + 4 * i) :: u32) = 0x101000 + 4 * i" using assms(1) by (intro unat_of_nat32) simp
  show ?thesis unfolding pt_entry_def by (rule load32_bytes, unfold u) (use assms in auto)
qed

lemma p_mode_start_runs:
  assumes A: "prompt_disk io disk regs todo ready idle busy" "idle d" and E: "elf_ok (kernel_file disk)"
    and c: "gdtr_limit c = GDT_LIMIT" "gdtr_base c = GDT_BASE"
  obtains m' d' where "p_mode_start io c m d = Some (Kernel_entry KERNEL_ENTRY_POINT
      (c\<lparr>seg_ds := SELECTOR_DATA, seg_es := SELECTOR_DATA, seg_ss := SELECTOR_DATA, seg_gs := SELECTOR_VIDEO, seg_cs := SELECTOR_CODE,
         cr3 := PAGE_DIR_TABLE_POS, cr0 := cr0 c OR 0x80000000, gdtr_limit := GDT_LIMIT, gdtr_base := 0xc0000900, esp := 0xc009f000\<rparr>) m' d')"
    "kernel_mapped m'" "segments_loaded (kernel_file disk) m'" "load32 m' 0x91c = load32 m 0x91c OR 0xc0000000"
    "\<And>p. unat p < 0x91c \<or> 0x920 \<le> unat p \<and> unat p < 0xb04 \<or> 0xb0a \<le> unat p \<and> unat p < 0x1000 \<Longrightarrow> m' p = m p"
    "\<And>i. i < 768 \<Longrightarrow> pt_entry m' 0x101000 (256 + i) = pt_entry m 0x101000 (256 + i)"
proof -
  let ?c = "c\<lparr>seg_ds := SELECTOR_DATA, seg_es := SELECTOR_DATA, seg_ss := SELECTOR_DATA, esp := LOADER_STACK_TOP, seg_gs := SELECTOR_VIDEO\<rparr>"
  let ?m1 = "disk_copy disk m KERNEL_BIN_BASE_ADDR (512 * 9) (512 * 200)"
  obtain d' where 1: "rd_disk_m_32 io KERNEL_START_SECTOR KERNEL_BIN_BASE_ADDR 200 m d = Some (?m1, d')"
    using prompt_disk.rd_disk_m_32_prompt [OF A, of KERNEL_START_SECTOR 200 KERNEL_BIN_BASE_ADDR m] by (auto simp: KERNEL_START_SECTOR_def)
  have range: "unat (p - KERNEL_BIN_BASE_ADDR) < 512 * 200 \<longleftrightarrow> 0x70000 \<le> unat p \<and> unat p < 0x89000" for p
    using unat_diff_less_iff [of KERNEL_BIN_BASE_ADDR "512 * 200" p] by (simp add: KERNEL_BIN_BASE_ADDR_def)
  have m1: "?m1 p = m p" if "unat p < 0x70000 \<or> 0x89000 \<le> unat p" for p
    using that range [of p] by (auto simp: disk_copy_def)
  have i1: "?m1 p = kernel_file disk p" if "0x70000 \<le> unat p" "unat p < 0x89000" for p
    using that range [of p] by (simp add: disk_copy_def kernel_file_def)
  obtain m3 where m3: "enter_paging (setup_page ?m1) ?c = Inr (m3, ?c\<lparr>esp := esp ?c + 0xc0000000, cr3 := PAGE_DIR_TABLE_POS,
        cr0 := cr0 ?c OR 0x80000000, gdtr_limit := GDT_LIMIT, gdtr_base := 0xc0000900, seg_cs := SELECTOR_CODE\<rparr>)"
      "load32 m3 0x91c = load32 (setup_page ?m1) 0x91c OR 0xc0000000"
      "\<And>p. unat p < 0x91c \<or> 0x920 \<le> unat p \<and> unat p < 0xb04 \<or> 0xb0a \<le> unat p \<Longrightarrow> m3 p = setup_page ?m1 p"
    by (rule enter_paging_moves [OF setup_page_kernel_mapped, of ?c ?m1]) (use c in simp_all)
  have low: "setup_page ?m1 p = m p" if "unat p < 0x70000" for p using that m1 by (simp add: setup_page_low)
  have K3: "kernel_mapped m3" by (rule kernel_mapped_cong [OF _ setup_page_kernel_mapped]) (simp add: m3(3))
  have "image_same (kernel_file disk) m3" using i1 by (simp add: image_same_def m3(3) setup_page_low)
  then obtain m4 where m4: "kernel_init m3 = Inr m4" "kernel_mapped m4" "segments_loaded (kernel_file disk) m4"
      "\<And>p. unat p < 0x1000 \<or> 0x70000 \<le> unat p \<Longrightarrow> m4 p = m3 p"
    using kernel_init_image [OF K3 _ E] by blast
  show thesis
  proof (rule that [of m4 d'])
    show "p_mode_start io c m d = Some (Kernel_entry KERNEL_ENTRY_POINT
      (c\<lparr>seg_ds := SELECTOR_DATA, seg_es := SELECTOR_DATA, seg_ss := SELECTOR_DATA, seg_gs := SELECTOR_VIDEO, seg_cs := SELECTOR_CODE,
         cr3 := PAGE_DIR_TABLE_POS, cr0 := cr0 c OR 0x80000000, gdtr_limit := GDT_LIMIT, gdtr_base := 0xc0000900, esp := 0xc009f000\<rparr>) m4 d')"
      using 1 m3(1) m4(1) by (cases c) (simp add: p_mode_start_def Let_def)
    have "load32 m4 0x91c = load32 m3 0x91c" by (rule load32_bytes) (simp_all add: m4(4))
    moreover have "load32 (setup_page ?m1) 0x91c = load32 m 0x91c" by (rule load32_bytes, simp, rule low, simp)
    ultimately show "load32 m4 0x91c = load32 m 0x91c OR 0xc0000000" using m3(2) by simp
    show "m4 p = m p" if "unat p < 0x91c \<or> 0x920 \<le> unat p \<and> unat p < 0xb04 \<or> 0xb0a \<le> unat p \<and> unat p < 0x1000" for p
      using that m4(4) [of p] m3(3) [of p] low [of p] by auto
    show "pt_entry m4 0x101000 (256 + i) = pt_entry m 0x101000 (256 + i)" if i: "i < 768" for i
    proof -
      have "pt_entry m4 0x101000 (256 + i) = pt_entry (setup_page ?m1) 0x101000 (256 + i)"
        by (rule pt_entry_bytes) (use i m4(4) m3(3) in auto)
      also have "\<dots> = pt_entry ?m1 0x101000 (256 + i)" using i by (intro setup_page_entry_kept) simp_all
      also have "\<dots> = pt_entry m 0x101000 (256 + i)"
        by (rule pt_entry_bytes) (use i m1 in auto)
      finally show ?thesis .
    qed
  qed (rule m4(2,3))+
qed

text \<open>The data section of the loader as it is in its file.\<close>

definition loader_data :: "mem \<Rightarrow> bool" where
  "loader_data m \<longleftrightarrow> (\<forall>i < 8. load32 m (GDT_BASE + of_nat (4 * i)) = gdt_words ! i) \<and> load16 m gdt_ptr = GDT_LIMIT
     \<and> load32 m (gdt_ptr + 2) = GDT_BASE \<and> m ards_nr = 0 \<and> m (ards_nr + 1) = 0"

lemma gdt_word_cong:
  assumes "i < 8" "\<And>p. 0x900 + 4 * i \<le> unat p \<Longrightarrow> unat p < 0x904 + 4 * i \<Longrightarrow> m' p = m p"
  shows "load32 m' (GDT_BASE + of_nat (4 * i)) = load32 m (GDT_BASE + of_nat (4 * i))"
proof -
  have "unat (GDT_BASE + of_nat (4 * i)) = 0x900 + 4 * i"
    using assms(1) unat_add_no_wrap [of GDT_BASE "4 * i"] by (simp add: loader_layout)
  then show ?thesis using assms by (intro load32_bytes) (simp_all del: of_nat_mult)
qed

lemma loader_data_cong:
  assumes "loader_data m" "\<And>p. 0x900 \<le> unat p \<Longrightarrow> unat p < 0xc00 \<Longrightarrow> m' p = m p"
  shows "loader_data m'"
proof -
  have "load32 m' (GDT_BASE + of_nat (4 * i)) = load32 m (GDT_BASE + of_nat (4 * i))" if "i < 8" for i
    using that by (rule gdt_word_cong) (use that assms(2) in auto)
  moreover have "load16 m' gdt_ptr = load16 m gdt_ptr" "load32 m' (gdt_ptr + 2) = load32 m (gdt_ptr + 2)"
    by (rule load16_bytes load32_bytes; use assms(2) in \<open>simp add: loader_layout\<close>)+
  moreover have "m' ards_nr = m ards_nr" "m' (ards_nr + 1) = m (ards_nr + 1)" using assms(2) unat_ards_nr by simp_all
  ultimately show ?thesis using assms(1) by (simp add: loader_data_def)
qed

lemma loader_runs:
  assumes A: "prompt_disk io disk regs todo ready idle busy" "idle d" and B: "e820_bios int15 areas cont" "length areas \<le> 12"
    and L: "loader_data m" and E: "elf_ok (kernel_file disk)"
  obtains c' m' d' where "loader int15 io r c m d = Some (Kernel_entry KERNEL_ENTRY_POINT c' m' d')"
    "kernel_mapped m'" "segments_loaded (kernel_file disk) m'"
    "cr0 c' = cr0 c OR 0x80000001" "cr3 c' = PAGE_DIR_TABLE_POS" "esp c' = 0xc009f000" "gdtr_base c' = 0xc0000900" "gdtr_limit c' = 31"
    "load32 m' 0x91c = 0xc0c0920b" "\<And>i. i < 7 \<Longrightarrow> load32 m' (GDT_BASE + of_nat (4 * i)) = gdt_words ! i"
    "load32 m' total_mem_bytes = fold smax (map area_end areas) 0"
    "\<And>i. i < 768 \<Longrightarrow> pt_entry m' 0x101000 (256 + i) = pt_entry m 0x101000 (256 + i)"
proof -
  let ?t = "fold smax (map area_end areas) 0"
  have z: "m ards_nr = 0" "m (ards_nr + 1) = 0" using L by (simp_all add: loader_data_def)
  obtain m1 where 1: "mem_probe int15 r m = Some (Some (store32 m1 total_mem_bytes ?t))" "e820_mem areas m (length areas) m1"
    using B z by (rule mem_probe_map)
  let ?m = "store32 m1 total_mem_bytes ?t"
  note frame = probe_frame [OF B 1(2), where x = ?t]
  have f: "?m p = m p" if "unat p < 0xb00 \<and> 0x900 \<le> unat p \<or> 0xb04 \<le> unat p \<and> unat p < 0xb0a \<or> 0x7c00 \<le> unat p" for p
    using that by (intro frame) (auto simp: kept_def)
  have a: "gdt_ptr = 0xb04" "gdt_ptr + 2 = 0xb06" "GDT_BASE = 0x900" "total_mem_bytes = 0xb00" by (simp_all add: loader_layout)
  have g: "load32 ?m (GDT_BASE + of_nat (4 * i)) = gdt_words ! i" if "i < 8" for i
    using gdt_word_cong [of i ?m m] f L that by (simp add: loader_data_def)
  have "load16 ?m gdt_ptr = load16 m gdt_ptr" "load32 ?m (gdt_ptr + 2) = load32 m (gdt_ptr + 2)"
    by (rule load16_bytes load32_bytes; use f in \<open>simp add: a(1)\<close>)+
  then have c: "gdtr_limit (enter_protected ?m c) = GDT_LIMIT" "gdtr_base (enter_protected ?m c) = GDT_BASE"
    using L by (simp_all add: enter_protected_def Let_def loader_data_def a(3))
  let ?c = "(enter_protected ?m c)\<lparr>seg_ds := SELECTOR_DATA, seg_es := SELECTOR_DATA, seg_ss := SELECTOR_DATA, seg_gs := SELECTOR_VIDEO,
    seg_cs := SELECTOR_CODE, cr3 := PAGE_DIR_TABLE_POS, cr0 := cr0 (enter_protected ?m c) OR 0x80000000, gdtr_limit := GDT_LIMIT,
    gdtr_base := 0xc0000900, esp := 0xc009f000\<rparr>"
  obtain m' d' where 2: "p_mode_start io (enter_protected ?m c) ?m d = Some (Kernel_entry KERNEL_ENTRY_POINT ?c m' d')"
    "kernel_mapped m'" "segments_loaded (kernel_file disk) m'" "load32 m' 0x91c = load32 ?m 0x91c OR 0xc0000000"
    "\<And>p. unat p < 0x91c \<or> 0x920 \<le> unat p \<and> unat p < 0xb04 \<or> 0xb0a \<le> unat p \<and> unat p < 0x1000 \<Longrightarrow> m' p = ?m p"
    "\<And>i. i < 768 \<Longrightarrow> pt_entry m' 0x101000 (256 + i) = pt_entry ?m 0x101000 (256 + i)"
    by (rule p_mode_start_runs [OF A E c, where m = ?m]) (rule that, assumption+)
  show thesis
  proof (rule that [of ?c m' d'])
    show "loader int15 io r c m d = Some (Kernel_entry KERNEL_ENTRY_POINT ?c m' d')" using 1(1) 2(1) by (simp add: loader_def)
    have "(1 :: u32) OR 0x80000000 = 0x80000001" by simp
    then have "(cr0 c OR 1) OR 0x80000000 = cr0 c OR 0x80000001" by (simp only: or.assoc)
    then show "cr0 ?c = cr0 c OR 0x80000001" by (simp add: enter_protected_def Let_def)
    show "gdtr_limit ?c = 31" by (simp add: GDT_LIMIT_def GDT_SIZE_def)
    have "load32 ?m 0x91c = 0xc0920b" using g [of 7] by (simp add: a(3) gdt_values)
    then show "load32 m' 0x91c = 0xc0c0920b" using 2(4) by simp
    show "load32 m' (GDT_BASE + of_nat (4 * i)) = gdt_words ! i" if "i < 7" for i
      using gdt_word_cong [of i m' ?m] g [of i] that 2(5) by simp
    have "load32 m' total_mem_bytes = load32 ?m total_mem_bytes" by (rule load32_bytes; use 2(5) in \<open>simp add: a(4)\<close>)
    then show "load32 m' total_mem_bytes = ?t" by simp
    show "pt_entry m' 0x101000 (256 + i) = pt_entry m 0x101000 (256 + i)" if "i < 768" for i
      using 2(6) [OF that] pt_entry_bytes [of "256 + i" ?m m] that f by auto
  qed (use 2(2,3) in simp_all)
qed

text \<open>The boot sector brings the loader, and jumps to its first instruction.\<close>

lemma mbr_loads:
  assumes "prompt_disk io disk regs todo ready idle busy" "idle d"
  shows "\<exists>d'. mbr io int10 0 m d = Some (loader_start, disk_copy disk (mbr_text (int10 m)) LOADER_BASE_ADDR (512 * 2) (512 * 4), d') \<and> idle d'"
proof -
  have l: "unat (ucast LOADER_BASE_ADDR :: u16) = 0x900" "ucast (ucast LOADER_BASE_ADDR :: u16) = LOADER_BASE_ADDR"
    by (simp_all add: LOADER_BASE_ADDR_def)
  obtain d' where "rd_disk_m_16 io 0 LOADER_START_SECTOR (ucast LOADER_BASE_ADDR) 4 (mbr_text (int10 m)) d
      = Some (disk_copy disk (mbr_text (int10 m)) LOADER_BASE_ADDR (512 * 2) (512 * 4), d')" "idle d'"
    using prompt_disk.rd_disk_m_16_prompt [OF assms, of LOADER_START_SECTOR 4 "ucast LOADER_BASE_ADDR" 0 "mbr_text (int10 m)"]
    by (auto simp: l LOADER_START_SECTOR_def)
  then show ?thesis by (simp add: mbr_def loader_layout)
qed

section \<open>A disk to boot from\<close>

text \<open>The loader's data in sector 2, and from sector 9 on the header fields, the three program headers and the first four bytes of code
  of the kernel as it is built, \<open>build/kernel.bin\<close>: two segments to load, at \<open>0xc0001000\<close> and \<open>0xc0005000\<close>, and the stack.\<close>

definition demo_disk :: "nat \<Rightarrow> u8" where
  "demo_disk i = (case map_of
     [(1032, 0xff), (1033, 0xff), (1037, 0x98), (1038, 0xcf), (1040, 0xff), (1041, 0xff), (1045, 0x92), (1046, 0xcf),
      (1048, 0x07), (1051, 0x80), (1052, 0x0b), (1053, 0x92), (1054, 0xc0), (1540, 0x1f), (1543, 0x09),
      (4636, 0x34), (4650, 0x20), (4652, 0x03), (4660, 0x01), (4669, 0x10), (4671, 0xc0), (4676, 0x6c), (4677, 0x2c), (4692, 0x01),
      (4697, 0x30), (4701, 0x50), (4703, 0xc0), (4708, 0x98), (4724, 0x51), (4725, 0xe5), (4726, 0x74), (4727, 0x64), (5888, 0x8d),
      (5889, 0x4c), (5890, 0x24), (5891, 0x04)] i of None \<Rightarrow> 0 | Some b \<Rightarrow> b)"

lemma demo_phdrs:
  "e_phnum (kernel_file demo_disk) = 3" "phdr_addr (kernel_file demo_disk) 0 = 0x70034" "phdr_addr (kernel_file demo_disk) 1 = 0x70054"
  "phdr_addr (kernel_file demo_disk) 2 = 0x70074"
  by (simp_all add: e_phnum_def phdr_addr_def kernel_file_def disk_copy_def demo_disk_def load16_def load32_def KERNEL_BIN_BASE_ADDR_def)

lemma demo_phdr_at:
  "phdr_at (kernel_file demo_disk) 0x70034 = \<lparr>p_type = 1, p_offset = 0, p_vaddr = 0xc0001000, p_filesz = 0x2c6c\<rparr>"
  "phdr_at (kernel_file demo_disk) 0x70054 = \<lparr>p_type = 1, p_offset = 0x3000, p_vaddr = 0xc0005000, p_filesz = 0x98\<rparr>"
  "phdr_at (kernel_file demo_disk) 0x70074 = \<lparr>p_type = 0x51, p_offset = 0, p_vaddr = 0, p_filesz = 0\<rparr>"
  by (simp_all add: phdr_at_def kernel_file_def disk_copy_def demo_disk_def load32_def KERNEL_BIN_BASE_ADDR_def)

lemma demo_elf: "elf_ok (kernel_file demo_disk)" "phdrs (kernel_file demo_disk) = [\<lparr>p_type = 1, p_offset = 0, p_vaddr = 0xc0001000, p_filesz = 0x2c6c\<rparr>, \<lparr>p_type = 1, p_offset = 0x3000, p_vaddr = 0xc0005000, p_filesz = 0x98\<rparr>,
     \<lparr>p_type = 0x51, p_offset = 0, p_vaddr = 0, p_filesz = 0\<rparr>]"
proof -
  have i: "i \<in> {0, 1, 2}" if "i < 3" for i :: nat using that by auto
  have "phdrs (kernel_file demo_disk) = map (\<lambda>i. phdr_at (kernel_file demo_disk) (phdr_addr (kernel_file demo_disk) i)) [0, 1, 2]"
    by (simp add: phdrs_def demo_phdrs(1) upt_rec numeral_2_eq_2)
  then show h: "phdrs (kernel_file demo_disk) = [\<lparr>p_type = 1, p_offset = 0, p_vaddr = 0xc0001000, p_filesz = 0x2c6c\<rparr>, \<lparr>p_type = 1, p_offset = 0x3000, p_vaddr = 0xc0005000, p_filesz = 0x98\<rparr>,
     \<lparr>p_type = 0x51, p_offset = 0, p_vaddr = 0, p_filesz = 0\<rparr>]" by (simp only: list.map demo_phdrs demo_phdr_at)
  have "hdr_ok (phdr_addr (kernel_file demo_disk) i)" if "i < 3" for i
    using i [OF that] by (elim insertE emptyE) (simp_all add: demo_phdrs hdr_ok_def del: One_nat_def)
  then show "elf_ok (kernel_file demo_disk)"
    by (simp add: elf_ok_def demo_phdrs(1) h seg_ok_def seg_target_def KERNEL_BIN_BASE_ADDR_def)
qed

lemma demo_loader: "loader_data (disk_copy demo_disk m LOADER_BASE_ADDR (512 * 2) (512 * 4))"
proof -
  have "load32 (disk_copy demo_disk m LOADER_BASE_ADDR (512 * 2) (512 * 4)) (GDT_BASE + of_nat (4 * i)) = gdt_words ! i" if "i < 8" for i
  proof -
    have "i \<in> {0, 1, 2, 3, 4, 5, 6, 7}" using that by auto
    then show ?thesis
      by (elim insertE emptyE) (simp_all add: gdt_values loader_layout load32_def disk_copy_def demo_disk_def)
  qed
  then show ?thesis
    by (simp add: loader_data_def GDT_LIMIT_def loader_layout load16_def load32_def disk_copy_def demo_disk_def)
qed

section \<open>Properties\<close>

text \<open>C35: \<open>kernel_init\<close> on an ELF file whose headers and segments lie in the sectors read and whose segments, where they have bytes
  in the file, belong between \<open>0xc0001000\<close> and the file, such as the kernel that the makefile builds: it returns, each byte of a segment
  that no later one covers is the byte of the file, every byte that no segment covers is as before, and the mapping still holds.\<close>

theorem kernel_init_loads:
  assumes "kernel_mapped m" "elf_ok m"
  shows "\<exists>m'. kernel_init m = Inr m' \<and> kernel_mapped m' \<and> segments_loaded m m'
    \<and> (\<forall>p. (\<forall>h \<in> set (phdrs m). \<not> covers h p) \<longrightarrow> m' p = m p)
    \<and> (\<forall>p. unat p < 0x1000 \<or> 0x70000 \<le> unat p \<longrightarrow> m' p = m p)"
  using kernel_init_image [OF assms(1) _ assms(2)] by (metis image_same_def)

theorem kernel_init_loads_witness:
  "\<exists>m'. kernel_init (setup_page (kernel_file demo_disk)) = Inr m' \<and> m' 0x1502 = 0x24 \<and> m' 0x4000 = 0"
proof -
  let ?f = "kernel_file demo_disk" and ?m = "setup_page (kernel_file demo_disk)"
  have "image_same ?f ?m" by (simp add: image_same_def setup_page_low)
  note e = image_elf [OF this demo_elf(1)]
  obtain m' where m': "kernel_init ?m = Inr m'" "segments_loaded ?m m'" "\<forall>p. (\<forall>h \<in> set (phdrs ?m). \<not> covers h p) \<longrightarrow> m' p = ?m p"
    using kernel_init_loads [OF setup_page_kernel_mapped e(1)] by blast
  have c: "covers (phdrs ?m ! 0) 0x1502" "\<not> covers (phdrs ?m ! 1) 0x1502" "\<not> covers (phdrs ?m ! 2) 0x1502" "\<forall>h \<in> set (phdrs ?m). \<not> covers h 0x4000"
    by (simp_all add: e(2) demo_elf(2) covers_def seg_target_def PT_NULL_def)
  have l: "length (phdrs ?m) = 3" by (simp add: e(2) demo_elf(2))
  have "\<not> covers (phdrs ?m ! j) 0x1502" if "0 < j" "j < length (phdrs ?m)" for j
  proof -
    have "j = 1 \<or> j = 2" using that l by arith
    then show ?thesis using c(2,3) by auto
  qed
  moreover have "0 < length (phdrs ?m)" by (simp add: l)
  ultimately have "m' 0x1502 = ?m (p_offset (phdrs ?m ! 0) + KERNEL_BIN_BASE_ADDR + (0x1502 - seg_target (phdrs ?m ! 0)))"
    using m'(2) c(1) unfolding segments_loaded_def by blast
  also have "\<dots> = ?m 0x70502" by (simp add: e(2) demo_elf(2) seg_target_def KERNEL_BIN_BASE_ADDR_def)
  also have "\<dots> = 0x24" by (simp add: setup_page_low kernel_file_def disk_copy_def demo_disk_def KERNEL_BIN_BASE_ADDR_def)
  finally have "m' 0x1502 = 0x24" .
  moreover have "m' 0x4000 = 0" using m'(3) c(4) by (simp add: setup_page_low kernel_file_def disk_copy_def KERNEL_BIN_BASE_ADDR_def)
  ultimately show ?thesis using m'(1) by blast
qed

text \<open>C34: the boot loader.  With an idle prompt drive and a firmware that keep their contracts, the loader's data section in memory
  and a kernel file as in C35 from sector 9 on, it jumps to \<open>0xc0001500\<close> with protection and paging on, the boot
  mapping of the kernel, flat code and data segments of 4 GB, the video segment at \<open>0xc00b8000\<close> and its descriptor table at
  \<open>0xc0000900\<close>, the stack at \<open>0xc009f000\<close>, the memory size at \<open>0xb00\<close> and the segments of the kernel in place.\<close>

theorem loader_enters_kernel:
  assumes "prompt_disk io disk regs todo ready idle busy" "idle d" "e820_bios int15 areas cont" "length areas \<le> 12" "loader_data m" "elf_ok (kernel_file disk)"
  shows "\<exists>c' m' d'. loader int15 io r c m d = Some (Kernel_entry 0xc0001500 c' m' d')
    \<and> cr0 c' = cr0 c OR 0x80000001 \<and> cr3 c' = 0x100000 \<and> esp c' = 0xc009f000 \<and> gdtr_base c' = 0xc0000900 \<and> gdtr_limit c' = 31
    \<and> kernel_mapped m' \<and> segments_loaded (kernel_file disk) m'
    \<and> seg_base (load32 m' 0x908) (load32 m' 0x90c) = 0 \<and> seg_limit (load32 m' 0x908) (load32 m' 0x90c) = 0xffffffff
    \<and> seg_base (load32 m' 0x910) (load32 m' 0x914) = 0 \<and> seg_limit (load32 m' 0x910) (load32 m' 0x914) = 0xffffffff
    \<and> seg_base (load32 m' 0x918) (load32 m' 0x91c) = 0xc00b8000 \<and> seg_limit (load32 m' 0x918) (load32 m' 0x91c) = 0x7fff
    \<and> sint (load32 m' 0xb00) = Max (insert 0 ((\<lambda>a. sint (area_end a)) ` set areas))"
proof -
  obtain c' m' d' where 1: "loader int15 io r c m d = Some (Kernel_entry KERNEL_ENTRY_POINT c' m' d')"
    "kernel_mapped m'" "segments_loaded (kernel_file disk) m'"
    "cr0 c' = cr0 c OR 0x80000001" "cr3 c' = PAGE_DIR_TABLE_POS" "esp c' = 0xc009f000" "gdtr_base c' = 0xc0000900" "gdtr_limit c' = 31"
    "load32 m' 0x91c = 0xc0c0920b" "\<And>i. i < 7 \<Longrightarrow> load32 m' (GDT_BASE + of_nat (4 * i)) = gdt_words ! i"
    "load32 m' total_mem_bytes = fold smax (map area_end areas) 0"
    "\<And>i. i < 768 \<Longrightarrow> pt_entry m' 0x101000 (256 + i) = pt_entry m 0x101000 (256 + i)"
    by (rule loader_runs [OF assms, where r = r and c = c]) (rule that, assumption+)
  have g: "load32 m' 0x908 = 0xffff" "load32 m' 0x90c = 0xcf9800" "load32 m' 0x910 = 0xffff" "load32 m' 0x914 = 0xcf9200" "load32 m' 0x918 = 0x80000007"
    using 1(10) [of 2] 1(10) [of 3] 1(10) [of 4] 1(10) [of 5] 1(10) [of 6] by (simp_all add: gdt_values loader_layout)
  have t: "sint (load32 m' 0xb00) = Max (insert 0 ((\<lambda>a. sint (area_end a)) ` set areas))"
    using 1(11) sint_fold_smax [of "map area_end areas" 0] by (simp add: loader_layout image_image)
  show ?thesis
    using 1(1-8) t by (intro exI [of _ c'] exI [of _ m'] exI [of _ d'])
      (simp add: g 1(9) KERNEL_ENTRY_POINT_def PAGE_DIR_TABLE_POS_def seg_base_def seg_limit_def Let_def)
qed

theorem loader_enters_kernel_witness:
  "\<exists>c' m' d'. loader (list_bios demo_areas) (drive_io demo_disk 5 0) demo_regs
      \<lparr>port92 = 0, cr0 = 0, cr3 = 0, gdtr_limit = 0, gdtr_base = 0, seg_cs = 0, seg_ds = 0, seg_es = 0, seg_ss = 0, seg_gs = 0, esp = 0\<rparr>
      (disk_copy demo_disk (\<lambda>_. 0) LOADER_BASE_ADDR (512 * 2) (512 * 4)) demo_drive = Some (Kernel_entry 0xc0001500 c' m' d')
    \<and> cr0 c' = 0x80000001"
proof -
  have "length demo_areas \<le> 12" by (simp add: demo_areas_def)
  from loader_enters_kernel [OF prompt.prompt_disk_axioms [where delay = 5] demo_drive_idle demo.e820_bios_axioms this demo_loader [of "\<lambda>_. 0"] demo_elf(1)]
  show ?thesis by fastforce
qed

end
