(* ===== verification/Kstring.thy ===== *)
theory Kstring
  imports Page_Tables
begin

text \<open>
  \<open>lib/string.c\<close>: the byte and string routines of the kernel, over memory accessed through
  the page tables.  Every \<open>ASSERT\<close> is a \<^const>\<open>Panic\<close> with the file, line, function and
  condition the macro passes to \<open>panic_spin\<close>; a pointer is its address and \<open>NULL\<close> is 0.
  A plain \<open>char\<close> is signed (i386), so characters are compared by \<^const>\<open>sint\<close>, and a \<open>char\<close>
  compared with a \<open>uint8_t\<close> is compared as an \<open>int\<close>: \<open>sint\<close> against \<open>uint\<close>.

  The loops counted by \<open>size\<close> end; the loops that look for the terminating zero do not have
  to (they run around the address space when no zero byte is there), so they return
  \<open>None\<close> for running forever, and the lemmas show that they return on every C string.
\<close>

abbreviation string_assert :: "nat \<Rightarrow> string \<Rightarrow> string \<Rightarrow> fault" where
  "string_assert line fn c \<equiv> Panic ''lib/string.c'' line fn c"

section \<open>Byte routines\<close>

function memset_loop :: "u32 \<Rightarrow> u8 \<Rightarrow> u32 \<Rightarrow> mem \<Rightarrow> mem result" where
  "memset_loop dst val sz m =
     (if sz = 0 then Inr m
      else rbind (vwrite8 m dst val) (memset_loop (dst + 1) val (sz - 1)))"
  by pat_completeness auto
termination
  by (relation "measure (\<lambda>(dst, val, sz, m). unat sz)") (auto simp: unat_pred_less)

definition memset :: "u32 \<Rightarrow> u8 \<Rightarrow> u32 \<Rightarrow> mem \<Rightarrow> mem result" where
  "memset dst val sz m =
     (if dst = 0 then Inl (string_assert 7 ''memset'' ''dst_ != NULL'')
      else memset_loop dst val sz m)"

function memcpy_loop :: "u32 \<Rightarrow> u32 \<Rightarrow> u32 \<Rightarrow> mem \<Rightarrow> mem result" where
  "memcpy_loop dst src sz m =
     (if sz = 0 then Inr m
      else rbind (vread8 m src) (\<lambda>b.
             rbind (vwrite8 m dst b) (memcpy_loop (dst + 1) (src + 1) (sz - 1))))"
  by pat_completeness auto
termination
  by (relation "measure (\<lambda>(dst, src, sz, m). unat sz)") (auto simp: unat_pred_less)

definition memcpy :: "u32 \<Rightarrow> u32 \<Rightarrow> u32 \<Rightarrow> mem \<Rightarrow> mem result" where
  "memcpy dst src sz m =
     (if dst \<noteq> 0 \<and> src \<noteq> 0 then memcpy_loop dst src sz m
      else Inl (string_assert 15 ''memcpy'' ''dst_ != NULL && src_ != NULL''))"

function memcmp_loop :: "u32 \<Rightarrow> u32 \<Rightarrow> u32 \<Rightarrow> mem \<Rightarrow> u32 result" where
  "memcmp_loop a b sz m =
     (if sz = 0 then Inr 0
      else rbind (vread8 m a) (\<lambda>x. rbind (vread8 m b) (\<lambda>y.
             if x \<noteq> y then Inr (if sint x > sint y then 1 else - 1)
             else memcmp_loop (a + 1) (b + 1) (sz - 1) m)))"
  by pat_completeness auto
termination
  by (relation "measure (\<lambda>(a, b, sz, m). unat sz)") (auto simp: unat_pred_less)

definition memcmp :: "u32 \<Rightarrow> u32 \<Rightarrow> u32 \<Rightarrow> mem \<Rightarrow> u32 result" where
  "memcmp a b sz m =
     (if a \<noteq> 0 \<or> b \<noteq> 0 then memcmp_loop a b sz m
      else Inl (string_assert 26 ''memcmp'' ''a != NULL || b != NULL''))"

declare memset_loop.simps [simp del] memcpy_loop.simps [simp del] memcmp_loop.simps [simp del]

section \<open>String routines\<close>

partial_function (option) strcpy_loop :: "u32 \<Rightarrow> u32 \<Rightarrow> mem \<Rightarrow> mem result option" where
  "strcpy_loop dst src m =
     (case vread8 m src of Inl e \<Rightarrow> Some (Inl e) | Inr b \<Rightarrow>
       (case vwrite8 m dst b of Inl e \<Rightarrow> Some (Inl e) | Inr m' \<Rightarrow>
         (if b \<noteq> 0 then strcpy_loop (dst + 1) (src + 1) m' else Some (Inr m'))))"

definition strcpy :: "u32 \<Rightarrow> u32 \<Rightarrow> mem \<Rightarrow> (u32 \<times> mem) result option" where
  "strcpy dst src m =
     (if dst \<noteq> 0 \<and> src \<noteq> 0
      then map_option (\<lambda>r. rbind r (\<lambda>m'. Inr (dst, m'))) (strcpy_loop dst src m)
      else Some (Inl (string_assert 39 ''strcpy'' ''dst_ != NULL && src_ != NULL'')))"

text \<open>The loop \<open>while (*p++);\<close> of \<open>strlen\<close> and \<open>strcat\<close>: the pointer after the zero byte.\<close>

partial_function (option) past_nul :: "u32 \<Rightarrow> mem \<Rightarrow> u32 result option" where
  "past_nul p m =
     (case vread8 m p of Inl e \<Rightarrow> Some (Inl e) | Inr b \<Rightarrow>
       (if b \<noteq> 0 then past_nul (p + 1) m else Some (Inr (p + 1))))"

definition strlen :: "u32 \<Rightarrow> mem \<Rightarrow> u32 result option" where
  "strlen str m =
     (if str = 0 then Some (Inl (string_assert 47 ''strlen'' ''str != NULL''))
      else map_option (\<lambda>r. rbind r (\<lambda>p. Inr (p - str - 1))) (past_nul str m))"

partial_function (option) strcmp_loop :: "u32 \<Rightarrow> u32 \<Rightarrow> mem \<Rightarrow> u8 result option" where
  "strcmp_loop a b m =
     (case vread8 m a of Inl e \<Rightarrow> Some (Inl e) | Inr x \<Rightarrow>
       (case vread8 m b of Inl e \<Rightarrow> Some (Inl e) | Inr y \<Rightarrow>
         (if x \<noteq> 0 \<and> x = y then strcmp_loop (a + 1) (b + 1) m
          else Some (Inr (if sint x < sint y then - 1 else if sint x > sint y then 1 else 0)))))"

definition strcmp :: "u32 \<Rightarrow> u32 \<Rightarrow> mem \<Rightarrow> u8 result option" where
  "strcmp a b m =
     (if a \<noteq> 0 \<and> b \<noteq> 0 then strcmp_loop a b m
      else Some (Inl (string_assert 55 ''strcmp'' ''a != NULL && b != NULL'')))"

partial_function (option) strchr_loop :: "u32 \<Rightarrow> u8 \<Rightarrow> mem \<Rightarrow> u32 result option" where
  "strchr_loop str ch m =
     (case vread8 m str of Inl e \<Rightarrow> Some (Inl e) | Inr b \<Rightarrow>
       (if b \<noteq> 0
        then (if sint b = uint ch then Some (Inr str) else strchr_loop (str + 1) ch m)
        else Some (Inr 0)))"

definition strchr :: "u32 \<Rightarrow> u8 \<Rightarrow> mem \<Rightarrow> u32 result option" where
  "strchr str ch m =
     (if str = 0 then Some (Inl (string_assert 67 ''strchr'' ''str != NULL''))
      else strchr_loop str ch m)"

partial_function (option) strrchr_loop :: "u32 \<Rightarrow> u8 \<Rightarrow> u32 \<Rightarrow> mem \<Rightarrow> u32 result option" where
  "strrchr_loop str ch last_char m =
     (case vread8 m str of Inl e \<Rightarrow> Some (Inl e) | Inr b \<Rightarrow>
       (if b \<noteq> 0
        then strrchr_loop (str + 1) ch (if sint b = uint ch then str else last_char) m
        else Some (Inr last_char)))"

definition strrchr :: "u32 \<Rightarrow> u8 \<Rightarrow> mem \<Rightarrow> u32 result option" where
  "strrchr str ch m =
     (if str = 0 then Some (Inl (string_assert 79 ''strrchr'' ''str != NULL''))
      else strrchr_loop str ch 0 m)"

definition strcat :: "u32 \<Rightarrow> u32 \<Rightarrow> mem \<Rightarrow> (u32 \<times> mem) result option" where
  "strcat dst src m =
     (if dst \<noteq> 0 \<and> src \<noteq> 0
      then (case past_nul dst m of
              None \<Rightarrow> None
            | Some (Inl e) \<Rightarrow> Some (Inl e)
            | Some (Inr str) \<Rightarrow>
                map_option (\<lambda>r. rbind r (\<lambda>m'. Inr (dst, m'))) (strcpy_loop (str - 1) src m))
      else Some (Inl (string_assert 93 ''strcat'' ''dst_ != NULL && src_ != NULL'')))"

partial_function (option) strchrs_loop :: "u32 \<Rightarrow> u8 \<Rightarrow> u32 \<Rightarrow> mem \<Rightarrow> u32 result option" where
  "strchrs_loop p ch ch_cnt m =
     (case vread8 m p of Inl e \<Rightarrow> Some (Inl e) | Inr b \<Rightarrow>
       (if b \<noteq> 0 then strchrs_loop (p + 1) ch (if sint b = uint ch then ch_cnt + 1 else ch_cnt) m
        else Some (Inr ch_cnt)))"

definition strchrs :: "u32 \<Rightarrow> u8 \<Rightarrow> mem \<Rightarrow> u32 result option" where
  "strchrs str ch m =
     (if str = 0 then Some (Inl (string_assert 103 ''strchrs'' ''str != NULL''))
      else strchrs_loop str ch 0 m)"

section \<open>What the byte routines do on a data region\<close>

lemma memset_loop_region:
  assumes "data_region m S" "span dst (unat sz) \<subseteq> S"
  shows "\<exists>m'. memset_loop dst val sz m = Inr m' \<and> updates m S (span dst (unat sz)) (\<lambda>_. val) m'"
  using assms
proof (induction dst val sz m rule: memset_loop.induct)
  case (1 dst val sz m)
  show ?case
  proof (cases "sz = 0")
    case True
    with 1 show ?thesis by (subst memset_loop.simps) (simp add: updates_refl)
  next
    case False
    then have sz: "unat sz = Suc (unat (sz - 1))" by (simp add: unat_pred unat_gt_0)
    with 1 have S: "dst \<in> S" "span (dst + 1) (unat (sz - 1)) \<subseteq> S" by (auto simp: span_Suc)
    obtain m1 where m1: "vwrite8 m dst val = Inr m1" "updates m S {dst} (\<lambda>_. val) m1"
      using 1(2) S(1) by (rule vwrite8_updates)
    obtain m2 where m2: "memset_loop (dst + 1) val (sz - 1) m1 = Inr m2"
        "updates m1 S (span (dst + 1) (unat (sz - 1))) (\<lambda>_. val) m2"
      using 1(1) [OF False m1(1)] m1(2) S(2) by blast
    have "updates m S (span dst (unat sz)) (\<lambda>_. val) m2"
      by (rule updates_cong [OF updates_trans [OF m1(2) m2(2) S(2)]]) (simp_all add: sz span_Suc)
    with False m1(1) m2(1) show ?thesis by (subst memset_loop.simps) simp
  qed
qed

lemma memcpy_loop_region:
  assumes "data_region m S" "span dst (unat sz) \<subseteq> S" "span src (unat sz) \<subseteq> S"
    "span dst (unat sz) \<inter> span src (unat sz) = {}"
  shows "\<exists>m'. memcpy_loop dst src sz m = Inr m'
     \<and> updates m S (span dst (unat sz)) (\<lambda>w. byte_at m (src + (w - dst))) m'"
  using assms
proof (induction dst src sz m rule: memcpy_loop.induct)
  case (1 dst src sz m)
  show ?case
  proof (cases "sz = 0")
    case True
    with 1 show ?thesis by (subst memcpy_loop.simps) (simp add: updates_refl)
  next
    case False
    let ?n = "unat (sz - 1)"
    have sz: "unat sz = Suc ?n" using False by (simp add: unat_pred unat_gt_0)
    with 1 have S: "dst \<in> S" "span (dst + 1) ?n \<subseteq> S" "src \<in> S" "span (src + 1) ?n \<subseteq> S"
      by (auto simp: span_Suc)
    have rd: "vread8 m src = Inr (byte_at m src)" using 1(2) S(3) by (rule vm.rd_byte)
    obtain m1 where m1: "vwrite8 m dst (byte_at m src) = Inr m1"
        "updates m S {dst} (\<lambda>_. byte_at m src) m1"
      using 1(2) S(1) by (rule vwrite8_updates)
    have disj: "span (dst + 1) ?n \<inter> span (src + 1) ?n = {}" "dst \<notin> span (src + 1) ?n" "dst \<noteq> src"
      using 1(5) by (auto simp: sz span_Suc)
    obtain m2 where m2: "memcpy_loop (dst + 1) (src + 1) (sz - 1) m1 = Inr m2"
        "updates m1 S (span (dst + 1) ?n) (\<lambda>w. byte_at m1 (src + 1 + (w - (dst + 1)))) m2"
      using 1(1) [OF False rd m1(1)] m1(2) S disj by blast
    have src: "byte_at m1 (src + (w - dst)) = byte_at m (src + (w - dst))"
      if "w \<in> span (dst + 1) ?n" for w
    proof -
      from that obtain i where i: "i < ?n" "w = dst + 1 + of_nat i" by (rule span_E)
      then have "src + 1 + of_nat i \<in> span (src + 1) ?n" by (intro span_I)
      with S(4) disj(2) i show ?thesis
        using updates_byte [OF m1(2), of "src + 1 + of_nat i"] by (auto simp: ac_simps)
    qed
    have "updates m S (span dst (unat sz)) (\<lambda>w. byte_at m (src + (w - dst))) m2"
      by (rule updates_cong [OF updates_trans [OF m1(2) m2(2) S(2)]])
        (auto simp: sz span_Suc src)
    with False rd m1(1) m2(1) show ?thesis by (subst memcpy_loop.simps) simp
  qed
qed

text \<open>The first difference of two byte sequences, as \<open>memcmp\<close> reports it.\<close>

fun cmp_bytes :: "u8 list \<Rightarrow> u8 list \<Rightarrow> int" where
  "cmp_bytes (x # xs) (y # ys) =
     (if x = y then cmp_bytes xs ys else if sint x > sint y then 1 else - 1)"
| "cmp_bytes _ _ = 0"

definition bytes_at :: "mem \<Rightarrow> u32 \<Rightarrow> nat \<Rightarrow> u8 list" where
  "bytes_at m p n = map (\<lambda>i. byte_at m (p + of_nat i)) [0..<n]"

lemma length_bytes_at [simp]: "length (bytes_at m p n) = n"
  by (simp add: bytes_at_def)

lemma bytes_at_0 [simp]: "bytes_at m p 0 = []"
  by (simp add: bytes_at_def)

lemma bytes_at_Suc: "bytes_at m p (Suc n) = byte_at m p # bytes_at m (p + 1) n"
  unfolding bytes_at_def upt_conv_Cons [OF zero_less_Suc]
  by (simp add: map_Suc_upt [symmetric] ac_simps del: upt_Suc)

lemma memcmp_loop_region:
  assumes "data_region m S" "span a (unat sz) \<subseteq> S" "span b (unat sz) \<subseteq> S"
  shows "memcmp_loop a b sz m
     = Inr (word_of_int (cmp_bytes (bytes_at m a (unat sz)) (bytes_at m b (unat sz))))"
  using assms
proof (induction a b sz m rule: memcmp_loop.induct)
  case (1 a b sz m)
  show ?case
  proof (cases "sz = 0")
    case True
    then show ?thesis by (subst memcmp_loop.simps) simp
  next
    case False
    then have sz: "unat sz = Suc (unat (sz - 1))" by (simp add: unat_pred unat_gt_0)
    with 1 have S: "a \<in> S" "span (a + 1) (unat (sz - 1)) \<subseteq> S" "b \<in> S" "span (b + 1) (unat (sz - 1)) \<subseteq> S"
      by (auto simp: span_Suc)
    note rd = vm.rd_byte [OF 1(2) S(1)] vm.rd_byte [OF 1(2) S(3)]
    show ?thesis
      using 1(1) [OF False rd] 1(2) S False
      by (subst memcmp_loop.simps) (simp add: rd sz bytes_at_Suc)
  qed
qed

lemma cmp_bytes_range: "cmp_bytes xs ys \<in> {- 1, 0, 1}"
  by (induction xs ys rule: cmp_bytes.induct) auto

lemma cmp_bytes_first:
  "k < length xs \<Longrightarrow> k < length ys \<Longrightarrow> take k xs = take k ys \<Longrightarrow> xs ! k \<noteq> ys ! k \<Longrightarrow>
     cmp_bytes xs ys = (if sint (xs ! k) > sint (ys ! k) then 1 else - 1)"
proof (induction xs ys arbitrary: k rule: cmp_bytes.induct)
  case (1 x xs y ys)
  then show ?case by (cases k) auto
qed auto

lemma cmp_bytes_0_iff: "length xs = length ys \<Longrightarrow> cmp_bytes xs ys = 0 \<longleftrightarrow> xs = ys"
  by (induction xs ys rule: list_induct2) auto

lemma cmp_bytes_swap: "length xs = length ys \<Longrightarrow> cmp_bytes ys xs = - cmp_bytes xs ys"
proof (induction xs ys rule: list_induct2)
  case (Cons x xs y ys)
  then show ?case by (cases "x = y") (auto simp: not_less_iff_gr_or_eq sint_eq_iff)
qed simp

section \<open>C strings\<close>

text \<open>\<open>cstr m S p s\<close>: the bytes of the region \<open>S\<close> from \<open>p\<close> are the string \<open>s\<close> and its zero byte.\<close>

fun cstr :: "mem \<Rightarrow> u32 set \<Rightarrow> u32 \<Rightarrow> u8 list \<Rightarrow> bool" where
  "cstr m S p [] \<longleftrightarrow> p \<in> S \<and> byte_at m p = 0"
| "cstr m S p (x # xs) \<longleftrightarrow> p \<in> S \<and> byte_at m p = x \<and> x \<noteq> 0 \<and> cstr m S (p + 1) xs"

lemma cstr_iff:
  "cstr m S p s \<longleftrightarrow> span p (Suc (length s)) \<subseteq> S \<and> 0 \<notin> set s
     \<and> bytes_at m p (Suc (length s)) = s @ [0]"
  by (induction s arbitrary: p) (auto simp: span_Suc bytes_at_Suc)

lemma bytes_at_cong:
  "(\<And>w. w \<in> span p n \<Longrightarrow> byte_at m' w = byte_at m w) \<Longrightarrow> bytes_at m' p n = bytes_at m p n"
  by (simp add: bytes_at_def span_I)

lemma past_nul_cstr:
  assumes "data_region m S" "cstr m S p s"
  shows "past_nul p m = Some (Inr (p + of_nat (length s) + 1))"
  using assms(2)
proof (induction s arbitrary: p)
  case Nil
  then show ?case by (subst past_nul.simps) (simp add: vm.rd_byte [OF assms(1)])
next
  case (Cons x xs)
  then show ?case by (subst past_nul.simps) (simp add: vm.rd_byte [OF assms(1)] ac_simps)
qed

lemma strlen_cstr:
  "data_region m S \<Longrightarrow> cstr m S p s \<Longrightarrow> p \<noteq> 0 \<Longrightarrow> strlen p m = Some (Inr (of_nat (length s)))"
  by (simp add: strlen_def past_nul_cstr)

lemma strchr_loop_cstr:
  assumes "data_region m S" "cstr m S p s"
  shows "strchr_loop p ch m
     = Some (Inr (if \<exists>x\<in>set s. sint x = uint ch
                 then p + of_nat (length (takeWhile (\<lambda>x. sint x \<noteq> uint ch) s)) else 0))"
  using assms(2)
proof (induction s arbitrary: p)
  case Nil
  then show ?case by (subst strchr_loop.simps) (simp add: vm.rd_byte [OF assms(1)])
next
  case (Cons x xs)
  then show ?case
    by (subst strchr_loop.simps) (auto simp: vm.rd_byte [OF assms(1)] ac_simps)
qed

lemma strrchr_loop_cstr:
  assumes "data_region m S" "cstr m S p s"
  shows "strrchr_loop p ch q m
     = Some (Inr (if \<exists>x\<in>set s. sint x = uint ch
                 then p + of_nat (length s) - 1
                        - of_nat (length (takeWhile (\<lambda>x. sint x \<noteq> uint ch) (rev s))) else q))"
  using assms(2)
proof (induction s arbitrary: p q)
  case Nil
  then show ?case by (subst strrchr_loop.simps) (simp add: vm.rd_byte [OF assms(1)])
next
  case (Cons x xs)
  then show ?case
    by (subst strrchr_loop.simps)
      (auto simp: vm.rd_byte [OF assms(1)] algebra_simps takeWhile_tail takeWhile_append)
qed

lemma strchrs_loop_cstr:
  assumes "data_region m S" "cstr m S p s"
  shows "strchrs_loop p ch c m = Some (Inr (c + of_nat (length (filter (\<lambda>x. sint x = uint ch) s))))"
  using assms(2)
proof (induction s arbitrary: p c)
  case Nil
  then show ?case by (subst strchrs_loop.simps) (simp add: vm.rd_byte [OF assms(1)])
next
  case (Cons x xs)
  then show ?case by (subst strchrs_loop.simps) (simp add: vm.rd_byte [OF assms(1)])
qed

text \<open>The order \<open>strcmp\<close> decides: signed characters, a proper prefix compared by its zero byte.\<close>

fun cmp_strings :: "u8 list \<Rightarrow> u8 list \<Rightarrow> u8" where
  "cmp_strings (x # xs) (y # ys) =
     (if x = y then cmp_strings xs ys else if sint x < sint y then - 1 else 1)"
| "cmp_strings [] (y # ys) = (if 0 < sint y then - 1 else 1)"
| "cmp_strings (x # xs) [] = (if sint x < 0 then - 1 else 1)"
| "cmp_strings [] [] = 0"

lemma strcmp_loop_cstr:
  assumes "data_region m S" "cstr m S a s" "cstr m S b t"
  shows "strcmp_loop a b m = Some (Inr (cmp_strings s t))"
  using assms(2,3)
proof (induction s t arbitrary: a b rule: cmp_strings.induct)
  case (1 x xs y ys)
  then show ?case
    by (subst strcmp_loop.simps)
      (auto simp: vm.rd_byte [OF assms(1)] not_less_iff_gr_or_eq sint_eq_iff)
next
  case (2 y ys)
  then show ?case
    using sint_eq_iff [of y 0]
    by (subst strcmp_loop.simps) (auto simp: vm.rd_byte [OF assms(1)] not_less_iff_gr_or_eq)
next
  case (3 x xs)
  then show ?case
    using sint_eq_iff [of x 0]
    by (subst strcmp_loop.simps) (auto simp: vm.rd_byte [OF assms(1)] not_less_iff_gr_or_eq)
next
  case 4
  then show ?case by (subst strcmp_loop.simps) (simp add: vm.rd_byte [OF assms(1)])
qed

lemma cmp_strings_0_iff: "0 \<notin> set s \<Longrightarrow> 0 \<notin> set t \<Longrightarrow> cmp_strings s t = 0 \<longleftrightarrow> s = t"
  by (induction s t rule: cmp_strings.induct) auto

lemma cmp_strings_swap:
  "0 \<notin> set s \<Longrightarrow> 0 \<notin> set t \<Longrightarrow> cmp_strings t s = - cmp_strings s t"
proof (induction s t rule: cmp_strings.induct)
  case (1 x xs y ys)
  then show ?case by (cases "x = y") (auto simp: not_less_iff_gr_or_eq sint_eq_iff)
next
  case (2 y ys)
  then show ?case using sint_eq_iff [of y 0] by auto
next
  case (3 x xs)
  then show ?case using sint_eq_iff [of x 0] by auto
qed simp

lemma strcpy_loop_cstr:
  assumes "data_region m S" "cstr m S src s" "span dst (Suc (length s)) \<subseteq> S"
    "span dst (Suc (length s)) \<inter> span src (Suc (length s)) = {}"
  shows "\<exists>m'. strcpy_loop dst src m = Some (Inr m')
     \<and> updates m S (span dst (Suc (length s))) (\<lambda>w. byte_at m (src + (w - dst))) m'"
  using assms
proof (induction s arbitrary: dst src m)
  case Nil
  then have S: "src \<in> S" "dst \<in> S" "byte_at m src = 0" by (auto simp: span_Suc)
  obtain m1 where m1: "vwrite8 m dst 0 = Inr m1" "updates m S {dst} (\<lambda>_. 0) m1"
    using Nil(1) S(2) by (rule vwrite8_updates)
  have "updates m S (span dst (Suc 0)) (\<lambda>w. byte_at m (src + (w - dst))) m1"
    by (rule updates_cong [OF m1(2)]) (auto simp: span_Suc S)
  with m1(1) show ?case
    by (subst strcpy_loop.simps) (simp add: vm.rd_byte [OF Nil(1) S(1)] S)
next
  case (Cons x xs)
  let ?n = "Suc (length xs)"
  from Cons.prems have S: "src \<in> S" "dst \<in> S" "span (dst + 1) ?n \<subseteq> S" "byte_at m src = x" "x \<noteq> 0"
      and src: "cstr m S (src + 1) xs"
    by (auto simp: span_Suc [of dst])
  obtain m1 where m1: "vwrite8 m dst x = Inr m1" "updates m S {dst} (\<lambda>_. x) m1"
    using Cons.prems(1) S(2) by (rule vwrite8_updates)
  have disj: "span (dst + 1) ?n \<inter> span (src + 1) ?n = {}" "dst \<notin> span (src + 1) ?n"
    using Cons.prems(4) by (auto simp: span_Suc [of dst] span_Suc [of src])
  have srcS: "span (src + 1) ?n \<subseteq> S" using src by (simp add: cstr_iff)
  have same: "byte_at m1 w = byte_at m w" if "w \<in> span (src + 1) ?n" for w
    using that disj(2) srcS updates_byte [OF m1(2), of w] by auto
  have "cstr m1 S (src + 1) xs"
    using src bytes_at_cong [of "src + 1" ?n m1 m, OF same] by (simp add: cstr_iff)
  then obtain m2 where m2: "strcpy_loop (dst + 1) (src + 1) m1 = Some (Inr m2)"
      "updates m1 S (span (dst + 1) ?n) (\<lambda>w. byte_at m1 (src + 1 + (w - (dst + 1)))) m2"
    using Cons.IH [OF _ _ S(3) disj(1)] m1(2) by blast
  have shift: "byte_at m1 (src + (w - dst)) = byte_at m (src + (w - dst))"
    if "w \<in> span (dst + 1) ?n" for w
  proof -
    from that obtain i where i: "i < ?n" "w = dst + 1 + of_nat i" by (rule span_E)
    then show ?thesis using same [OF span_I [OF i(1)]] by (simp add: ac_simps)
  qed
  have "updates m S (span dst (Suc ?n)) (\<lambda>w. byte_at m (src + (w - dst))) m2"
    by (rule updates_cong [OF updates_trans [OF m1(2) m2(2) S(3)]])
      (auto simp: span_Suc [of dst] shift S)
  with m1(1) m2(1) show ?case
    by (subst strcpy_loop.simps) (simp add: vm.rd_byte [OF Cons.prems(1) S(1)] S)
qed

lemma updates_cstr:
  assumes "updates m S (span dst (Suc (length s))) (\<lambda>w. byte_at m (src + (w - dst))) m'"
    and "cstr m S src s" "span dst (Suc (length s)) \<subseteq> S"
  shows "cstr m' S dst s"
proof -
  have "byte_at m' (dst + of_nat i) = byte_at m (src + of_nat i)" if "i < Suc (length s)" for i
    using span_I [OF that, of dst] assms(3) updates_byte [OF assms(1), of "dst + of_nat i"] by auto
  then have "bytes_at m' dst (Suc (length s)) = bytes_at m src (Suc (length s))"
    by (simp add: bytes_at_def del: upt_Suc)
  with assms(2,3) show ?thesis by (simp add: cstr_iff)
qed

lemma updates_cstr_other:
  assumes "updates m S (span dst (Suc (length s))) f m'" "cstr m S src s"
    "span dst (Suc (length s)) \<inter> span src (Suc (length s)) = {}"
  shows "cstr m' S src s"
proof -
  have "span src (Suc (length s)) \<subseteq> S" using assms(2) by (simp add: cstr_iff)
  then have "byte_at m' w = byte_at m w" if "w \<in> span src (Suc (length s))" for w
    using that assms(3) by (intro updates_byte_other [OF assms(1)]) auto
  then have "bytes_at m' src (Suc (length s)) = bytes_at m src (Suc (length s))" by (rule bytes_at_cong)
  with assms(2) show ?thesis by (simp add: cstr_iff)
qed

lemma span_tail: "span (p + of_nat k) n \<subseteq> span p (k + n)"
  by (auto simp: span_def image_iff add.assoc simp flip: of_nat_add intro!: bexI)

lemma span_split_disjoint:
  assumes "k + n \<le> 4294967296" shows "span p k \<inter> span (p + of_nat k) n = {}"
proof -
  have False if "i < k" "j < n" "p + of_nat i = p + of_nat k + of_nat j" for i j
  proof -
    have "(of_nat i :: u32) = of_nat (k + j)" using that(3) by simp
    then have "unat (of_nat i :: u32) = unat (of_nat (k + j) :: u32)" by (rule arg_cong)
    with that assms unat_of_nat32 [of i] unat_of_nat32 [of "k + j"] show False by simp
  qed
  then show ?thesis by (fastforce elim!: span_E)
qed

lemma cstr_append:
  "cstr m S p (s @ t) \<longleftrightarrow> span p (length s) \<subseteq> S \<and> 0 \<notin> set s \<and> bytes_at m p (length s) = s
     \<and> cstr m S (p + of_nat (length s)) t"
  by (induction s arbitrary: p) (auto simp: span_Suc bytes_at_Suc ac_simps)

section \<open>Properties\<close>

text \<open>\<open>memcpy\<close> on two disjoint ranges of mapped memory returns, the destination then holds
  the source's bytes, every other byte of the region is as before, and so is every physical
  byte that does not back the destination.\<close>

lemma memcpy_copies:
  assumes "data_region m S" "dst \<noteq> 0" "src \<noteq> 0" "span dst (unat sz) \<subseteq> S" "span src (unat sz) \<subseteq> S"
    "span dst (unat sz) \<inter> span src (unat sz) = {}"
  shows "\<exists>m'. memcpy dst src sz m = Inr m' \<and> data_region m' S
    \<and> bytes_at m' dst (unat sz) = bytes_at m src (unat sz)
    \<and> (\<forall>w\<in>S - span dst (unat sz). byte_at m' w = byte_at m w)
    \<and> (\<forall>p. p \<notin> frames_of m (span dst (unat sz)) \<longrightarrow> m' p = m p)"
proof -
  obtain m' where m': "memcpy_loop dst src sz m = Inr m'"
      "updates m S (span dst (unat sz)) (\<lambda>w. byte_at m (src + (w - dst))) m'"
    using memcpy_loop_region [OF assms(1,4,5,6)] by blast
  have "byte_at m' (dst + of_nat i) = byte_at m (src + of_nat i)" if "i < unat sz" for i
    using span_I [OF that, of dst] assms(4) updates_byte [OF m'(2), of "dst + of_nat i"] by auto
  then have "bytes_at m' dst (unat sz) = bytes_at m src (unat sz)" by (simp add: bytes_at_def)
  with m' assms(2,3) show ?thesis
    using updates_byte [OF m'(2)] updates_frame [OF m'(2)] by (auto simp: memcpy_def)
qed

lemma memcpy_copies_witness:
  "\<exists>m'. memcpy 0xc0006000 0xc0005000 2 demo_mem = Inr m' \<and> bytes_at m' 0xc0006000 2 = [65, 66]"
proof -
  have "span 0xc0006000 (unat (2 :: u32)) \<subseteq> low_kernel" "span 0xc0005000 (unat (2 :: u32)) \<subseteq> low_kernel"
    by (rule span_low, simp)+
  moreover have "span 0xc0006000 (unat (2 :: u32)) \<inter> span 0xc0005000 (unat (2 :: u32)) = {}"
    by (subst Int_commute) (rule span_disjoint, simp_all)
  moreover have "bytes_at demo_mem 0xc0005000 2 = [65, 66]"
    by (simp add: bytes_at_def demo_byte in_low_kernel upt_rec)
  ultimately show ?thesis using memcpy_copies [OF demo_region, of "0xc0006000" "0xc0005000" 2] by auto
qed

text \<open>\<open>memcmp\<close> of two ranges of mapped memory returns 0 exactly when their bytes agree;
  otherwise 1 or -1, as the first differing byte of the first range is the greater or the
  smaller one when read as \<open>signed char\<close>; the answer changes its sign when the ranges are
  swapped.\<close>

lemma memcmp_order:
  assumes "data_region m S" "a \<noteq> 0" "b \<noteq> 0" "span a (unat sz) \<subseteq> S" "span b (unat sz) \<subseteq> S"
  shows "\<exists>r. memcmp a b sz m = Inr r \<and> memcmp b a sz m = Inr (- r)
    \<and> (r = 0 \<longleftrightarrow> bytes_at m a (unat sz) = bytes_at m b (unat sz))
    \<and> (\<forall>k < unat sz. bytes_at m a k = bytes_at m b k \<and> byte_at m (a + of_nat k) \<noteq> byte_at m (b + of_nat k)
         \<longrightarrow> r = (if sint (byte_at m (a + of_nat k)) > sint (byte_at m (b + of_nat k)) then 1 else - 1))"
proof -
  let ?xs = "bytes_at m a (unat sz)" and ?ys = "bytes_at m b (unat sz)"
  have len: "length ?xs = length ?ys" by (simp add: bytes_at_def)
  have r: "memcmp a b sz m = Inr (word_of_int (cmp_bytes ?xs ?ys))"
      "memcmp b a sz m = Inr (word_of_int (cmp_bytes ?ys ?xs))"
    using assms by (simp_all add: memcmp_def memcmp_loop_region)
  have z: "(word_of_int (cmp_bytes ?xs ?ys) :: u32) = 0 \<longleftrightarrow> ?xs = ?ys"
    using cmp_bytes_range [of ?xs ?ys] cmp_bytes_0_iff [OF len] by auto
  have first: "cmp_bytes ?xs ?ys = (if sint (byte_at m (a + of_nat k)) > sint (byte_at m (b + of_nat k)) then 1 else - 1)"
    if "k < unat sz" "bytes_at m a k = bytes_at m b k" "byte_at m (a + of_nat k) \<noteq> byte_at m (b + of_nat k)" for k
    using cmp_bytes_first [of k ?xs ?ys] that by (simp add: bytes_at_def take_map)
  show ?thesis
    using r z first cmp_bytes_swap [OF len] by (intro exI [of _ "word_of_int (cmp_bytes ?xs ?ys)"]) auto
qed

lemma memcmp_order_witness: "memcmp 0xc0005000 0xc0005001 1 demo_mem = Inr (- 1)"
proof -
  have "span 0xc0005000 (unat (1 :: u32)) \<subseteq> low_kernel" "span 0xc0005001 (unat (1 :: u32)) \<subseteq> low_kernel"
    by (rule span_low, simp)+
  moreover have "byte_at demo_mem 0xc0005000 = 65" "byte_at demo_mem 0xc0005001 = 66"
    by (simp_all add: demo_byte in_low_kernel)
  ultimately show ?thesis using memcmp_order [OF demo_region, of "0xc0005000" "0xc0005001" 1]
    by (auto simp: bytes_at_def)
qed

text \<open>C24: \<open>strcpy\<close> of a C string to a disjoint range with room for it returns the destination;
  afterwards the destination holds the same C string, \<open>strlen\<close> of it is the source's length
  and \<open>strcmp\<close> finds the two equal.\<close>

theorem strcpy_roundtrip:
  assumes "data_region m S" "cstr m S src s" "dst \<noteq> 0" "src \<noteq> 0" "span dst (Suc (length s)) \<subseteq> S"
    "span dst (Suc (length s)) \<inter> span src (Suc (length s)) = {}"
  shows "\<exists>m'. strcpy dst src m = Some (Inr (dst, m')) \<and> cstr m' S dst s
    \<and> strlen dst m' = Some (Inr (of_nat (length s))) \<and> strcmp dst src m' = Some (Inr 0)"
proof -
  obtain m' where m': "strcpy_loop dst src m = Some (Inr m')"
      "updates m S (span dst (Suc (length s))) (\<lambda>w. byte_at m (src + (w - dst))) m'"
    using strcpy_loop_cstr [OF assms(1,2,5,6)] by blast
  have dst: "cstr m' S dst s" by (rule updates_cstr [OF m'(2) assms(2,5)])
  have src: "cstr m' S src s" by (rule updates_cstr_other [OF m'(2) assms(2,6)])
  have R: "data_region m' S" using m'(2) by (rule updates_region)
  have "cmp_strings s s = 0" using assms(2) by (simp add: cmp_strings_0_iff cstr_iff)
  with assms(3,4) m'(1) dst show ?thesis
    by (auto simp: strcpy_def strcmp_def strlen_cstr [OF R dst] strcmp_loop_cstr [OF R dst src])
qed

lemma demo_cstr: "cstr demo_mem low_kernel 0xc0005000 [65, 66]" "cstr demo_mem low_kernel 0xc0006000 []"
  by (simp_all add: demo_byte in_low_kernel)

theorem strcpy_roundtrip_witness:
  "\<exists>m'. strcpy 0xc0006000 0xc0005000 demo_mem = Some (Inr (0xc0006000, m')) \<and> strlen 0xc0006000 m' = Some (Inr 2)"
proof -
  have "span 0xc0006000 (Suc (length [65 :: u8, 66])) \<subseteq> low_kernel" by (rule span_low) simp
  moreover have "span 0xc0006000 (Suc (length [65 :: u8, 66])) \<inter> span 0xc0005000 (Suc (length [65 :: u8, 66])) = {}"
    by (subst Int_commute) (rule span_disjoint, simp_all)
  ultimately show ?thesis
    using strcpy_roundtrip [OF demo_region demo_cstr(1), of "0xc0006000"] by auto
qed

text \<open>\<open>strcat\<close> of two C strings, the first with room for both, returns its first argument,
  which then points to the concatenation.\<close>

lemma strcat_appends:
  assumes "data_region m S" "cstr m S dst s" "cstr m S src t" "dst \<noteq> 0" "src \<noteq> 0"
    "span dst (length s + Suc (length t)) \<subseteq> S"
    "span dst (length s + Suc (length t)) \<inter> span src (Suc (length t)) = {}"
    "length s + Suc (length t) \<le> 4294967296"
  shows "\<exists>m'. strcat dst src m = Some (Inr (dst, m')) \<and> cstr m' S dst (s @ t)"
proof -
  let ?d = "dst + of_nat (length s)"
  have tail: "span ?d (Suc (length t)) \<subseteq> span dst (length s + Suc (length t))" by (rule span_tail)
  have d: "span ?d (Suc (length t)) \<subseteq> S" "span ?d (Suc (length t)) \<inter> span src (Suc (length t)) = {}"
    using tail assms(6,7) by blast+
  obtain m' where m': "strcpy_loop ?d src m = Some (Inr m')"
      "updates m S (span ?d (Suc (length t))) (\<lambda>w. byte_at m (src + (w - ?d))) m'"
    using strcpy_loop_cstr [OF assms(1,3) d] by blast
  have disj: "span dst (length s) \<inter> span ?d (Suc (length t)) = {}"
    by (rule span_split_disjoint [OF assms(8)])
  have pre: "span dst (length s) \<subseteq> S" "0 \<notin> set s" "bytes_at m dst (length s) = s"
    using cstr_append [of m S dst s "[]"] assms(2) by simp_all
  have "bytes_at m' dst (length s) = bytes_at m dst (length s)"
    by (rule bytes_at_cong, rule updates_byte_other [OF m'(2)]) (use disj pre(1) in auto)
  with pre updates_cstr [OF m'(2) assms(3) d(1)] have "cstr m' S dst (s @ t)"
    by (simp add: cstr_append)
  moreover have "strcat dst src m = Some (Inr (dst, m'))"
    using assms(4,5) m'(1) by (simp add: strcat_def past_nul_cstr [OF assms(1,2)])
  ultimately show ?thesis by blast
qed

lemma strcat_appends_witness:
  "\<exists>m'. strcat 0xc0006000 0xc0005000 demo_mem = Some (Inr (0xc0006000, m')) \<and> cstr m' low_kernel 0xc0006000 [65, 66]"
proof -
  have "span 0xc0006000 (length ([] :: u8 list) + Suc (length [65 :: u8, 66])) \<subseteq> low_kernel"
    by (rule span_low) simp
  moreover have "span 0xc0006000 (length ([] :: u8 list) + Suc (length [65 :: u8, 66]))
      \<inter> span 0xc0005000 (Suc (length [65 :: u8, 66])) = {}"
    by (subst Int_commute) (rule span_disjoint, simp_all)
  ultimately show ?thesis
    using strcat_appends [OF demo_region demo_cstr(2,1)] by auto
qed

text \<open>\<open>strcmp\<close> of two C strings returns, its answer is 0 exactly when the strings are equal,
  and swapping the arguments changes its sign.\<close>

lemma strcmp_order:
  assumes "data_region m S" "cstr m S a s" "cstr m S b t" "a \<noteq> 0" "b \<noteq> 0"
  shows "\<exists>r. strcmp a b m = Some (Inr r) \<and> strcmp b a m = Some (Inr (- r)) \<and> (r = 0 \<longleftrightarrow> s = t)"
proof -
  have "0 \<notin> set s" "0 \<notin> set t" using assms(2,3) by (simp_all add: cstr_iff)
  with assms show ?thesis
    by (simp add: strcmp_def strcmp_loop_cstr cmp_strings_0_iff cmp_strings_swap [of s t])
qed

lemma strcmp_order_witness:
  "\<exists>r. strcmp 0xc0005000 0xc0006000 demo_mem = Some (Inr r) \<and> r \<noteq> 0"
  using strcmp_order [OF demo_region demo_cstr] by auto

text \<open>On a C string, \<open>strchr\<close> returns the address of the first occurrence of a character,
  \<open>strrchr\<close> that of the last and \<open>strchrs\<close> their number, for the characters below \<open>0x80\<close>; a
  character from \<open>0x80\<close> on is never found, even where the string has it, since the string's
  bytes are compared as signed values.\<close>

lemma strchr_family:
  assumes "data_region m S" "cstr m S p s" "p \<noteq> 0"
  shows "(\<forall>xs ys. ch < 0x80 \<and> s = xs @ ch # ys \<and> ch \<notin> set xs \<longrightarrow> strchr p ch m = Some (Inr (p + of_nat (length xs))))
    \<and> (\<forall>xs ys. ch < 0x80 \<and> s = xs @ ch # ys \<and> ch \<notin> set ys \<longrightarrow> strrchr p ch m = Some (Inr (p + of_nat (length xs))))
    \<and> (ch < 0x80 \<longrightarrow> strchrs p ch m = Some (Inr (of_nat (count_list s ch))))
    \<and> (ch \<notin> set s \<or> 0x80 \<le> ch \<longrightarrow>
         strchr p ch m = Some (Inr 0) \<and> strrchr p ch m = Some (Inr 0) \<and> strchrs p ch m = Some (Inr 0))"
    (is "?first \<and> ?last \<and> ?count \<and> ?none")
proof (intro conjI)
  note loops = strchr_def strrchr_def strchrs_def strchr_loop_cstr [OF assms(1,2)]
    strrchr_loop_cstr [OF assms(1,2)] strchrs_loop_cstr [OF assms(1,2)] sint_eq_uint
  show ?first using assms(3) by (auto simp: loops takeWhile_tail)
  show ?last using assms(3) by (auto simp: loops takeWhile_tail)
  have "count_list s ch = length (filter (\<lambda>x. x = ch) s)" by (induction s) auto
  then show ?count using assms(3) by (simp add: loops)
  show ?none using assms(3) by (auto simp: loops filter_empty_conv not_less)
qed

lemma strchr_family_witness:
  "strchr 0xc0005000 66 demo_mem = Some (Inr 0xc0005001) \<and> strchrs 0xc0005000 0x80 demo_mem = Some (Inr 0)"
proof -
  have "[65, 66] = [65] @ (66 :: u8) # []" by simp
  then show ?thesis
    using strchr_family [OF demo_region demo_cstr(1), of 66] strchr_family [OF demo_region demo_cstr(1), of "0x80"]
    by fastforce
qed

end
