(* ===== verification/Kbitmap.thy ===== *)
theory Kbitmap
  imports Kstring
begin

text \<open>
  \<open>lib/kernel/bitmap.c\<close>: a bitmap is a byte array in memory, one bit per page.  A bit index is
  a \<open>uint32_t\<close>; \<open>bitmap_scan\<close> returns an \<open>int\<close>, with \<open>-1\<close> for failure.  The reads go through
  \<open>bits\<close> as the source writes them, including the two that may touch the byte after the last
  one: the byte loop tests \<open>bits[idx_byte]\<close> before it tests \<open>idx_byte\<close>, and the run loop looks
  at bit \<open>8 * btmp_bytes_len\<close>.  The lemmas describe the bitmap by the bits it shows
  (\<open>bm_bit\<close>) and abstract it to the set of its allocated indices (\<open>bm_used\<close>).
\<close>

section \<open>Definitions\<close>

record bitmap =
  btmp_bytes_len :: u32
  bits :: u32

definition BITMAP_MASK :: u32 where
  "BITMAP_MASK = 1"

definition bitmap_init :: "bitmap \<Rightarrow> mem \<Rightarrow> mem result" where
  "bitmap_init btmp m = memset (bits btmp) 0 (btmp_bytes_len btmp) m"

definition bitmap_scan_test :: "bitmap \<Rightarrow> u32 \<Rightarrow> mem \<Rightarrow> u32 result" where
  "bitmap_scan_test btmp bit_idx m =
     (let byte_idx = bit_idx div 8; bit_odd = bit_idx mod 8 in
      rbind (vread8 m (bits btmp + byte_idx)) (\<lambda>b.
        Inr (ucast b AND push_bit (unat bit_odd) BITMAP_MASK)))"

function scan_bytes :: "bitmap \<Rightarrow> u32 \<Rightarrow> mem \<Rightarrow> u32 result" where
  "scan_bytes btmp idx_byte m =
     rbind (vread8 m (bits btmp + idx_byte)) (\<lambda>b.
       if 0xff = b \<and> idx_byte < btmp_bytes_len btmp then scan_bytes btmp (idx_byte + 1) m
       else Inr idx_byte)"
  by pat_completeness auto
termination
  by (relation "measure (\<lambda>(btmp, i, m). unat (btmp_bytes_len btmp) - unat i)")
    (auto simp: unat_succ_lt word_less_nat_alt)

lemma shifted_out: "8 \<le> n \<Longrightarrow> (ucast (push_bit n (1 :: u32)) :: u8) = 0"
  by (rule bit_word_eqI) (auto simp: bit_simps)

function scan_bits :: "bitmap \<Rightarrow> u32 \<Rightarrow> u32 \<Rightarrow> mem \<Rightarrow> u32 result" where
  "scan_bits btmp idx_byte idx_bit m =
     rbind (vread8 m (bits btmp + idx_byte)) (\<lambda>b.
       if (ucast (push_bit (unat idx_bit) BITMAP_MASK) :: u8) AND b \<noteq> 0
       then scan_bits btmp idx_byte (idx_bit + 1) m
       else Inr idx_bit)"
  by pat_completeness auto
termination
proof (relation "measure (\<lambda>(btmp, i, k, m). 8 - unat k)", goal_cases)
  case (2 btmp idx_byte idx_bit m b)
  then have "unat idx_bit < 8"
    using shifted_out [of "unat idx_bit"] by (force simp: BITMAP_MASK_def)
  then have "idx_bit < 8" by (simp add: word_less_nat_alt)
  with \<open>unat idx_bit < 8\<close> show ?case by (simp add: unat_succ_lt)
qed simp

function scan_run :: "bitmap \<Rightarrow> u32 \<Rightarrow> u32 \<Rightarrow> u32 \<Rightarrow> u32 \<Rightarrow> mem \<Rightarrow> u32 result" where
  "scan_run btmp cnt bit_left next_bit count m =
     (if bit_left > 0
      then rbind (bitmap_scan_test btmp next_bit m) (\<lambda>t.
             let count' = (if t = 0 then count + 1 else 0) in
             if count' = cnt then Inr (next_bit - cnt + 1)
             else scan_run btmp cnt (bit_left - 1) (next_bit + 1) count' m)
      else Inr (- 1))"
  by pat_completeness auto
termination
  by (relation "measure (\<lambda>(btmp, cnt, bit_left, nb, count, m). unat bit_left)")
    (auto simp: unat_pred_less word_gt_0)

declare scan_bytes.simps [simp del] scan_bits.simps [simp del] scan_run.simps [simp del]

definition bitmap_scan :: "bitmap \<Rightarrow> u32 \<Rightarrow> mem \<Rightarrow> u32 result" where
  "bitmap_scan btmp cnt m =
     rbind (scan_bytes btmp 0 m) (\<lambda>idx_byte.
       if \<not> idx_byte < btmp_bytes_len btmp
       then Inl (Panic ''lib/kernel/bitmap.c'' 29 ''bitmap_scan'' ''idx_byte < btmp->btmp_bytes_len'')
       else if idx_byte = btmp_bytes_len btmp then Inr (- 1)
       else rbind (scan_bits btmp idx_byte 0 m) (\<lambda>idx_bit.
         let bit_idx_start = idx_byte * 8 + idx_bit in
         if cnt = 1 then Inr bit_idx_start
         else scan_run btmp cnt (btmp_bytes_len btmp * 8 - bit_idx_start) (bit_idx_start + 1) 1 m))"

definition bitmap_set :: "bitmap \<Rightarrow> u32 \<Rightarrow> u8 \<Rightarrow> mem \<Rightarrow> mem result" where
  "bitmap_set btmp bit_idx val m =
     (if \<not> (val = 0 \<or> val = 1)
      then Inl (Panic ''lib/kernel/bitmap.c'' 69 ''bitmap_set'' ''(value == 0) || (value == 1)'')
      else let byte_idx = bit_idx div 8; bit_odd = bit_idx mod 8;
               a = bits btmp + byte_idx in
        rbind (vread8 m a) (\<lambda>b.
          if val \<noteq> 0 then vwrite8 m a (ucast ((ucast b :: u32) OR push_bit (unat bit_odd) BITMAP_MASK))
          else vwrite8 m a (ucast ((ucast b :: u32) AND NOT (push_bit (unat bit_odd) BITMAP_MASK)))))"

section \<open>The bits of a bitmap\<close>

definition bm_addr :: "bitmap \<Rightarrow> nat \<Rightarrow> u32" where
  "bm_addr btmp i = bits btmp + of_nat (i div 8)"

definition bm_bit :: "mem \<Rightarrow> bitmap \<Rightarrow> nat \<Rightarrow> bool" where
  "bm_bit m btmp i = bit (byte_at m (bm_addr btmp i)) (i mod 8)"

definition bm_size :: "bitmap \<Rightarrow> nat" where
  "bm_size btmp = 8 * unat (btmp_bytes_len btmp)"

definition bm_used :: "mem \<Rightarrow> bitmap \<Rightarrow> nat set" where
  "bm_used m btmp = {i. i < bm_size btmp \<and> bm_bit m btmp i}"

text \<open>The bytes of the bitmap, and these with the byte after the last one.\<close>

definition bm_span :: "bitmap \<Rightarrow> u32 set" where
  "bm_span btmp = span (bits btmp) (unat (btmp_bytes_len btmp))"

definition bm_reach :: "bitmap \<Rightarrow> u32 set" where
  "bm_reach btmp = span (bits btmp) (Suc (unat (btmp_bytes_len btmp)))"

definition free_run :: "mem \<Rightarrow> bitmap \<Rightarrow> nat \<Rightarrow> nat \<Rightarrow> bool" where
  "free_run m btmp s n \<longleftrightarrow> (\<forall>i. s \<le> i \<and> i < s + n \<longrightarrow> \<not> bm_bit m btmp i)"

lemma free_run_1: "free_run m btmp s (Suc 0) \<longleftrightarrow> \<not> bm_bit m btmp s"
  by (auto simp: free_run_def less_Suc_eq_le dest: le_antisym)

lemma bm_reach_addr: "i < bm_size btmp + 8 \<Longrightarrow> bm_addr btmp i \<in> bm_reach btmp"
  unfolding bm_addr_def bm_reach_def bm_size_def by (rule span_I) simp

lemma bm_span_addr: "i < bm_size btmp \<Longrightarrow> bm_addr btmp i \<in> bm_span btmp"
  unfolding bm_addr_def bm_span_def bm_size_def by (rule span_I) simp

lemma bm_span_reach: "bm_span btmp \<subseteq> bm_reach btmp"
  unfolding bm_span_def bm_reach_def by (rule span_mono) simp

lemma bm_addr_word: "bits btmp + (w :: u32) div 8 = bm_addr btmp (unat w)"
proof -
  have "w div 8 = of_nat (unat w div 8)"
    by (simp add: word_unat_eq_iff unat_div unat_of_nat32 le_less_trans [OF div_le_dividend unat_u32_bound])
  then show ?thesis by (simp add: bm_addr_def)
qed

lemma unat_mod_8: "unat ((w :: u32) mod 8) = unat w mod 8"
  by (simp add: unat_mod)

lemma bitmap_scan_test_region:
  assumes "data_region m S" "bm_addr btmp (unat w) \<in> S"
  obtains t where "bitmap_scan_test btmp w m = Inr t" "t = 0 \<longleftrightarrow> \<not> bm_bit m btmp (unat w)"
proof -
  let ?t = "ucast (byte_at m (bm_addr btmp (unat w))) AND push_bit (unat w mod 8) (1 :: u32)"
  have "bitmap_scan_test btmp w m = Inr ?t"
    by (simp add: bitmap_scan_test_def bm_addr_word vm.rd_byte [OF assms] BITMAP_MASK_def unat_mod_8)
  moreover have "?t = 0 \<longleftrightarrow> \<not> bm_bit m btmp (unat w)"
    by (auto simp: and_exp_eq_0_iff_not_bit bm_bit_def bit_simps dest: bit_imp_le_length)
  ultimately show thesis by (rule that)
qed

section \<open>Setting a bit\<close>

lemma ucast_or_bit:
  "n < 8 \<Longrightarrow> (ucast ((ucast (b :: u8) :: u32) OR 2 ^ n) :: u8) = set_bit n b"
  by (rule bit_word_eqI) (auto simp: bit_simps)

lemma ucast_andnot_bit:
  "n < 8 \<Longrightarrow> (ucast ((ucast (b :: u8) :: u32) AND NOT (2 ^ n)) :: u8) = unset_bit n b"
  by (rule bit_word_eqI) (auto simp: bit_simps)

lemma bitmap_set_region:
  assumes R: "data_region m S" "bm_addr btmp (unat w) \<in> S" and val: "val = 0 \<or> val = 1"
  obtains m' where "bitmap_set btmp w val m = Inr m'"
    "updates m S {bm_addr btmp (unat w)}
       (\<lambda>a. if val = 1 then set_bit (unat w mod 8) (byte_at m a) else unset_bit (unat w mod 8) (byte_at m a)) m'"
proof -
  let ?a = "bm_addr btmp (unat w)"
  let ?b = "if val = 1 then set_bit (unat w mod 8) (byte_at m ?a) else unset_bit (unat w mod 8) (byte_at m ?a)"
  obtain m' where m': "vwrite8 m ?a ?b = Inr m'" "updates m S {?a} (\<lambda>_. ?b) m'"
    using R by (rule vwrite8_updates)
  have "bitmap_set btmp w val m = Inr m'"
    using val m'(1)
    by (auto simp: bitmap_set_def Let_def bm_addr_word vm.rd_byte [OF R] BITMAP_MASK_def unat_mod_8
      ucast_or_bit ucast_andnot_bit)
  moreover have "updates m S {?a}
       (\<lambda>a. if val = 1 then set_bit (unat w mod 8) (byte_at m a) else unset_bit (unat w mod 8) (byte_at m a)) m'"
    using m'(2) by (rule updates_cong) auto
  ultimately show thesis by (rule that)
qed

lemma bm_addr_eq_iff:
  assumes "i < bm_size btmp + 8" "j < bm_size btmp + 8" "bm_size btmp < 4294967296"
  shows "bm_addr btmp i = bm_addr btmp j \<longleftrightarrow> i div 8 = j div 8"
proof -
  have "i div 8 < 4294967296" "j div 8 < 4294967296" using assms by auto
  then have "(of_nat (i div 8) :: u32) = of_nat (j div 8) \<longleftrightarrow> i div 8 = j div 8"
    using unat_of_nat32 by metis
  then show ?thesis by (simp only: bm_addr_def add_left_cancel)
qed

lemma bm_bit_updates:
  assumes "updates m S {bm_addr btmp i}
       (\<lambda>a. if val = 1 then set_bit (i mod 8) (byte_at m a) else unset_bit (i mod 8) (byte_at m a)) m'"
    and "i < bm_size btmp + 8" "j < bm_size btmp + 8" "bm_size btmp < 4294967296" "bm_addr btmp j \<in> S"
  shows "bm_bit m' btmp j = (if j = i then val = (1 :: u8) else bm_bit m btmp j)"
proof (cases "i div 8 = j div 8")
  case True
  then have "j = i \<longleftrightarrow> j mod 8 = i mod 8" by (metis mod_div_mult_eq)
  moreover have "bm_addr btmp j = bm_addr btmp i" using True by (simp add: bm_addr_def)
  ultimately show ?thesis
    using updates_byte [OF assms(1,5)] by (auto simp: bm_bit_def bit_simps)
next
  case False
  then have "bm_addr btmp j \<noteq> bm_addr btmp i" "j \<noteq> i" using assms by (auto simp: bm_addr_eq_iff)
  then show ?thesis using updates_byte [OF assms(1,5)] by (simp add: bm_bit_def)
qed

text \<open>
  Setting a bit of a bitmap whose reach is in a data region: the bit gets the value, the
  others and everything outside the byte written stay.  The bit after the last one may be
  written too: \<open>vaddr_get\<close> does so when a run ends there.
\<close>

lemma bitmap_set_bits:
  assumes R: "data_region m S" "bm_reach btmp \<subseteq> S" and w: "unat w < bm_size btmp + 8"
    and len: "bm_size btmp + 8 < 4294967296" and val: "val = 0 \<or> val = (1 :: u8)"
  obtains m' f where "bitmap_set btmp w val m = Inr m'" "updates m S {bm_addr btmp (unat w)} f m'"
    "\<And>j. j < bm_size btmp + 8 \<Longrightarrow> bm_bit m' btmp j = (if j = unat w then val = 1 else bm_bit m btmp j)"
proof -
  have in_S: "bm_addr btmp j \<in> S" if "j < bm_size btmp + 8" for j
    using bm_reach_addr [OF that] R(2) by blast
  show thesis
  proof (rule bitmap_set_region [OF R(1) in_S [OF w] val])
    fix m'
    assume m': "bitmap_set btmp w val m = Inr m'" and u: "updates m S {bm_addr btmp (unat w)}
       (\<lambda>a. if val = 1 then set_bit (unat w mod 8) (byte_at m a) else unset_bit (unat w mod 8) (byte_at m a)) m'"
    have "bm_bit m' btmp j = (if j = unat w then val = 1 else bm_bit m btmp j)"
      if "j < bm_size btmp + 8" for j
      by (rule bm_bit_updates [OF u w that _ in_S [OF that]]) (use len in simp)
    with m' u show thesis by (rule that)
  qed
qed

section \<open>Scanning for free bits\<close>

lemma byte_full_iff: "(b :: u8) = 0xff \<longleftrightarrow> (\<forall>n<8. bit b n)"
proof -
  have ff: "(0xff :: u8) = mask 8" by (simp add: mask_eq_exp_minus_1)
  show ?thesis
  proof
    show "\<forall>n<8. bit b n" if "b = 0xff"
      unfolding that ff by (simp add: bit_mask_iff)
    show "b = 0xff" if "\<forall>n<8. bit b n"
      unfolding ff by (rule bit_word_eqI) (use that in \<open>simp add: bit_mask_iff\<close>)
  qed
qed

lemma bm_bit_byte: "n < 8 \<Longrightarrow> bm_bit m btmp (8 * k + n) = bit (byte_at m (bits btmp + of_nat k)) n"
  by (simp add: bm_bit_def bm_addr_def)

lemma scan_bytes_region:
  assumes R: "data_region m S" "bm_reach btmp \<subseteq> S" and i: "unat i \<le> unat (btmp_bytes_len btmp)"
  shows "\<exists>j. scan_bytes btmp i m = Inr j \<and> unat i \<le> unat j \<and> unat j \<le> unat (btmp_bytes_len btmp)
     \<and> (\<forall>k. unat i \<le> k \<and> k < unat j \<longrightarrow> byte_at m (bits btmp + of_nat k) = 0xff)
     \<and> (unat j < unat (btmp_bytes_len btmp) \<longrightarrow> byte_at m (bits btmp + j) \<noteq> 0xff)"
  using i
proof (induction "unat (btmp_bytes_len btmp) - unat i" arbitrary: i rule: less_induct)
  case less
  have "bits btmp + of_nat (unat i) \<in> bm_reach btmp"
    unfolding bm_reach_def using less.prems by (intro span_I) simp
  then have rd: "vread8 m (bits btmp + i) = Inr (byte_at m (bits btmp + i))"
    using vm.rd_byte [OF R(1)] R(2) by auto
  show ?case
  proof (cases "byte_at m (bits btmp + i) = 0xff \<and> i < btmp_bytes_len btmp")
    case True
    then have i1: "unat (i + 1) = Suc (unat i)" "unat i < unat (btmp_bytes_len btmp)"
      by (auto simp: unat_succ_lt simp flip: word_less_nat_alt)
    then have "unat (btmp_bytes_len btmp) - unat (i + 1) < unat (btmp_bytes_len btmp) - unat i" by arith
    with i1 obtain j where j: "scan_bytes btmp (i + 1) m = Inr j" "Suc (unat i) \<le> unat j"
        "unat j \<le> unat (btmp_bytes_len btmp)"
        "\<forall>k. Suc (unat i) \<le> k \<and> k < unat j \<longrightarrow> byte_at m (bits btmp + of_nat k) = 0xff"
        "unat j < unat (btmp_bytes_len btmp) \<longrightarrow> byte_at m (bits btmp + j) \<noteq> 0xff"
      using less.hyps [of "i + 1"] by auto
    have "byte_at m (bits btmp + of_nat k) = 0xff" if "unat i \<le> k" "k < unat j" for k
      using that j(4) True by (cases "k = unat i") auto
    moreover have "scan_bytes btmp i m = Inr j"
      using True j(1) by (subst scan_bytes.simps) (simp add: rd)
    ultimately show ?thesis using j by auto
  next
    case False
    then have "scan_bytes btmp i m = Inr i" by (subst scan_bytes.simps) (auto simp: rd)
    with False less.prems show ?thesis by (auto simp: word_less_nat_alt)
  qed
qed

lemma mask_bit_set: "((ucast (push_bit n BITMAP_MASK) :: u8) AND b \<noteq> 0) \<longleftrightarrow> n < 8 \<and> bit b n"
proof (cases "n < 8")
  case True
  then have "(ucast (push_bit n BITMAP_MASK) :: u8) = 2 ^ n"
    by (intro bit_word_eqI) (auto simp: BITMAP_MASK_def bit_simps)
  with True show ?thesis by (simp add: and_exp_eq_0_iff_not_bit and.commute)
next
  case False
  then show ?thesis using shifted_out [of n] by (simp add: BITMAP_MASK_def)
qed

lemma scan_bits_region:
  assumes rd: "vread8 m (bits btmp + i) = Inr b" and k: "unat k \<le> 8"
  shows "\<exists>r. scan_bits btmp i k m = Inr r \<and> unat k \<le> unat r \<and> \<not> bit b (unat r)
     \<and> (\<forall>n. unat k \<le> n \<and> n < unat r \<longrightarrow> bit b n)"
  using k
proof (induction "8 - unat k" arbitrary: k rule: less_induct)
  case less
  show ?case
  proof (cases "bit b (unat k)")
    case True
    then have "unat k < 8" using bit_imp_le_length [of b "unat k"] by simp
    then have k1: "unat (k + 1) = Suc (unat k)"
      using unat_succ_lt [of k 8] by (simp add: word_less_nat_alt)
    have "8 - unat (k + 1) < 8 - unat k" using \<open>unat k < 8\<close> k1 by arith
    then obtain r where r: "scan_bits btmp i (k + 1) m = Inr r" "Suc (unat k) \<le> unat r" "\<not> bit b (unat r)"
        "\<forall>n. Suc (unat k) \<le> n \<and> n < unat r \<longrightarrow> bit b n"
      using less.hyps [of "k + 1"] \<open>unat k < 8\<close> k1 by auto
    have "bit b n" if "unat k \<le> n" "n < unat r" for n
      using that r(4) True by (cases "n = unat k") auto
    moreover have "scan_bits btmp i k m = Inr r"
      using True r(1) \<open>unat k < 8\<close> by (subst scan_bits.simps) (simp add: rd mask_bit_set)
    ultimately show ?thesis using r by auto
  next
    case False
    then have "scan_bits btmp i k m = Inr k" by (subst scan_bits.simps) (simp add: rd mask_bit_set)
    with False show ?thesis by auto
  qed
qed

lemma scan_first_free:
  assumes R: "data_region m S" "bm_reach btmp \<subseteq> S" and len: "bm_size btmp < 4294967296"
  shows "\<exists>j. scan_bytes btmp 0 m = Inr j \<and>
     (if \<forall>i < bm_size btmp. bm_bit m btmp i then j = btmp_bytes_len btmp
      else j < btmp_bytes_len btmp \<and>
        (\<exists>r i0. scan_bits btmp j 0 m = Inr r \<and> j * 8 + r = of_nat i0 \<and> i0 < bm_size btmp
           \<and> \<not> bm_bit m btmp i0 \<and> (\<forall>i<i0. bm_bit m btmp i)))"
proof -
  obtain j where j: "scan_bytes btmp 0 m = Inr j" "unat j \<le> unat (btmp_bytes_len btmp)"
      "\<forall>k < unat j. byte_at m (bits btmp + of_nat k) = 0xff"
      "unat j < unat (btmp_bytes_len btmp) \<longrightarrow> byte_at m (bits btmp + j) \<noteq> 0xff"
    using scan_bytes_region [OF R, of 0] by auto
  have full: "bm_bit m btmp i" if "i < 8 * unat j" for i
    using that j(3) bm_bit_byte [of "i mod 8" m btmp "i div 8"] by (simp add: byte_full_iff)
  show ?thesis
  proof (cases "unat j = unat (btmp_bytes_len btmp)")
    case True
    with full have "\<forall>i < bm_size btmp. bm_bit m btmp i" by (simp add: bm_size_def)
    with True j(1) show ?thesis by (auto simp flip: word_unat_eq_iff)
  next
    case False
    with j have lt: "unat j < unat (btmp_bytes_len btmp)" by simp
    let ?b = "byte_at m (bits btmp + j)"
    have "bits btmp + of_nat (unat j) \<in> S"
      using R(2) lt unfolding bm_reach_def by (meson less_SucI span_I subset_eq)
    then have rd: "vread8 m (bits btmp + j) = Inr ?b" using vm.rd_byte [OF R(1)] by simp
    obtain r where r: "scan_bits btmp j 0 m = Inr r" "\<not> bit ?b (unat r)" "\<forall>n < unat r. bit ?b n"
      using scan_bits_region [OF rd, of 0] by auto
    obtain n where n: "n < 8" "\<not> bit ?b n" using j(4) lt by (auto simp: byte_full_iff)
    with r have "unat r < 8" by (meson leD le_less_trans not_le_imp_less)
    let ?i = "8 * unat j + unat r"
    have i: "?i < bm_size btmp" using lt \<open>unat r < 8\<close> by (simp add: bm_size_def)
    have "\<not> bm_bit m btmp ?i" using bm_bit_byte [OF \<open>unat r < 8\<close>] r(2) by simp
    moreover have "bm_bit m btmp i" if "i < ?i" for i
    proof (cases "i < 8 * unat j")
      case False
      then have "i = 8 * unat j + (i - 8 * unat j)" "i - 8 * unat j < unat r" using that by auto
      then show ?thesis using bm_bit_byte [of "i - 8 * unat j" m btmp "unat j"] r(3) \<open>unat r < 8\<close> by simp
    qed (rule full)
    moreover have "j * 8 + r = of_nat ?i" by simp
    ultimately have "\<exists>i0. j * 8 + r = of_nat i0 \<and> i0 < bm_size btmp \<and> \<not> bm_bit m btmp i0
        \<and> (\<forall>i<i0. bm_bit m btmp i)"
      using i by blast
    moreover have "\<not> (\<forall>i < bm_size btmp. bm_bit m btmp i)" using calculation by blast
    ultimately show ?thesis using lt r(1) j(1) by (auto simp: word_less_nat_alt)
  qed
qed

text \<open>\<open>run_before m btmp n c\<close>: exactly the last \<open>c\<close> bits before bit \<open>n\<close> are free.\<close>

definition run_before :: "mem \<Rightarrow> bitmap \<Rightarrow> nat \<Rightarrow> nat \<Rightarrow> bool" where
  "run_before m btmp n c \<longleftrightarrow> c \<le> n \<and> free_run m btmp (n - c) c \<and> (c < n \<longrightarrow> bm_bit m btmp (n - c - 1))"

lemma run_before_Suc:
  assumes "run_before m btmp n c"
  shows "run_before m btmp (Suc n) (if bm_bit m btmp n then 0 else Suc c)"
proof (cases "bm_bit m btmp n")
  case False
  have "free_run m btmp (n - c) (Suc c)"
    using assms False unfolding run_before_def free_run_def by (auto simp: less_Suc_eq)
  with assms False show ?thesis by (simp add: run_before_def)
qed (auto simp: run_before_def free_run_def)

lemma run_before_none:
  assumes "run_before m btmp n c" "c < k" "s + k = n"
  shows "\<not> free_run m btmp s k"
proof -
  have "bm_bit m btmp (n - c - 1)" using assms by (auto simp: run_before_def)
  moreover have "s \<le> n - c - 1" "n - c - 1 < s + k" using assms by auto
  ultimately show ?thesis unfolding free_run_def by blast
qed

text \<open>What a search for \<open>k\<close> free bits reports when it has looked at the bits below \<open>n\<close>.\<close>

definition scan_answer :: "mem \<Rightarrow> bitmap \<Rightarrow> nat \<Rightarrow> nat \<Rightarrow> u32 \<Rightarrow> bool" where
  "scan_answer m btmp k n r \<longleftrightarrow>
     (r = - 1 \<and> (\<forall>s. s + k \<le> n \<longrightarrow> \<not> free_run m btmp s k))
   \<or> (\<exists>s. r = of_nat s \<and> s + k \<le> n \<and> free_run m btmp s k \<and> (\<forall>t < s. \<not> free_run m btmp t k))"

lemma scan_answer_least:
  assumes "scan_answer m btmp k n r"
  shows "if \<exists>s. s + k \<le> n \<and> free_run m btmp s k
    then r = of_nat (LEAST s. s + k \<le> n \<and> free_run m btmp s k) else r = - 1"
  using assms unfolding scan_answer_def
proof
  assume "\<exists>s. r = of_nat s \<and> s + k \<le> n \<and> free_run m btmp s k \<and> (\<forall>t < s. \<not> free_run m btmp t k)"
  then obtain s where s: "r = of_nat s" "s + k \<le> n \<and> free_run m btmp s k" "\<forall>t < s. \<not> free_run m btmp t k"
    by blast
  have "(LEAST s. s + k \<le> n \<and> free_run m btmp s k) = s"
    using s(2,3) by (intro Least_equality) (auto simp: not_less [symmetric])
  with s show ?thesis by auto
qed auto

lemma scan_run_region:
  assumes R: "data_region m S" "bm_reach btmp \<subseteq> S" and len: "bm_size btmp + 8 < 4294967296"
    and left: "unat next_bit + unat bit_left = Suc (bm_size btmp)"
    and run: "run_before m btmp (unat next_bit) (unat count)" and count: "unat count < unat cnt"
    and none: "\<forall>s. s + unat cnt \<le> unat next_bit \<longrightarrow> \<not> free_run m btmp s (unat cnt)"
  shows "\<exists>r. scan_run btmp cnt bit_left next_bit count m = Inr r
    \<and> scan_answer m btmp (unat cnt) (Suc (bm_size btmp)) r"
  using left run count none
proof (induction "unat bit_left" arbitrary: bit_left next_bit count)
  case 0
  then have "bit_left = 0" by (simp add: unat_0_iff)
  with 0 show ?case by (subst scan_run.simps) (simp add: scan_answer_def)
next
  case (Suc left)
  let ?n = "unat next_bit" and ?c = "if bm_bit m btmp (unat next_bit) then 0 else Suc (unat count)"
  have left: "bit_left > 0" "unat (bit_left - 1) = left"
    using Suc.hyps(2) unat_pred [of bit_left] unat_0_iff [of bit_left] by (auto simp: word_gt_0)
  have n: "?n \<le> bm_size btmp" using Suc.hyps(2) Suc.prems(1) by simp
  then have n1: "unat (next_bit + 1) = Suc ?n"
    using len unat_add_no_wrap [of next_bit 1] by simp
  have c1: "unat (count + 1) = Suc (unat count)"
    using Suc.prems(3) unat_u32_bound [of cnt] unat_add_no_wrap [of count 1] by simp
  have "bm_addr btmp ?n \<in> S" using bm_reach_addr [of ?n btmp] n R(2) by auto
  from bitmap_scan_test_region [OF R(1) this] obtain t where
    t: "bitmap_scan_test btmp next_bit m = Inr t" "t = 0 \<longleftrightarrow> \<not> bm_bit m btmp ?n" .
  define count' where "count' = (if t = 0 then count + 1 else 0)"
  have c': "unat count' = ?c" using t(2) c1 by (simp add: count'_def)
  have run': "run_before m btmp (Suc ?n) (unat count')"
    using run_before_Suc [OF Suc.prems(2)] c' by simp
  have step: "scan_run btmp cnt bit_left next_bit count m =
      (if count' = cnt then Inr (next_bit - cnt + 1)
       else scan_run btmp cnt (bit_left - 1) (next_bit + 1) count' m)"
    using left by (subst scan_run.simps) (simp add: t(1) count'_def)
  show ?case
  proof (cases "count' = cnt")
    case True
    let ?s = "Suc ?n - unat cnt"
    have c: "unat cnt \<le> Suc ?n" "free_run m btmp ?s (unat cnt)"
      using run' True by (auto simp: run_before_def)
    have "next_bit - cnt + 1 = of_nat ?s"
      using c(1) by (simp add: of_nat_diff)
    moreover have "\<not> free_run m btmp s' (unat cnt)" if "s' < ?s" for s'
      using Suc.prems(4) that by auto
    ultimately have "scan_answer m btmp (unat cnt) (Suc (bm_size btmp)) (next_bit - cnt + 1)"
      unfolding scan_answer_def using c n by (intro disjI2 exI [of _ ?s]) auto
    with True step show ?thesis by simp
  next
    case False
    then have lt: "unat count' < unat cnt"
      using Suc.prems(3) c' by (auto simp: word_unat_eq_iff)
    have none: "\<forall>s. s + unat cnt \<le> unat (next_bit + 1) \<longrightarrow> \<not> free_run m btmp s (unat cnt)"
      using Suc.prems(4) run_before_none [OF run' lt] by (auto simp: n1 le_Suc_eq)
    have "unat (next_bit + 1) + unat (bit_left - 1) = Suc (bm_size btmp)"
      using Suc.prems(1) Suc.hyps(2) n1 left(2) by simp
    from Suc.hyps(1) [OF left(2) [symmetric] this _ lt none] run' n1 False step show ?thesis by simp
  qed
qed

text \<open>
  The whole of \<open>bitmap_scan\<close>: it panics on a full bitmap; otherwise it answers with the first
  run of \<open>cnt\<close> free bits among the bits of the bitmap and the one bit after them.
\<close>

lemma bitmap_scan_region:
  assumes R: "data_region m S" "bm_reach btmp \<subseteq> S" and len: "bm_size btmp + 8 < 4294967296"
    and cnt: "cnt \<noteq> 0"
  shows "if \<forall>i < bm_size btmp. bm_bit m btmp i
    then bitmap_scan btmp cnt m =
      Inl (Panic ''lib/kernel/bitmap.c'' 29 ''bitmap_scan'' ''idx_byte < btmp->btmp_bytes_len'')
    else \<exists>r. bitmap_scan btmp cnt m = Inr r \<and> scan_answer m btmp (unat cnt)
      (if cnt = 1 then bm_size btmp else Suc (bm_size btmp)) r"
proof -
  have len': "bm_size btmp < 4294967296" using len by simp
  obtain j where j: "scan_bytes btmp 0 m = Inr j" "if \<forall>i < bm_size btmp. bm_bit m btmp i
      then j = btmp_bytes_len btmp else j < btmp_bytes_len btmp \<and>
        (\<exists>r i0. scan_bits btmp j 0 m = Inr r \<and> j * 8 + r = of_nat i0 \<and> i0 < bm_size btmp
           \<and> \<not> bm_bit m btmp i0 \<and> (\<forall>i<i0. bm_bit m btmp i))"
    using scan_first_free [OF R len'] by blast
  show ?thesis
  proof (cases "\<forall>i < bm_size btmp. bm_bit m btmp i")
    case True
    with j show ?thesis by (simp add: bitmap_scan_def)
  next
    case False
    with j(2) obtain r i0 where r: "j < btmp_bytes_len btmp" "scan_bits btmp j 0 m = Inr r"
        "j * 8 + r = of_nat i0" "i0 < bm_size btmp" "\<not> bm_bit m btmp i0" "\<forall>i<i0. bm_bit m btmp i"
      by (simp only: if_False) blast
    have scan: "bitmap_scan btmp cnt m = (if cnt = 1 then Inr (of_nat i0)
        else scan_run btmp cnt (btmp_bytes_len btmp * 8 - of_nat i0) (of_nat i0 + 1) 1 m)"
      using r(1-3) j(1) by (auto simp: bitmap_scan_def Let_def)
    show ?thesis
    proof (cases "cnt = 1")
      case True
      have "free_run m btmp i0 1" using r(5) by (auto simp: free_run_def less_Suc_eq)
      moreover have "\<not> free_run m btmp s 1" if "s < i0" for s
        using r(6) that by (auto simp: free_run_def)
      ultimately have "scan_answer m btmp 1 (bm_size btmp) (of_nat i0)"
        using r(4) by (auto simp: scan_answer_def intro!: exI [of _ i0])
      with True scan False show ?thesis by simp
    next
      case ne: False
      have n1: "unat (of_nat i0 + 1 :: u32) = Suc i0"
        using len r(4) unat_of_nat32 [of "Suc i0"] by (simp add: add.commute)
      have bl: "btmp_bytes_len btmp * 8 - of_nat i0 = of_nat (bm_size btmp - i0)"
        using r(4) by (simp add: bm_size_def of_nat_diff)
      have "unat (btmp_bytes_len btmp * 8 - of_nat i0) = bm_size btmp - i0"
        unfolding bl by (rule unat_of_nat32) (use len in simp)
      then have left: "unat (of_nat i0 + 1 :: u32) + unat (btmp_bytes_len btmp * 8 - of_nat i0) = Suc (bm_size btmp)"
        using r(4) n1 by simp
      have c: "1 < unat cnt" using cnt ne by (metis One_nat_def less_one linorder_neqE_nat unat_0_iff unat_1 word_unat_eq_iff)
      have run: "run_before m btmp (unat (of_nat i0 + 1 :: u32)) (unat (1 :: u32))"
        using r(5,6) n1 by (auto simp: run_before_def free_run_def less_Suc_eq)
      have none: "\<forall>s. s + unat cnt \<le> unat (of_nat i0 + 1 :: u32) \<longrightarrow> \<not> free_run m btmp s (unat cnt)"
      proof (intro allI impI)
        fix s assume "s + unat cnt \<le> unat (of_nat i0 + 1 :: u32)"
        with c n1 have "s < i0" "0 < unat cnt" by auto
        with r(6) show "\<not> free_run m btmp s (unat cnt)" unfolding free_run_def by auto
      qed
      from scan_run_region [OF R len left run _ none] c ne scan False show ?thesis by auto
    qed
  qed
qed

section \<open>Clearing a bitmap\<close>

lemma bitmap_init_region:
  assumes R: "data_region m S" "bm_span btmp \<subseteq> S" and "bits btmp \<noteq> 0"
  obtains m' where "bitmap_init btmp m = Inr m'" "updates m S (bm_span btmp) (\<lambda>_. 0) m'" "bm_used m' btmp = {}"
proof -
  obtain m' where m': "bitmap_init btmp m = Inr m'" "updates m S (bm_span btmp) (\<lambda>_. 0) m'"
    using memset_loop_region [OF R(1), of "bits btmp" "btmp_bytes_len btmp" 0] R(2) assms(3)
    by (auto simp: bitmap_init_def memset_def bm_span_def)
  have "\<not> bm_bit m' btmp i" if "i < bm_size btmp" for i
    using updates_byte [OF m'(2)] bm_span_addr [OF that] R(2) by (auto simp: bm_bit_def)
  then have "bm_used m' btmp = {}" by (auto simp: bm_used_def)
  with m' show thesis by (rule that)
qed

lemma bm_used_updates_other:
  assumes "updates m S D f m'" "bm_span btmp \<subseteq> S" "bm_span btmp \<inter> D = {}"
  shows "bm_used m' btmp = bm_used m btmp"
proof -
  have "bm_bit m' btmp i = bm_bit m btmp i" if "i < bm_size btmp" for i
  proof -
    have "bm_addr btmp i \<in> S" "bm_addr btmp i \<notin> D" using bm_span_addr [OF that] assms(2,3) by blast+
    then show ?thesis by (simp add: bm_bit_def updates_byte_other [OF assms(1)])
  qed
  then show ?thesis by (auto simp: bm_used_def)
qed

section \<open>Properties\<close>

text \<open>C5: \<open>bitmap_scan\<close> on a bitmap with a free bit returns the index of the first run of
  \<open>cnt\<close> free bits, or -1 when there is none.  For one bit it searches the bitmap; for more it
  also looks at the one bit after the bitmap, so that a run may end there.\<close>

theorem bitmap_scan_first_run:
  assumes "data_region m S" "bm_reach btmp \<subseteq> S" "bm_size btmp + 8 < 4294967296" "cnt \<noteq> 0"
    and "bm_used m btmp \<noteq> {..<bm_size btmp}"
  shows "\<exists>r. bitmap_scan btmp cnt m = Inr r \<and>
    (let n = (if cnt = 1 then bm_size btmp else Suc (bm_size btmp)) in
       (if \<exists>s. s + unat cnt \<le> n \<and> free_run m btmp s (unat cnt)
        then r = of_nat (LEAST s. s + unat cnt \<le> n \<and> free_run m btmp s (unat cnt)) else r = - 1))"
proof -
  let ?n = "if cnt = 1 then bm_size btmp else Suc (bm_size btmp)"
  have "\<not> (\<forall>i < bm_size btmp. bm_bit m btmp i)" using assms(5) by (auto simp: bm_used_def)
  with bitmap_scan_region [OF assms(1-4)] obtain r where
    r: "bitmap_scan btmp cnt m = Inr r" "scan_answer m btmp (unat cnt) ?n r" by auto
  have "if \<exists>s. s + unat cnt \<le> ?n \<and> free_run m btmp s (unat cnt)
      then r = of_nat (LEAST s. s + unat cnt \<le> ?n \<and> free_run m btmp s (unat cnt)) else r = - 1"
    using r(2) by (rule scan_answer_least)
  with r(1) show ?thesis by (auto simp: Let_def)
qed

theorem bitmap_scan_first_run_witness:
  "bitmap_scan \<lparr>btmp_bytes_len = 1, bits = 0xc0005000\<rparr> 3 demo_mem = Inr 1"
proof -
  let ?b = "\<lparr>btmp_bytes_len = 1, bits = 0xc0005000\<rparr>"
  have bit: "bm_bit demo_mem ?b i = (i = 0 \<or> i = 6)" if "i < 8" for i
  proof -
    have "bm_bit demo_mem ?b i = bit (65 :: u8) i" using that
      by (simp add: bm_bit_def bm_addr_def demo_byte in_low_kernel)
    moreover have "i \<in> {0, 1, 2, 3, 4, 5, 6, 7}" using that by auto
    ultimately show ?thesis by auto
  qed
  have free: "free_run demo_mem ?b 1 3" using bit by (simp add: free_run_def)
  let ?P = "\<lambda>s. s + unat (3 :: u32) \<le> Suc (bm_size ?b) \<and> free_run demo_mem ?b s (unat (3 :: u32))"
  have one: "?P 1" using free by (simp add: bm_size_def)
  have least: "Least ?P = 1"
    using one bit [of 0] by (intro Least_equality) (auto simp: free_run_def Suc_le_eq intro!: gr0I)
  have reach: "bm_reach ?b \<subseteq> low_kernel" unfolding bm_reach_def by (rule span_low) simp
  have "1 \<notin> bm_used demo_mem ?b" "1 \<in> {..<bm_size ?b}" using bit [of 1] by (simp_all add: bm_used_def bm_size_def)
  then have used: "bm_used demo_mem ?b \<noteq> {..<bm_size ?b}" by blast
  have len: "bm_size ?b + 8 < 4294967296" by (simp add: bm_size_def)
  from bitmap_scan_first_run [OF demo_region reach len, of 3, OF _ used]
  obtain r where "bitmap_scan ?b 3 demo_mem = Inr r" "if \<exists>s. ?P s then r = of_nat (Least ?P) else r = - 1"
    by (auto simp only: Let_def if_False) auto
  moreover have "\<exists>s. ?P s" using one by (rule exI)
  ultimately show ?thesis unfolding least by simp
qed

text \<open>\<open>bitmap_scan\<close> on a bitmap with no free bit panics at its \<open>ASSERT\<close>: the failure value
  -1 that its next statement returns for this case is never reached.\<close>

lemma bitmap_scan_full:
  assumes "data_region m S" "bm_reach btmp \<subseteq> S" "bm_size btmp + 8 < 4294967296" "cnt \<noteq> 0"
    and "bm_used m btmp = {..<bm_size btmp}"
  shows "bitmap_scan btmp cnt m =
    Inl (Panic ''lib/kernel/bitmap.c'' 29 ''bitmap_scan'' ''idx_byte < btmp->btmp_bytes_len'')"
proof -
  have "\<forall>i < bm_size btmp. bm_bit m btmp i" using assms(5) by (auto simp: bm_used_def)
  with bitmap_scan_region [OF assms(1-4)] show ?thesis by simp
qed

lemma bitmap_scan_full_witness:
  "bitmap_scan \<lparr>btmp_bytes_len = 0, bits = 0xc0005000\<rparr> 1 demo_mem =
    Inl (Panic ''lib/kernel/bitmap.c'' 29 ''bitmap_scan'' ''idx_byte < btmp->btmp_bytes_len'')"
proof -
  let ?b = "\<lparr>btmp_bytes_len = 0, bits = 0xc0005000\<rparr>"
  have "bm_reach ?b \<subseteq> low_kernel" unfolding bm_reach_def by (rule span_low) simp
  moreover have "bm_used demo_mem ?b = {..<bm_size ?b}" by (auto simp: bm_used_def bm_size_def)
  ultimately show ?thesis
    using bitmap_scan_full [OF demo_region, of ?b 1] by (simp add: bm_size_def)
qed

text \<open>Setting a bit with \<open>bitmap_set\<close> and reading any bit back with \<open>bitmap_scan_test\<close>: the
  bit that was set shows the value, every other bit of the bitmap shows what it showed
  before; a value other than 0 and 1 is a panic.\<close>

lemma bitmap_set_test:
  assumes "data_region m S" "bm_reach btmp \<subseteq> S" "bm_size btmp + 8 < 4294967296"
    "unat w < bm_size btmp" "unat v < bm_size btmp"
  shows "if val = 0 \<or> val = 1
    then \<exists>m' t t'. bitmap_set btmp w val m = Inr m' \<and> bitmap_scan_test btmp v m = Inr t
       \<and> bitmap_scan_test btmp v m' = Inr t' \<and> (t' \<noteq> 0 \<longleftrightarrow> (if v = w then val = 1 else t \<noteq> 0))
    else bitmap_set btmp w val m =
       Inl (Panic ''lib/kernel/bitmap.c'' 69 ''bitmap_set'' ''(value == 0) || (value == 1)'')"
proof (cases "val = 0 \<or> val = 1")
  case True
  have w: "unat w < bm_size btmp + 8" using assms(4) by simp
  obtain m' f where m': "bitmap_set btmp w val m = Inr m'" "updates m S {bm_addr btmp (unat w)} f m'"
      "\<And>j. j < bm_size btmp + 8 \<Longrightarrow> bm_bit m' btmp j = (if j = unat w then val = 1 else bm_bit m btmp j)"
    using bitmap_set_bits [OF assms(1,2) w assms(3) True] by blast
  have a: "bm_addr btmp (unat v) \<in> S" using bm_reach_addr [of "unat v"] assms(2,5) by auto
  obtain t where t: "bitmap_scan_test btmp v m = Inr t" "t = 0 \<longleftrightarrow> \<not> bm_bit m btmp (unat v)"
    using assms(1) a by (rule bitmap_scan_test_region)
  obtain t' where t': "bitmap_scan_test btmp v m' = Inr t'" "t' = 0 \<longleftrightarrow> \<not> bm_bit m' btmp (unat v)"
    using updates_region [OF m'(2)] a by (rule bitmap_scan_test_region)
  have "t' \<noteq> 0 \<longleftrightarrow> (if v = w then val = 1 else t \<noteq> 0)"
    using t(2) t'(2) m'(3) [of "unat v"] assms(5) by (simp add: word_unat_eq_iff [of v w])
  with True m'(1) t(1) t'(1) show ?thesis by auto
qed (simp add: bitmap_set_def)

lemma bitmap_set_test_witness:
  "\<exists>m' t. bitmap_set \<lparr>btmp_bytes_len = 1, bits = 0xc0005000\<rparr> 1 1 demo_mem = Inr m'
     \<and> bitmap_scan_test \<lparr>btmp_bytes_len = 1, bits = 0xc0005000\<rparr> 1 m' = Inr t \<and> t \<noteq> 0"
proof -
  let ?b = "\<lparr>btmp_bytes_len = 1, bits = 0xc0005000\<rparr>"
  have "bm_reach ?b \<subseteq> low_kernel" unfolding bm_reach_def by (rule span_low) simp
  then show ?thesis
    using bitmap_set_test [OF demo_region, of ?b 1 1 1] by (auto simp: bm_size_def)
qed

end
