(* ===== verification/Machine.thy ===== *)
theory Machine
  imports Kbitmap Page_Tables
begin

text \<open>
  The state of the kernel of \<open>os-elephant\<close>: physical memory, the C globals of
  \<open>kernel/memory.c\<close> and \<open>kernel/interrupt.c\<close>, the processor's \<open>eflags\<close> and interrupt
  descriptor table register, the trace of port writes (\<open>outb\<close> of \<open>lib/kernel/io.h\<close>) and
  the text sent to the console.  The C globals are fields of their own, beside the memory:
  the bitmaps, whose place in memory the code computes, are in memory.  \<open>put_char\<close> appends
  to the console text; \<open>put_str\<close> and \<open>put_int\<close> are the loops of \<open>lib/kernel/print.S\<close> over it.
\<close>

section \<open>Structures\<close>

record pool =
  pool_bitmap :: bitmap
  phy_addr_start :: u32
  pool_size :: u32

record virtual_addr =
  vaddr_bitmap :: bitmap
  vaddr_start :: u32

record gate_desc =
  func_offset_low_word :: u16
  selector :: u16
  dcount :: u8
  attribute :: u8
  func_offset_high_word :: u16

datatype intr_status = INTR_OFF | INTR_ON

text \<open>The handlers an entry of \<open>idt_table\<close> may hold: none yet, or the one the code registers.\<close>

datatype intr_handler = NULL_handler | General_intr_handler

record machine =
  pmem :: mem
  kernel_pool :: pool
  user_pool :: pool
  kernel_vaddr :: virtual_addr
  eflags :: u32
  idt :: "gate_desc list"
  intr_name :: "string list"
  idt_table :: "intr_handler list"
  idtr :: u64
  ports :: "(u16 \<times> u8) list"
  console :: string

section \<open>Ports and console\<close>

definition outb :: "u16 \<Rightarrow> u8 \<Rightarrow> machine \<Rightarrow> machine" where
  "outb port data s = s\<lparr>ports := ports s @ [(port, data)]\<rparr>"

definition put_char :: "char \<Rightarrow> machine \<Rightarrow> machine" where
  "put_char c s = s\<lparr>console := console s @ [c]\<rparr>"

primrec put_str :: "string \<Rightarrow> machine \<Rightarrow> machine" where
  "put_str [] s = s"
| "put_str (c # cs) s = put_str cs (put_char c s)"

text \<open>\<open>put_int\<close>: eight hexadecimal digits into a buffer, lowest first; the leading zeros are
  skipped, and zero is printed as one digit.\<close>

definition hex_char :: "u32 \<Rightarrow> char" where
  "hex_char edx = (if 9 < edx then char_of (unat (edx - 10 + 65)) else char_of (unat (edx + 48)))"

primrec based_4bits :: "nat \<Rightarrow> u32 \<Rightarrow> string \<Rightarrow> string" where
  "based_4bits 0 eax buffer = buffer"
| "based_4bits (Suc ecx) eax buffer = based_4bits ecx (drop_bit 4 eax) (hex_char (eax AND 0xF) # buffer)"

definition put_int :: "u32 \<Rightarrow> machine \<Rightarrow> machine" where
  "put_int num s =
     (case dropWhile (\<lambda>c. c = CHR ''0'') (based_4bits 8 num []) of
        [] \<Rightarrow> put_char (CHR ''0'') s
      | d # ds \<Rightarrow> put_str (d # ds) s)"

lemma put_str_console: "put_str cs s = s\<lparr>console := console s @ cs\<rparr>"
  by (induction cs arbitrary: s) (simp_all add: put_char_def)

lemma put_int_console:
  "\<exists>ds. put_int num s = s\<lparr>console := console s @ ds\<rparr>"
  by (auto simp: put_int_def put_str_console put_char_def split: list.split)

declare put_str.simps [simp del]

text \<open>Printing leaves everything but the console as it was.\<close>

lemma put_str_frame [frame, simp]:
  "pmem (put_str cs s) = pmem s" "kernel_pool (put_str cs s) = kernel_pool s"
  "user_pool (put_str cs s) = user_pool s" "kernel_vaddr (put_str cs s) = kernel_vaddr s"
  "eflags (put_str cs s) = eflags s" "ports (put_str cs s) = ports s" "idt (put_str cs s) = idt s"
  "idtr (put_str cs s) = idtr s" "idt_table (put_str cs s) = idt_table s"
  "intr_name (put_str cs s) = intr_name s"
  by (simp_all add: put_str_console)

lemma put_int_frame [frame, simp]:
  "pmem (put_int n s) = pmem s" "kernel_pool (put_int n s) = kernel_pool s"
  "user_pool (put_int n s) = user_pool s" "kernel_vaddr (put_int n s) = kernel_vaddr s"
  "eflags (put_int n s) = eflags s" "ports (put_int n s) = ports s" "idt (put_int n s) = idt s"
  "idtr (put_int n s) = idtr s" "idt_table (put_int n s) = idt_table s"
  "intr_name (put_int n s) = intr_name s"
  using put_int_console [of n s] by auto

section \<open>Reading the printed number back\<close>

definition digit_val :: "char \<Rightarrow> nat" where
  "digit_val d = (if of_char d < (58 :: nat) then of_char d - 48 else of_char d - 55)"

primrec hex_val :: "string \<Rightarrow> nat" where
  "hex_val [] = 0"
| "hex_val (d # ds) = digit_val d * 16 ^ length ds + hex_val ds"

lemma digit_val_hex_char:
  assumes "unat x < 16"
  shows "digit_val (hex_char x) = unat x"
proof -
  have "\<forall>n\<in>set [0..<16]. digit_val (hex_char (of_nat n)) = n"
    by (simp add: upt_rec hex_char_def digit_val_def)
  moreover have "unat x \<in> set [0..<16]" using assms by simp
  ultimately have "digit_val (hex_char (of_nat (unat x))) = unat x" by blast
  then show ?thesis by simp
qed

lemma hex_char_0: "hex_char 0 = CHR ''0''"
  by (simp add: hex_char_def char_of_def bit_0)

lemma based_4bits_0: "based_4bits n 0 (replicate k (CHR ''0'')) = replicate (n + k) (CHR ''0'')"
proof (induction n arbitrary: k)
  case (Suc n)
  from Suc [of "Suc k"] show ?case by (simp add: hex_char_0)
qed simp

lemma and_F: "unat ((x :: u32) AND 0xF) = unat x mod 16"
proof -
  have "x AND 0xF = take_bit 4 x" by (simp add: take_bit_eq_mask mask_eq_exp_minus_1)
  then show ?thesis by (simp add: unat_take_bit_mod)
qed

lemma based_4bits_val:
  "hex_val (based_4bits n eax buf) = unat eax mod 16 ^ n * 16 ^ length buf + hex_val buf"
proof (induction n arbitrary: eax buf)
  case (Suc n)
  let ?a = "unat eax"
  have "unat (eax AND 0xF) < 16" by (simp add: and_F)
  then have d: "digit_val (hex_char (eax AND 0xF)) = ?a mod 16" by (simp only: digit_val_hex_char and_F)
  have "unat (drop_bit 4 eax) = ?a div 16" by (simp add: unat_drop_bit_div)
  then have "hex_val (based_4bits (Suc n) eax buf) = ?a div 16 mod 16 ^ n * 16 ^ Suc (length buf)
      + (?a mod 16 * 16 ^ length buf + hex_val buf)" by (simp add: Suc.IH d)
  also have "\<dots> = (16 * (?a div 16 mod 16 ^ n) + ?a mod 16) * 16 ^ length buf + hex_val buf"
    by (simp add: algebra_simps)
  also have "16 * (?a div 16 mod 16 ^ n) + ?a mod 16 = ?a mod 16 ^ Suc n"
    by (simp add: mod_mult2_eq)
  finally show ?case .
qed simp

lemma hex_val_dropWhile: "hex_val (dropWhile (\<lambda>c. c = CHR ''0'') ds) = hex_val ds"
  by (induction ds) (auto simp: digit_val_def)

lemma put_int_digits:
  "\<exists>ds. put_int num s = s\<lparr>console := console s @ ds\<rparr> \<and> hex_val ds = unat num
     \<and> (if num = 0 then ds = ''0'' else hd ds \<noteq> CHR ''0'' \<and> ds \<noteq> [])"
proof -
  let ?ds = "dropWhile (\<lambda>c. c = CHR ''0'') (based_4bits 8 num [])"
  have "unat num < 16 ^ 8" using unat_u32_bound [of num] by simp
  then have v: "hex_val ?ds = unat num" unfolding hex_val_dropWhile based_4bits_val by simp
  show ?thesis
  proof (cases "?ds")
    case Nil
    then have "unat num = 0" using v by (simp only: hex_val.simps)
    then have "num = 0" by (simp add: unat_eq_0)
    moreover have "put_int num s = s\<lparr>console := console s @ ''0''\<rparr>" unfolding put_int_def Nil by (simp add: put_char_def)
    ultimately show ?thesis by (intro exI [of _ "''0''"]) (simp add: digit_val_def)
  next
    case (Cons d ds)
    then have d: "d \<noteq> CHR ''0''" using hd_dropWhile [of "\<lambda>c. c = CHR ''0''" "based_4bits 8 num []"] by simp
    have "num \<noteq> 0"
    proof
      assume "num = 0"
      then have "?ds = []" using based_4bits_0 [of 8 0] by (simp add: dropWhile_eq_Nil_conv)
      with Cons show False by simp
    qed
    moreover have "put_int num s = s\<lparr>console := console s @ d # ds\<rparr>" unfolding put_int_def Cons by (simp add: put_str_console)
    moreover have "hex_val (d # ds) = unat num" using v unfolding Cons .
    ultimately show ?thesis using d by (intro exI [of _ "d # ds"]) simp
  qed
qed

text \<open>\<open>put_int\<close> prints the hexadecimal digits of its argument: read as a number they give
  the argument back, and there is no leading zero but for the number 0, printed as one digit.\<close>

lemma put_int_roundtrip:
  "\<exists>ds. put_int num s = s\<lparr>console := console s @ ds\<rparr> \<and> hex_val ds = unat num
     \<and> (if num = 0 then ds = ''0'' else hd ds \<noteq> CHR ''0'' \<and> ds \<noteq> [])"
  by (rule put_int_digits)

end
