(* ===== verification/Kmemory.thy ===== *)
theory Kmemory
  imports Machine
begin

text \<open>
  \<open>kernel/memory.c\<close>: the physical page pools, the kernel's virtual address pool, the page
  tables and \<open>malloc_page\<close>.  A pointer result is its address, \<open>NULL\<close> is 0.  The two pools and
  the virtual address pool are C globals (fields of \<^typ>\<open>machine\<close>); their bitmaps and the page
  tables are in memory and reached through the page walk, so a wrong address shows up as a
  page fault or as a write to the wrong entry.
\<close>

section \<open>Definitions\<close>

definition PG_SIZE :: u32 where "PG_SIZE = 4096"
definition MEM_BITMAP_BASE :: u32 where "MEM_BITMAP_BASE = 0xc009a000"
definition K_HEAP_START :: u32 where "K_HEAP_START = 0xc0100000"

datatype pool_flags = PF_KERNEL | PF_USER

definition PG_P_1 :: u32 where "PG_P_1 = 1"
definition PG_RW_W :: u32 where "PG_RW_W = 2"
definition PG_US_U :: u32 where "PG_US_U = 4"

definition lift_mem :: "(mem \<Rightarrow> mem result) \<Rightarrow> machine \<Rightarrow> machine result" where
  "lift_mem f s = rbind (f (pmem s)) (\<lambda>m. Inr (s\<lparr>pmem := m\<rparr>))"

definition mem_pool_init :: "u32 \<Rightarrow> machine \<Rightarrow> machine result" where
  "mem_pool_init all_mem s0 =
    (let s = put_str ''   mem_pool_init start\<newline>'' s0;
         page_table_size = PG_SIZE * 256;
         used_mem = page_table_size + 0x100000;
         free_mem = all_mem - used_mem;
         all_free_pages = (ucast (free_mem div PG_SIZE) :: u16);
         kernel_free_pages = all_free_pages div 2;
         user_free_pages = all_free_pages - kernel_free_pages;
         kbm_length = (ucast kernel_free_pages :: u32) div 8;
         ubm_length = (ucast user_free_pages :: u32) div 8;
         kp_start = used_mem;
         up_start = kp_start + ucast kernel_free_pages * PG_SIZE;
         kp = \<lparr>pool_bitmap = \<lparr>btmp_bytes_len = kbm_length, bits = MEM_BITMAP_BASE\<rparr>,
               phy_addr_start = kp_start, pool_size = ucast kernel_free_pages * PG_SIZE\<rparr>;
         up = \<lparr>pool_bitmap = \<lparr>btmp_bytes_len = ubm_length, bits = MEM_BITMAP_BASE + kbm_length\<rparr>,
               phy_addr_start = up_start, pool_size = ucast user_free_pages * PG_SIZE\<rparr>;
         s = s\<lparr>kernel_pool := kp, user_pool := up\<rparr>;
         s = put_int (bits (pool_bitmap kp)) (put_str ''      kernel_pool_bitmap_start:'' s);
         s = put_str ''      kernel_pool_bitmap_end:'' (put_str ''\<newline>'' s);
         s = put_int (bits (pool_bitmap kp) + btmp_bytes_len (pool_bitmap kp)) s;
         s = put_str ''       kernel_pool_phy_addr_start:'' (put_str ''\<newline>'' s);
         s = put_str ''\<newline>'' (put_int (phy_addr_start kp) s);
         s = put_str ''       kernel_pool_phy_addr_end:'' s;
         s = put_str ''\<newline>'' (put_int (phy_addr_start kp + pool_size kp) s);
         s = put_str ''      user_pool_bitmap_start:'' s;
         s = put_str ''\<newline>'' (put_int (bits (pool_bitmap up)) s);
         s = put_str ''      user_pool_bitmap_end:'' s;
         s = put_str ''\<newline>'' (put_int (bits (pool_bitmap up) + btmp_bytes_len (pool_bitmap up)) s);
         s = put_str ''       user_pool_phy_addr_start:'' s;
         s = put_str ''\<newline>'' (put_int (phy_addr_start up) s);
         s = put_str ''       user_pool_phy_addr_end:'' s;
         s = put_str ''\<newline>'' (put_int (phy_addr_start up + pool_size up) s)
     in rbind (lift_mem (bitmap_init (pool_bitmap kp)) s) (\<lambda>s.
        rbind (lift_mem (bitmap_init (pool_bitmap up)) s) (\<lambda>s.
          let kv = \<lparr>vaddr_bitmap = \<lparr>btmp_bytes_len = kbm_length,
                                      bits = MEM_BITMAP_BASE + kbm_length + ubm_length\<rparr>,
                    vaddr_start = K_HEAP_START\<rparr>;
              s = s\<lparr>kernel_vaddr := kv\<rparr>;
              s = put_str ''     kernel_vaddr.vaddr_bitmap.start:'' s;
              s = put_str ''\<newline>'' (put_int (bits (vaddr_bitmap kv)) s);
              s = put_str ''     kernel_vaddr.vaddr_bitmap.end:'' s;
              s = put_str ''\<newline>'' (put_int (bits (vaddr_bitmap kv) + btmp_bytes_len (vaddr_bitmap kv)) s)
          in rbind (lift_mem (bitmap_init (vaddr_bitmap kv)) s) (\<lambda>s.
               Inr (put_str ''   mem_pool_init done\<newline>'' s)))))"

definition mem_init :: "machine \<Rightarrow> machine result" where
  "mem_init s0 =
    (let s = put_str ''mem_init start\<newline>'' s0 in
     rbind (vread32 (pmem s) 0xb00) (\<lambda>mem_bytes_total.
     rbind (mem_pool_init mem_bytes_total s) (\<lambda>s.
     Inr (put_str ''mem_init done\<newline>'' s))))"

definition PDE_IDX :: "u32 \<Rightarrow> u32" where
  "PDE_IDX addr = drop_bit 22 (addr AND 0xffc00000)"

definition PTE_IDX :: "u32 \<Rightarrow> u32" where
  "PTE_IDX addr = drop_bit 12 (addr AND 0x003ff000)"

function vaddr_set_loop :: "bitmap \<Rightarrow> u32 \<Rightarrow> u32 \<Rightarrow> u32 \<Rightarrow> mem \<Rightarrow> mem result" where
  "vaddr_set_loop btmp bit_idx_start cnt pg_cnt m =
     (if cnt < pg_cnt
      then rbind (bitmap_set btmp (bit_idx_start + cnt) 1 m)
             (vaddr_set_loop btmp bit_idx_start (cnt + 1) pg_cnt)
      else Inr m)"
  by pat_completeness auto
termination
  by (relation "measure (\<lambda>(btmp, st, cnt, pg_cnt, m). unat pg_cnt - unat cnt)")
    (auto simp: unat_succ_lt word_less_nat_alt)

definition vaddr_get :: "pool_flags \<Rightarrow> u32 \<Rightarrow> machine \<Rightarrow> (u32 \<times> machine) result" where
  "vaddr_get pf pg_cnt s =
     (if pf = PF_KERNEL then
        let btmp = vaddr_bitmap (kernel_vaddr s) in
        rbind (bitmap_scan btmp pg_cnt (pmem s)) (\<lambda>bit_idx_start.
          if bit_idx_start = - 1 then Inr (0, s)
          else rbind (vaddr_set_loop btmp bit_idx_start 0 pg_cnt (pmem s)) (\<lambda>m.
            Inr (vaddr_start (kernel_vaddr s) + bit_idx_start * PG_SIZE, s\<lparr>pmem := m\<rparr>)))
      else Inr (0, s))"

definition pte_ptr :: "u32 \<Rightarrow> u32" where
  "pte_ptr vaddr = 0xffc00000 + drop_bit 10 (vaddr AND 0xffc00000) + PTE_IDX vaddr * 4"

definition pde_ptr :: "u32 \<Rightarrow> u32" where
  "pde_ptr vaddr = 0xfffff000 + PDE_IDX vaddr * 4"

definition palloc :: "pool \<Rightarrow> mem \<Rightarrow> (u32 \<times> mem) result" where
  "palloc m_pool m =
     rbind (bitmap_scan (pool_bitmap m_pool) 1 m) (\<lambda>bit_idx.
       if bit_idx = - 1 then Inr (0, m)
       else rbind (bitmap_set (pool_bitmap m_pool) bit_idx 1 m) (\<lambda>m'.
         Inr (bit_idx * PG_SIZE + phy_addr_start m_pool, m')))"

definition page_table_add :: "pool \<Rightarrow> u32 \<Rightarrow> u32 \<Rightarrow> mem \<Rightarrow> mem result" where
  "page_table_add kp vaddr page_phyaddr m =
     (let pde = pde_ptr vaddr; pte = pte_ptr page_phyaddr;
          entry = page_phyaddr OR PG_US_U OR PG_RW_W OR PG_P_1 in
      rbind (vread32 m pde) (\<lambda>d.
        if d AND 1 \<noteq> 0 then
          rbind (vread32 m pte) (\<lambda>t.
            if t AND 1 \<noteq> 0
            then Inl (Panic ''kernel/memory.c'' 171 ''page_table_add'' ''!(*pte & 0x00000001)'')
            else rbind (vread32 m pte) (\<lambda>t.
              if t AND 1 = 0 then vwrite32 m pte entry
              else Inl (Panic ''kernel/memory.c'' 175 ''page_table_add'' ''pte repeat'')))
        else
          rbind (palloc kp m) (\<lambda>(pde_phyaddr, m).
          rbind (vwrite32 m pde (pde_phyaddr OR PG_US_U OR PG_RW_W OR PG_P_1)) (\<lambda>m.
          rbind (memset (pte AND 0xfffff000) 0 PG_SIZE m) (\<lambda>m.
          rbind (vread32 m pte) (\<lambda>t.
            if t AND 1 \<noteq> 0
            then Inl (Panic ''kernel/memory.c'' 181 ''page_table_add'' ''!(*pte & 0x00000001)'')
            else vwrite32 m pte entry))))))"

function malloc_loop :: "pool \<Rightarrow> pool \<Rightarrow> u32 \<Rightarrow> u32 \<Rightarrow> mem \<Rightarrow> (bool \<times> mem) result" where
  "malloc_loop kp mem_pool vaddr cnt m =
     (if cnt > 0
      then rbind (palloc mem_pool m) (\<lambda>(page_phyaddr, m).
             if page_phyaddr = 0 then Inr (False, m)
             else rbind (page_table_add kp vaddr page_phyaddr m)
                    (malloc_loop kp mem_pool (vaddr + PG_SIZE) (cnt - 1)))
      else Inr (True, m))"
  by pat_completeness auto
termination
  by (relation "measure (\<lambda>(kp, mp, v, cnt, m). unat cnt)") (auto simp: unat_pred_less word_gt_0)

declare vaddr_set_loop.simps [simp del] malloc_loop.simps [simp del]

definition malloc_page :: "pool_flags \<Rightarrow> u32 \<Rightarrow> machine \<Rightarrow> (u32 \<times> machine) result" where
  "malloc_page pf pg_cnt s =
     (if \<not> (pg_cnt > 0 \<and> pg_cnt < 3840)
      then Inl (Panic ''kernel/memory.c'' 188 ''malloc_page'' ''pg_cnt > 0 && pg_cnt < 3840'')
      else rbind (vaddr_get pf pg_cnt s) (\<lambda>(vaddr_start, s).
        if vaddr_start = 0 then Inr (0, s)
        else let mem_pool = (if pf = PF_KERNEL then kernel_pool s else user_pool s) in
          rbind (malloc_loop (kernel_pool s) mem_pool vaddr_start pg_cnt (pmem s)) (\<lambda>(ok, m).
            Inr (if ok then vaddr_start else 0, s\<lparr>pmem := m\<rparr>))))"

definition get_kernel_pages :: "u32 \<Rightarrow> machine \<Rightarrow> (u32 \<times> machine) result" where
  "get_kernel_pages pg_cnt s =
     rbind (malloc_page PF_KERNEL pg_cnt s) (\<lambda>(vaddr, s).
       if vaddr = 0 then Inr (0, s) else Inr (vaddr, s))"

section \<open>The self-mapped page tables\<close>

lemma PDE_IDX_va: "a < 1024 \<Longrightarrow> b < 1024 \<Longrightarrow> c < 4096 \<Longrightarrow> PDE_IDX (va a b c) = of_nat a"
proof -
  assume "a < 1024" "b < 1024" "c < 4096"
  moreover have "PDE_IDX v = drop_bit 22 v" for v
    unfolding PDE_IDX_def and_ffc00000 by (rule bit_word_eqI) (auto simp: bit_simps dest: bit_imp_le_length)
  ultimately show ?thesis by (simp add: va_dir)
qed

lemma PTE_IDX_va: "a < 1024 \<Longrightarrow> b < 1024 \<Longrightarrow> c < 4096 \<Longrightarrow> PTE_IDX (va a b c) = of_nat b"
proof -
  assume "a < 1024" "b < 1024" "c < 4096"
  moreover have "PTE_IDX v = take_bit 10 (drop_bit 12 v)" for v
    unfolding PTE_IDX_def and_3ff000 by (rule bit_word_eqI) (auto simp: bit_simps dest: bit_imp_le_length)
  ultimately show ?thesis by (simp add: va_tab)
qed

lemma pde_ptr_va: "a < 1024 \<Longrightarrow> b < 1024 \<Longrightarrow> c < 4096 \<Longrightarrow> pde_ptr (va a b c) = va 1023 1023 (4 * a)"
  by (simp add: pde_ptr_def PDE_IDX_va) (simp add: va_def)

lemma pte_ptr_va: "a < 1024 \<Longrightarrow> b < 1024 \<Longrightarrow> c < 4096 \<Longrightarrow> pte_ptr (va a b c) = va 1023 a (4 * b)"
proof -
  assume abc: "a < 1024" "b < 1024" "c < 4096"
  have "drop_bit 10 (v AND 0xffc00000) = push_bit 12 (drop_bit 22 v)" for v :: u32
    unfolding and_ffc00000 by (rule bit_word_eqI) (auto simp: bit_simps dest: bit_imp_le_length)
  with abc have "drop_bit 10 (va a b c AND 0xffc00000) = of_nat (a * 4096)"
    by (simp add: va_dir push_bit_eq_mult)
  with abc show ?thesis by (simp add: pte_ptr_def PTE_IDX_va) (simp add: va_def)
qed

lemma pde_ptr_translate:
  assumes "kernel_mapped m"
  shows "translate m (pde_ptr v) = Some (pde_addr v)"
proof -
  obtain a b c where v: "a < 1024" "b < 1024" "c < 4096" "v = va a b c" by (rule va_cases)
  have "pt_entry m 0x100000 1023 = 0x100007" using assms by (simp add: kernel_mapped_def)
  with v show ?thesis
    using table_translate [OF assms, of 1023 "4 * a"] pde_addr_va [of a b c] pde_ptr_va [of a b c] by simp
qed

lemma pte_ptr_translate:
  assumes "kernel_mapped m"
  shows "translate m (pte_ptr v) =
    (if load32 m (pde_addr v) AND 1 = 0 then None else Some (pte_addr m v))"
proof -
  obtain a b c where v: "a < 1024" "b < 1024" "c < 4096" "v = va a b c" by (rule va_cases)
  with assms show ?thesis
    using table_translate [OF assms, of a "4 * b"] pde_addr_va [of a b c] pte_addr_va [of a b c m] pte_ptr_va [of a b c]
    by (simp add: pt_entry_def)
qed

section \<open>Entering a page in the page tables\<close>

text \<open>
  What \<open>page_table_add\<close> does when the directory entry of \<open>vaddr\<close> is present, as it is for
  every kernel address: it enters the page at the table slot of \<open>page_phyaddr\<close>.
\<close>

lemma page_table_add_present:
  assumes K: "kernel_mapped m" and d: "load32 m (pde_addr v) AND 1 \<noteq> 0"
  shows "page_table_add kp v p m =
    (if load32 m (pde_addr p) AND 1 = 0 then Inl (PageFault (pte_ptr p))
     else if load32 m (pte_addr m p) AND 1 \<noteq> 0
     then Inl (Panic ''kernel/memory.c'' 171 ''page_table_add'' ''!(*pte & 0x00000001)'')
     else Inr (store32 m (pte_addr m p) (p OR PG_US_U OR PG_RW_W OR PG_P_1)))"
  using d by (auto simp: page_table_add_def Let_def vread32_def vwrite32_def
      pde_ptr_translate [OF K] pte_ptr_translate [OF K])

section \<open>Allocating physical pages\<close>

definition pool_ok :: "pool \<Rightarrow> bool" where
  "pool_ok p \<longleftrightarrow> bm_reach (pool_bitmap p) \<subseteq> low_kernel \<and> bm_size (pool_bitmap p) + 8 < 4294967296
     \<and> unat (phy_addr_start p) + bm_size (pool_bitmap p) * 4096 \<le> 4294967296"

definition pool_page :: "pool \<Rightarrow> nat \<Rightarrow> u32" where
  "pool_page p i = of_nat i * PG_SIZE + phy_addr_start p"

lemma unat_pool_page:
  "pool_ok p \<Longrightarrow> i < bm_size (pool_bitmap p) \<Longrightarrow> unat (pool_page p i) = unat (phy_addr_start p) + 4096 * i"
proof -
  assume ok: "pool_ok p" "i < bm_size (pool_bitmap p)"
  have "pool_page p i = phy_addr_start p + of_nat (4096 * i)"
    by (simp add: pool_page_def PG_SIZE_def ac_simps)
  moreover have "unat (phy_addr_start p) + 4096 * i < 4294967296" using ok by (simp add: pool_ok_def)
  ultimately show ?thesis by (simp only: unat_add_no_wrap)
qed

lemma pool_page_inj: "pool_ok p \<Longrightarrow> inj_on (pool_page p) {..<bm_size (pool_bitmap p)}"
proof (rule inj_onI)
  fix i j assume a: "pool_ok p" "i \<in> {..<bm_size (pool_bitmap p)}" "j \<in> {..<bm_size (pool_bitmap p)}"
    "pool_page p i = pool_page p j"
  then have "unat (phy_addr_start p) + 4096 * i = unat (phy_addr_start p) + 4096 * j"
    by (metis lessThan_iff unat_pool_page)
  then show "i = j" by simp
qed

lemma of_nat_not_minus1: "i + 1 < 4294967296 \<Longrightarrow> (of_nat i :: u32) \<noteq> - 1"
proof
  assume i: "i + 1 < 4294967296" and "(of_nat i :: u32) = - 1"
  moreover have "unat (- 1 :: u32) = 4294967295" by (simp add: unsigned_minus_1_eq_mask mask_eq_exp_minus_1)
  moreover have "unat (of_nat i :: u32) = i" using i by (intro unat_of_nat32) simp
  ultimately have "i = 4294967295" by (simp only:)
  with i show False by simp
qed

lemma palloc_cases:
  assumes K: "kernel_mapped m" and ok: "pool_ok p"
  shows "if {..<bm_size (pool_bitmap p)} \<subseteq> bm_used m (pool_bitmap p)
    then palloc p m = Inl (Panic ''lib/kernel/bitmap.c'' 29 ''bitmap_scan'' ''idx_byte < btmp->btmp_bytes_len'')
    else \<exists>i m' f. palloc p m = Inr (pool_page p i, m') \<and> i < bm_size (pool_bitmap p)
      \<and> i \<notin> bm_used m (pool_bitmap p) \<and> {..<i} \<subseteq> bm_used m (pool_bitmap p)
      \<and> updates m low_kernel {bm_addr (pool_bitmap p) i} f m'
      \<and> (\<forall>j < bm_size (pool_bitmap p). bm_bit m' (pool_bitmap p) j = (j = i \<or> bm_bit m (pool_bitmap p) j))"
proof -
  let ?b = "pool_bitmap p"
  note R = data_region_low [OF K]
  have reach: "bm_reach ?b \<subseteq> low_kernel" and len: "bm_size ?b + 8 < 4294967296" using ok by (simp_all add: pool_ok_def)
  have full: "{..<bm_size ?b} \<subseteq> bm_used m ?b \<longleftrightarrow> (\<forall>i < bm_size ?b. bm_bit m ?b i)"
    by (auto simp: bm_used_def)
  note scan = bitmap_scan_region [OF R reach len, of 1]
  show ?thesis
  proof (cases "\<forall>i < bm_size ?b. bm_bit m ?b i")
    case True
    with scan show ?thesis by (simp add: full palloc_def)
  next
    case False
    with scan obtain r where r: "bitmap_scan ?b 1 m = Inr r" "scan_answer m ?b 1 (bm_size ?b) r" by auto
    have "\<exists>s. s + 1 \<le> bm_size ?b \<and> free_run m ?b s 1"
      using False by (auto simp: free_run_1 Suc_le_eq)
    with r(2) obtain i where i: "r = of_nat i" "i + 1 \<le> bm_size ?b" "free_run m ?b i 1"
        "\<forall>t < i. \<not> free_run m ?b t 1"
      unfolding scan_answer_def by blast
    have free: "\<not> bm_bit m ?b i" "\<forall>t < i. bm_bit m ?b t"
      using i(3,4) by (simp_all add: free_run_1)
    have u: "unat r = i" unfolding i(1) by (rule unat_of_nat32) (use i(2) len in simp)
    have w: "unat r < bm_size ?b + 8" using i(2) u by simp
    obtain m' f where m': "bitmap_set ?b r 1 m = Inr m'" "updates m low_kernel {bm_addr ?b (unat r)} f m'"
        "\<And>j. j < bm_size ?b + 8 \<Longrightarrow> bm_bit m' ?b j = (if j = unat r then 1 = (1 :: u8) else bm_bit m ?b j)"
      by (rule bitmap_set_bits [OF R reach w len, of 1]) auto
    have ne: "r \<noteq> - 1" unfolding i(1) by (rule of_nat_not_minus1) (use i(2) len in simp)
    have "palloc p m = Inr (r * PG_SIZE + phy_addr_start p, m')"
      by (simp add: palloc_def r(1) m'(1) ne)
    then have "palloc p m = Inr (pool_page p i, m')"
      by (simp only: pool_page_def i(1))
    moreover have "\<not> {..<bm_size ?b} \<subseteq> bm_used m ?b" using False full by simp
    ultimately show ?thesis
      using i(2) free m'(2,3) u by (auto simp: bm_used_def)
  qed
qed

section \<open>Properties\<close>

text \<open>C11: under the boot loader's page directory, \<open>pde_ptr v\<close> is a mapped address whose word is
  the directory entry the processor uses for \<open>v\<close>, and \<open>pte_ptr v\<close> is mapped exactly when
  that entry is present, and its word is then the table entry the processor uses for \<open>v\<close>.\<close>

theorem pde_pte_self_map:
  assumes "kernel_mapped m"
  shows "vread32 m (pde_ptr v) = Inr (load32 m (pde_addr v))
    \<and> vread32 m (pte_ptr v) = (if load32 m (pde_addr v) AND 1 = 0 then Inl (PageFault (pte_ptr v))
        else Inr (load32 m (pte_addr m v)))"
  by (simp add: vread32_def pde_ptr_translate [OF assms] pte_ptr_translate [OF assms])

theorem pde_pte_self_map_witness: "vread32 demo_mem (pde_ptr 0x400000) = Inr 0"
proof -
  have "pde_addr 0x400000 = of_nat (0x100000 + 4 * 1)" by (simp add: pde_addr_def PAGE_DIR_TABLE_POS_def)
  then have "load32 demo_mem (pde_addr 0x400000) = 0" using demo_kernel_mapped(2) by (simp only: pt_entry_def)
  then show ?thesis using pde_pte_self_map [OF demo_kernel_mapped(1), of "0x400000"] by simp
qed

text \<open>C17: \<open>page_table_add\<close> for an address whose directory entry is present enters the page at
  the table slot of the page's own physical address \<open>p\<close>, not of the virtual address \<open>v\<close>: the
  only word it changes is the entry the processor uses for \<open>p\<close>, and that entry gets \<open>p\<close> with
  the attribute bits.  When the table of \<open>p\<close> is not present the call faults, and when the
  entry of \<open>p\<close> is taken it panics.\<close>

theorem page_table_add_at_physical:
  assumes "kernel_mapped m" "load32 m (pde_addr v) AND 1 \<noteq> 0"
  shows "page_table_add kp v p m =
    (if load32 m (pde_addr p) AND 1 = 0 then Inl (PageFault (pte_ptr p))
     else if load32 m (pte_addr m p) AND 1 \<noteq> 0
     then Inl (Panic ''kernel/memory.c'' 171 ''page_table_add'' ''!(*pte & 0x00000001)'')
     else Inr (store32 m (pte_addr m p) (p OR 7)))"
proof -
  have "p OR PG_US_U OR PG_RW_W OR PG_P_1 = p OR 7"
    by (simp add: PG_US_U_def PG_RW_W_def PG_P_1_def)
  then show ?thesis using page_table_add_present [OF assms] by simp
qed

theorem page_table_add_at_physical_witness:
  "page_table_add \<lparr>pool_bitmap = \<lparr>btmp_bytes_len = 0, bits = 0\<rparr>, phy_addr_start = 0, pool_size = 0\<rparr>
     0xc0100000 0x400000 demo_mem = Inl (PageFault 0xffc01000)"
proof -
  have a: "pde_addr 0xc0100000 = of_nat (0x100000 + 4 * 768)" "pde_addr 0x400000 = of_nat (0x100000 + 4 * 1)"
    by (simp_all add: pde_addr_def PAGE_DIR_TABLE_POS_def)
  have "load32 demo_mem (pde_addr 0xc0100000) AND 1 \<noteq> 0" "load32 demo_mem (pde_addr 0x400000) AND 1 = 0"
    unfolding a pt_entry_def [symmetric] using demo_kernel_mapped by (simp_all add: kernel_mapped_def)
  moreover have "pte_ptr 0x400000 = 0xffc01000" by (simp add: pte_ptr_def PTE_IDX_def)
  ultimately show ?thesis using page_table_add_at_physical [OF demo_kernel_mapped(1)] by simp
qed

end
