(* ===== verification/Kalloc.thy ===== *)
theory Kalloc
  imports Kmemory
begin

text \<open>
  The behaviour of the allocator of \<open>kernel/memory.c\<close>.  The locale \<open>page_allocator\<close> is the
  contract a client of \<open>palloc\<close> relies on, stated over the set of allocated indices; the
  pool of \<open>kernel/memory.c\<close> is an interpretation of it.  The second part follows the kernel
  heap: bits are never cleared, so a pool in use is described by one number, the count of
  pages handed out, and \<open>get_kernel_pages\<close> refines a counter.
\<close>

section \<open>The contract of a page pool\<close>

primrec alloc_many :: "('m \<Rightarrow> 'f + ('a \<times> 'm)) \<Rightarrow> nat \<Rightarrow> 'm \<Rightarrow> 'f + ('a list \<times> 'm)" where
  "alloc_many alloc 0 m = Inr ([], m)"
| "alloc_many alloc (Suc n) m = rbind (alloc m) (\<lambda>(p, m). rbind (alloc_many alloc n m) (\<lambda>(ps, m). Inr (p # ps, m)))"

locale page_allocator =
  fixes alloc :: "'m \<Rightarrow> 'f + ('a \<times> 'm)"
    and ok :: "'m \<Rightarrow> bool"
    and used :: "'m \<Rightarrow> nat set"
    and cap :: nat
    and page :: "nat \<Rightarrow> 'a"
    and full :: 'f
  assumes used_cap: "used m \<subseteq> {..<cap}"
    and page_inj: "ok m \<Longrightarrow> inj_on page {..<cap}"
    and alloc_free: "ok m \<Longrightarrow> used m \<noteq> {..<cap} \<Longrightarrow>
      \<exists>i m'. alloc m = Inr (page i, m') \<and> ok m' \<and> i < cap \<and> i \<notin> used m \<and> {..<i} \<subseteq> used m
        \<and> used m' = insert i (used m)"
    and alloc_full: "ok m \<Longrightarrow> used m = {..<cap} \<Longrightarrow> alloc m = Inl full"
begin

lemma finite_used: "finite (used m)"
  using used_cap by (rule finite_subset) simp

lemma alloc_many_ok:
  "ok m \<Longrightarrow> card (used m) + n \<le> cap \<Longrightarrow>
     \<exists>is m'. alloc_many alloc n m = Inr (map page is, m') \<and> ok m' \<and> length is = n \<and> distinct is
       \<and> set is \<subseteq> {..<cap} - used m \<and> used m' = used m \<union> set is"
proof (induction n arbitrary: m)
  case (Suc n)
  have "used m \<noteq> {..<cap}"
  proof
    assume "used m = {..<cap}"
    then have "card (used m) = cap" by simp
    with Suc.prems(2) show False by simp
  qed
  from alloc_free [OF Suc.prems(1) this] obtain i m1 where 1: "alloc m = Inr (page i, m1)" "ok m1" "i < cap" "i \<notin> used m"
      "used m1 = insert i (used m)" by blast
  have "card (used m1) + n \<le> cap" using Suc.prems(2) finite_used 1(4,5) by simp
  with Suc.IH [OF 1(2)] obtain "is" m' where 2: "alloc_many alloc n m1 = Inr (map page is, m')" "ok m'"
      "length is = n" "distinct is" "set is \<subseteq> {..<cap} - used m1" "used m' = used m1 \<union> set is" by blast
  have "alloc_many alloc (Suc n) m = Inr (map page (i # is), m')" by (simp add: 1(1) 2(1))
  moreover have "distinct (i # is)" "set (i # is) \<subseteq> {..<cap} - used m" "used m' = used m \<union> set (i # is)"
    using 1(3,4,5) 2(4,5,6) by auto
  moreover have "length (i # is) = Suc n" using 2(3) by simp
  ultimately show ?case using 2(2) by (intro exI [of _ "i # is"] exI [of _ m'] conjI)
qed simp

lemma alloc_many_distinct:
  assumes "ok m" "alloc_many alloc n m = Inr (ps, m')" "card (used m) + n \<le> cap"
  shows "distinct ps" "length ps = n" "card (used m') = card (used m) + n"
proof -
  obtain "is" where i: "ps = map page is" "length is = n" "distinct is" "set is \<subseteq> {..<cap} - used m"
      "used m' = used m \<union> set is"
    using alloc_many_ok [OF assms(1,3)] assms(2) by auto
  have "set is \<subseteq> {..<cap}" using i(4) by auto
  with page_inj [OF assms(1)] have "inj_on page (set is)" by (rule inj_on_subset)
  then show "distinct ps" using i by (simp add: distinct_map)
  show "length ps = n" using i by simp
  have "card (used m \<union> set is) = card (used m) + card (set is)"
    using i(4) by (intro card_Un_disjoint finite_used) auto
  then show "card (used m') = card (used m) + n" using i by (simp add: distinct_card)
qed

lemma alloc_many_exhausted:
  "ok m \<Longrightarrow> cap < card (used m) + n \<Longrightarrow> alloc_many alloc n m = Inl full"
proof (induction n arbitrary: m)
  case 0
  then show ?case using card_mono [OF _ used_cap, of m] by simp
next
  case (Suc n)
  show ?case
  proof (cases "used m = {..<cap}")
    case True
    then show ?thesis by (simp add: alloc_full [OF Suc.prems(1)])
  next
    case False
    with Suc.prems(1) obtain i m1 where 1: "alloc m = Inr (page i, m1)" "ok m1" "i \<notin> used m"
      "used m1 = insert i (used m)" using alloc_free by blast
    then have "alloc_many alloc n m1 = Inl full"
      using Suc.IH [OF 1(2)] Suc.prems(2) finite_used by simp
    with 1(1) show ?thesis by simp
  qed
qed

end

lemma bm_used_le: "bm_used m b \<subseteq> {..<bm_size b}"
  by (auto simp: bm_used_def)

lemma bm_reach_span: "bm_reach b \<subseteq> S \<Longrightarrow> bm_span b \<subseteq> S"
  using bm_span_reach by (rule order_trans)

lemma palloc_free:
  assumes K: "kernel_mapped m" and ok: "pool_ok p" and free: "bm_used m (pool_bitmap p) \<noteq> {..<bm_size (pool_bitmap p)}"
  obtains i m' f where "palloc p m = Inr (pool_page p i, m')" "kernel_mapped m'" "i < bm_size (pool_bitmap p)"
    "i \<notin> bm_used m (pool_bitmap p)" "{..<i} \<subseteq> bm_used m (pool_bitmap p)"
    "bm_used m' (pool_bitmap p) = insert i (bm_used m (pool_bitmap p))"
    "updates m low_kernel {bm_addr (pool_bitmap p) i} f m'"
proof -
  let ?b = "pool_bitmap p"
  have "\<not> {..<bm_size ?b} \<subseteq> bm_used m ?b" using free bm_used_le [of m ?b] by auto
  with palloc_cases [OF K ok] obtain i m' f where
    1: "palloc p m = Inr (pool_page p i, m')" "i < bm_size ?b" "i \<notin> bm_used m ?b" "{..<i} \<subseteq> bm_used m ?b"
      "updates m low_kernel {bm_addr ?b i} f m'"
      "\<forall>j < bm_size ?b. bm_bit m' ?b j = (j = i \<or> bm_bit m ?b j)"
    by (simp only: if_False) blast
  have "bm_addr ?b i \<in> low_kernel" using bm_span_addr [OF 1(2)] bm_reach_span [of ?b low_kernel] ok
    by (auto simp: pool_ok_def)
  then have "kernel_mapped m'" using updates_low(1) [OF 1(5) K] by simp
  moreover have "bm_used m' ?b = insert i (bm_used m ?b)" using 1(2,6) by (auto simp: bm_used_def)
  ultimately show thesis using 1 by (intro that) auto
qed

interpretation pa: page_allocator "palloc p" "\<lambda>m. kernel_mapped m \<and> pool_ok p"
    "\<lambda>m. bm_used m (pool_bitmap p)" "bm_size (pool_bitmap p)" "pool_page p"
    "Panic ''lib/kernel/bitmap.c'' 29 ''bitmap_scan'' ''idx_byte < btmp->btmp_bytes_len''" for p
proof unfold_locales
  fix m assume ok: "kernel_mapped m \<and> pool_ok p"
  show "inj_on (pool_page p) {..<bm_size (pool_bitmap p)}" using ok by (simp add: pool_page_inj)
  show "palloc p m = Inl (Panic ''lib/kernel/bitmap.c'' 29 ''bitmap_scan'' ''idx_byte < btmp->btmp_bytes_len'')"
    if "bm_used m (pool_bitmap p) = {..<bm_size (pool_bitmap p)}"
    using palloc_cases [of m p] ok that by simp
  show "\<exists>i m'. palloc p m = Inr (pool_page p i, m') \<and> (kernel_mapped m' \<and> pool_ok p) \<and> i < bm_size (pool_bitmap p)
      \<and> i \<notin> bm_used m (pool_bitmap p) \<and> {..<i} \<subseteq> bm_used m (pool_bitmap p)
      \<and> bm_used m' (pool_bitmap p) = insert i (bm_used m (pool_bitmap p))"
    if "bm_used m (pool_bitmap p) \<noteq> {..<bm_size (pool_bitmap p)}"
    using ok by (auto intro: palloc_free [OF _ _ that])
qed (rule bm_used_le)

section \<open>Properties\<close>

text \<open>C15: as long as the pool has pages, \<open>n\<close> calls of \<open>palloc\<close> in a row succeed and return \<open>n\<close>
  different pages of the pool, none of which was allocated before; each of them is marked in
  the bitmap, and no other page is.\<close>

theorem palloc_distinct_pages:
  assumes "kernel_mapped m" "pool_ok p" "card (bm_used m (pool_bitmap p)) + n \<le> bm_size (pool_bitmap p)"
  shows "\<exists>is m'. alloc_many (palloc p) n m = Inr (map (pool_page p) is, m') \<and> length is = n
    \<and> distinct (map (pool_page p) is) \<and> set is \<subseteq> {..<bm_size (pool_bitmap p)} - bm_used m (pool_bitmap p)
    \<and> bm_used m' (pool_bitmap p) = bm_used m (pool_bitmap p) \<union> set is \<and> kernel_mapped m'"
proof -
  have ok: "kernel_mapped m \<and> pool_ok p" using assms by simp
  obtain "is" m' where 1: "alloc_many (palloc p) n m = Inr (map (pool_page p) is, m')" "kernel_mapped m'" "length is = n"
      "set is \<subseteq> {..<bm_size (pool_bitmap p)} - bm_used m (pool_bitmap p)"
      "bm_used m' (pool_bitmap p) = bm_used m (pool_bitmap p) \<union> set is"
    using pa.alloc_many_ok [OF ok assms(3)] by blast
  with pa.alloc_many_distinct(1) [OF ok 1(1) assms(3)] show ?thesis by blast
qed

definition demo_pool :: pool where
  "demo_pool = \<lparr>pool_bitmap = \<lparr>btmp_bytes_len = 1, bits = 0xc0006000\<rparr>, phy_addr_start = 0x200000, pool_size = 0x8000\<rparr>"

lemma demo_pool_ok: "pool_ok demo_pool" "bm_size (pool_bitmap demo_pool) = 8"
    "bm_used demo_mem (pool_bitmap demo_pool) = {}"
proof -
  have "bm_reach (pool_bitmap demo_pool) \<subseteq> low_kernel"
    unfolding bm_reach_def by (rule span_low) (simp add: demo_pool_def)
  then show "pool_ok demo_pool" by (simp add: pool_ok_def) (simp add: demo_pool_def bm_size_def)
  show "bm_size (pool_bitmap demo_pool) = 8" by (simp add: demo_pool_def bm_size_def)
  then show "bm_used demo_mem (pool_bitmap demo_pool) = {}"
    by (auto simp: bm_used_def bm_bit_def bm_addr_def demo_pool_def demo_byte in_low_kernel)
qed

theorem palloc_distinct_pages_witness:
  "\<exists>ps m'. alloc_many (palloc demo_pool) 3 demo_mem = Inr (ps, m') \<and> length ps = 3 \<and> distinct ps"
  using palloc_distinct_pages [OF demo_kernel_mapped(1) demo_pool_ok(1), of 3] demo_pool_ok(2,3) by auto

text \<open>C20: once fewer pages are left than are asked for, \<open>palloc\<close> does not return \<open>NULL\<close> but
  panics in \<open>bitmap_scan\<close>, so that its callers' checks for \<open>NULL\<close> never see a failure.\<close>

theorem palloc_exhaustion_panics:
  assumes "kernel_mapped m" "pool_ok p" "bm_size (pool_bitmap p) < card (bm_used m (pool_bitmap p)) + n"
  shows "alloc_many (palloc p) n m =
    Inl (Panic ''lib/kernel/bitmap.c'' 29 ''bitmap_scan'' ''idx_byte < btmp->btmp_bytes_len'')"
  by (rule pa.alloc_many_exhausted) (use assms in simp_all)

theorem palloc_exhaustion_panics_witness:
  "alloc_many (palloc demo_pool) 9 demo_mem =
    Inl (Panic ''lib/kernel/bitmap.c'' 29 ''bitmap_scan'' ''idx_byte < btmp->btmp_bytes_len'')"
  by (rule palloc_exhaustion_panics [OF demo_kernel_mapped(1) demo_pool_ok(1)]) (simp add: demo_pool_ok(2,3))

end
