(* ===== verification/Kheap.thy ===== *)
theory Kheap
  imports Kalloc
begin

text \<open>
  The kernel heap of \<open>kernel/memory.c\<close>.  Pages are never given back, so the state of the
  heap is a number: \<open>heap_at s k\<close> says that \<open>k\<close> pages are out, the first \<open>k\<close> bits of both
  bitmaps are set and the table entries the allocator has written are the first \<open>k\<close> ones of
  the range it writes to.  \<open>get_kernel_pages\<close> moves the counter.
\<close>

section \<open>Setting the bits of a run\<close>

lemma vaddr_set_loop_run:
  assumes "data_region m S" "bm_reach b \<subseteq> S" "bm_size b + 8 < 4294967296"
    "unat st + unat n \<le> bm_size b" "unat cnt \<le> unat n"
  shows "\<exists>m' D f. vaddr_set_loop b st cnt n m = Inr m' \<and> updates m S D f m' \<and> D \<subseteq> bm_span b
    \<and> bm_used m' b = bm_used m b \<union> {unat st + unat cnt..<unat st + unat n}"
  using assms
proof (induction b st cnt n m rule: vaddr_set_loop.induct)
  case (1 b st cnt n m)
  show ?case
  proof (cases "cnt < n")
    case False
    with 1(6) have "unat cnt = unat n" by (simp add: word_less_nat_alt)
    moreover have "vaddr_set_loop b st cnt n m = Inr m" using False by (subst vaddr_set_loop.simps) simp
    ultimately show ?thesis using updates_refl [OF 1(2), of "\<lambda>_. 0"]
      by (intro exI [of _ m] exI [of _ "{}"] exI [of _ "\<lambda>_. 0"]) simp
  next
    case True
    then have lt: "unat cnt < unat n" by (simp add: word_less_nat_alt)
    have c1: "unat (cnt + 1) = Suc (unat cnt)" using True by (rule unat_succ_lt)
    have w: "unat (st + cnt) = unat st + unat cnt"
      using unat_add_no_wrap [of st "unat cnt"] lt 1(4,5) by simp
    have w8: "unat (st + cnt) < bm_size b + 8" using w lt 1(5) by simp
    obtain m1 f1 where m1: "bitmap_set b (st + cnt) 1 m = Inr m1"
        "updates m S {bm_addr b (unat (st + cnt))} f1 m1"
        "\<And>j. j < bm_size b + 8 \<Longrightarrow> bm_bit m1 b j = (if j = unat (st + cnt) then 1 = (1 :: u8) else bm_bit m b j)"
      by (rule bitmap_set_bits [OF 1(2,3) w8 1(4), of 1]) simp_all
    have a: "{bm_addr b (unat (st + cnt))} \<subseteq> bm_span b"
      using bm_span_addr [of "unat (st + cnt)" b] w lt 1(5) by simp
    have S: "bm_span b \<subseteq> S" using 1(3) by (rule bm_reach_span)
    have n1: "unat (cnt + 1) \<le> unat n" using c1 lt by simp
    obtain m' D f where 2: "vaddr_set_loop b st (cnt + 1) n m1 = Inr m'" "updates m1 S D f m'" "D \<subseteq> bm_span b"
        "bm_used m' b = bm_used m1 b \<union> {unat st + unat (cnt + 1)..<unat st + unat n}"
      using 1(1) [OF True m1(1) updates_region [OF m1(2)] 1(3,4,5) n1] by blast
    have "D \<subseteq> S" using 2(3) S by blast
    then have "updates m S ({bm_addr b (unat (st + cnt))} \<union> D) (\<lambda>w. if w \<in> D then f w else f1 w) m'"
      by (rule updates_trans [OF m1(2) 2(2)])
    moreover have used: "bm_used m1 b = insert (unat st + unat cnt) (bm_used m b)"
    proof -
      have "bm_bit m1 b j = (j = unat st + unat cnt \<or> bm_bit m b j)" if "j < bm_size b" for j
        using m1(3) [of j] that by (simp add: w)
      then show ?thesis using lt 1(5) by (auto simp: bm_used_def)
    qed
    have "insert (unat st + unat cnt) {unat st + Suc (unat cnt)..<unat st + unat n}
        = {unat st + unat cnt..<unat st + unat n}" using lt by auto
    then have "bm_used m' b = bm_used m b \<union> {unat st + unat cnt..<unat st + unat n}"
      by (simp only: 2(4) c1 used Un_insert_left Un_insert_right [symmetric])
    moreover have "vaddr_set_loop b st cnt n m = Inr m'"
      using True m1(1) 2(1) by (subst vaddr_set_loop.simps) simp
    moreover have "{bm_addr b (unat (st + cnt))} \<union> D \<subseteq> bm_span b" using a 2(3) by blast
    ultimately show ?thesis by blast
  qed
qed

section \<open>Table entries and bitmaps\<close>

lemma bm_used_cong: "(\<And>v. v \<in> bm_span b \<Longrightarrow> byte_at m' v = byte_at m v) \<Longrightarrow> bm_used m' b = bm_used m b"
  by (simp add: bm_used_def bm_bit_def bm_span_addr cong: conj_cong)

lemma page_entry: "4096 * j + 7 < 4294967296 \<Longrightarrow>
    of_nat (4096 * j) OR PG_US_U OR PG_RW_W OR PG_P_1 = (of_nat (4096 * j + 7) :: u32)"
proof -
  assume j: "4096 * j + 7 < 4294967296"
  let ?p = "of_nat (4096 * j) :: u32"
  have u: "unat ?p = 4096 * j" by (rule unat_of_nat32) (use j in simp)
  have "(7 :: u32) = mask 3" by (simp add: mask_eq_exp_minus_1)
  then have "?p AND 7 = take_bit 3 ?p" by (simp only: take_bit_eq_mask)
  moreover have "unat (take_bit 3 ?p) = 0" unfolding unat_take_bit_mod u by (simp add: mod_mult_right_eq)
  ultimately have "?p AND 7 = 0" by (simp add: unat_0_iff del: of_nat_mult)
  then have "?p OR 7 = ?p + 7" by (rule disjunctive_add_eq_or [symmetric])
  moreover have "PG_US_U OR PG_RW_W OR PG_P_1 = 7" by (simp add: PG_US_U_def PG_RW_W_def PG_P_1_def)
  ultimately show ?thesis by simp
qed

lemma pt_entry_updates:
  assumes "updates m low_kernel D f m'" "kernel_mapped m" "D \<subseteq> low_kernel"
    "0x100000 \<le> t" "t + 4 * i + 4 \<le> 4294967296"
  shows "pt_entry m' t i = pt_entry m t i"
  unfolding pt_entry_def
  by (rule load32_cong, rule updates_low(2) [OF assms(1-3)])
    (use assms(4,5) in \<open>auto simp: word_bytes_iff simp del: of_nat_add of_nat_mult\<close>)

lemma store_slot:
  assumes K: "kernel_mapped m" and j: "256 \<le> j" "j < 1024"
  shows "kernel_mapped (store32 m (of_nat (0x101000 + 4 * j)) x)"
    and "bm_span b \<subseteq> low_kernel \<Longrightarrow> bm_used (store32 m (of_nat (0x101000 + 4 * j)) x) b = bm_used m b"
    and "i < 1024 \<Longrightarrow> pt_entry (store32 m (of_nat (0x101000 + 4 * j)) x) 0x101000 i = (if i = j then x else pt_entry m 0x101000 i)"
    and "i < 1024 \<Longrightarrow> pt_entry (store32 m (of_nat (0x101000 + 4 * j)) x) 0x100000 i = pt_entry m 0x100000 i"
proof -
  let ?m = "store32 m (of_nat (0x101000 + 4 * j)) x"
  have same: "?m p = m p" if "unat p < 0x101400" for p
    by (rule store32_other) (use j that in \<open>auto simp: word_bytes_iff simp del: of_nat_add of_nat_mult\<close>)
  show K': "kernel_mapped ?m" by (rule kernel_mapped_cong [OF same K])
  have "byte_at ?m v = byte_at m v" if "v \<in> low_kernel" for v
    using low_kernel_translate [OF K that] low_kernel_translate [OF K' that] same [of "v - 0xc0000000"]
    by (simp add: byte_at_def del: of_nat_add of_nat_mult)
  then show "bm_used ?m b = bm_used m b" if "bm_span b \<subseteq> low_kernel"
    using that by (intro bm_used_cong) blast
  show "pt_entry ?m 0x101000 i = (if i = j then x else pt_entry m 0x101000 i)" if "i < 1024"
    by (rule pt_entry_store_same) (use that j in simp_all)
  show "pt_entry ?m 0x100000 i = pt_entry m 0x100000 i" if "i < 1024"
    using pt_entry_store [of "0x101000 + 4 * j" "0x100000" i m x] that j by simp
qed

lemma kernel_dir_present:
  assumes K: "kernel_mapped m" and v: "0xc0000000 \<le> unat v"
  shows "load32 m (pde_addr v) AND 1 \<noteq> 0"
proof -
  obtain a b c where abc: "a < 1024" "b < 1024" "c < 4096" "v = va a b c" by (rule va_cases)
  then have "0xc0000000 \<le> c + 4096 * (b + 1024 * a)" using v unat_va [OF abc(1-3)] by (simp only:)
  moreover have "c \<le> 4095" "b \<le> 1023" using abc(2,3) by simp_all
  ultimately have "768 \<le> a" by (simp only: distrib_left mult.assoc [symmetric])
  have "pt_entry m 0x100000 a AND 1 \<noteq> 0"
  proof (cases "a = 768 \<or> a = 1023")
    case False
    then have "pt_entry m 0x100000 a = of_nat (0x102007 + (a - 769) * 4096)"
      using K abc(1) \<open>768 \<le> a\<close> unfolding kernel_mapped_def by (simp del: of_nat_add of_nat_mult)
    then show ?thesis using of_nat_odd_present [of "0x102007 + (a - 769) * 4096"] by (simp del: of_nat_add of_nat_mult)
  qed (use K in \<open>auto simp: kernel_mapped_def\<close>)
  then show ?thesis unfolding abc(4) pde_addr_va [OF abc(1-3)] pt_entry_def .
qed

section \<open>One page\<close>

text \<open>The kernel pool after \<open>k\<close> pages: the pool's bits and the entries \<open>page_table_add\<close> wrote.\<close>

definition pages_at :: "pool \<Rightarrow> mem \<Rightarrow> nat \<Rightarrow> bool" where
  "pages_at p m k \<longleftrightarrow> kernel_mapped m \<and> pool_ok p \<and> phy_addr_start p = 0x200000
     \<and> k \<le> bm_size (pool_bitmap p) \<and> bm_used m (pool_bitmap p) = {..<k}
     \<and> (\<forall>i<512. if i < k then pt_entry m 0x101000 (512 + i) = of_nat (4096 * (512 + i) + 7)
                else pt_entry m 0x101000 (512 + i) AND 1 = 0)"

text \<open>What allocating pages leaves alone: the other bitmaps in the low megabyte, the directory
  and the first half of the table that maps it.\<close>

definition others_kept :: "bitmap \<Rightarrow> mem \<Rightarrow> mem \<Rightarrow> bool" where
  "others_kept b m m' \<longleftrightarrow>
     (\<forall>c. bm_span c \<subseteq> low_kernel \<and> bm_span c \<inter> bm_span b = {} \<longrightarrow> bm_used m' c = bm_used m c)
   \<and> (\<forall>i<1024. pt_entry m' 0x100000 i = pt_entry m 0x100000 i)
   \<and> (\<forall>i<512. pt_entry m' 0x101000 i = pt_entry m 0x101000 i)"

lemma others_kept_refl: "others_kept b m m"
  by (simp add: others_kept_def)

lemma others_kept_trans: "others_kept b m m1 \<Longrightarrow> others_kept b m1 m2 \<Longrightarrow> others_kept b m m2"
  by (simp add: others_kept_def)

lemma updates_others_kept:
  assumes "updates m low_kernel D f m'" "kernel_mapped m" "D \<subseteq> bm_span b" "bm_span b \<subseteq> low_kernel"
  shows "others_kept b m m'"
proof -
  have D: "D \<subseteq> low_kernel" using assms(3,4) by blast
  have "bm_used m' c = bm_used m c" if "bm_span c \<subseteq> low_kernel" "bm_span c \<inter> bm_span b = {}" for c
    by (rule bm_used_updates_other [OF assms(1) that(1)]) (use that(2) assms(3) in blast)
  with pt_entry_updates [OF assms(1,2) D] show ?thesis by (auto simp: others_kept_def)
qed

lemma page_va: "k < 512 \<Longrightarrow> of_nat (4096 * (512 + k)) = va 0 (512 + k) 0"
  by (simp add: va_def)

lemma palloc_next:
  assumes P: "pages_at p m k" and k: "k < bm_size (pool_bitmap p)"
  obtains m' where "palloc p m = Inr (of_nat (4096 * (512 + k)), m')" "kernel_mapped m'"
    "bm_used m' (pool_bitmap p) = {..<Suc k}" "others_kept (pool_bitmap p) m m'"
    "\<forall>i<1024. pt_entry m' 0x101000 i = pt_entry m 0x101000 i"
proof -
  let ?b = "pool_bitmap p"
  have K: "kernel_mapped m" and ok: "pool_ok p" and used: "bm_used m ?b = {..<k}"
    and start: "phy_addr_start p = 0x200000" using P by (simp_all add: pages_at_def)
  have S: "bm_span ?b \<subseteq> low_kernel" using ok by (intro bm_reach_span) (simp add: pool_ok_def)
  have "bm_used m ?b \<noteq> {..<bm_size ?b}" using used k by simp
  then obtain i m' f where 1: "palloc p m = Inr (pool_page p i, m')" "kernel_mapped m'" "i < bm_size ?b"
      "i \<notin> bm_used m ?b" "{..<i} \<subseteq> bm_used m ?b" "bm_used m' ?b = insert i (bm_used m ?b)"
      "updates m low_kernel {bm_addr ?b i} f m'"
    by (rule palloc_free [OF K ok])
  have "i = k" using 1(4,5) used by (auto simp: not_less)
  have D: "{bm_addr ?b i} \<subseteq> bm_span ?b" using bm_span_addr [OF 1(3)] by simp
  have "pool_page p i = of_nat (4096 * (512 + k))"
    by (simp add: pool_page_def PG_SIZE_def start \<open>i = k\<close>)
  with 1(1) have "palloc p m = Inr (of_nat (4096 * (512 + k)), m')" by (simp only:)
  moreover have "bm_used m' ?b = {..<Suc k}" using 1(6) used \<open>i = k\<close> by (auto simp: lessThan_Suc)
  moreover have "others_kept ?b m m'" by (rule updates_others_kept [OF 1(7) K D S])
  moreover have "pt_entry m' 0x101000 j = pt_entry m 0x101000 j" if "j < 1024" for j
    by (rule pt_entry_updates [OF 1(7) K]) (use D S that in auto)
  ultimately show thesis using 1(2) by (intro that [of m']) blast+
qed

lemma page_table_add_next:
  assumes K: "kernel_mapped m" and v: "0xc0000000 \<le> unat v" and k: "k < 512"
    and free: "pt_entry m 0x101000 (512 + k) AND 1 = 0"
  shows "page_table_add kp v (of_nat (4096 * (512 + k))) m =
    Inr (store32 m (of_nat (0x101000 + 4 * (512 + k))) (of_nat (4096 * (512 + k) + 7)))"
proof -
  let ?p = "va 0 (512 + k) 0"
  have "pt_entry m 0x100000 0 = 0x101007" using K by (simp add: kernel_mapped_def)
  then have "load32 m (pde_addr ?p) AND 1 \<noteq> 0" "pte_addr m ?p = of_nat (0x101000 + 4 * (512 + k))"
    using k pde_addr_va [of 0 "512 + k" 0] pte_addr_va [of 0 "512 + k" 0 m]
    by (simp_all add: pt_entry_def)
  moreover have "?p OR PG_US_U OR PG_RW_W OR PG_P_1 = of_nat (4096 * (512 + k) + 7)"
    using page_entry [of "512 + k"] k page_va [OF k] by simp
  ultimately show ?thesis
    using page_table_add_present [OF K kernel_dir_present [OF K v], of kp ?p] free
    by (simp only: page_va [OF k] if_False pt_entry_def) simp
qed

section \<open>A run of pages\<close>

lemma pages_next:
  assumes P: "pages_at p m k" and k: "k < bm_size (pool_bitmap p)" "k < 512" and v: "0xc0000000 \<le> unat v"
  obtains m1 m2 where "palloc p m = Inr (of_nat (4096 * (512 + k)), m1)"
    "page_table_add kp v (of_nat (4096 * (512 + k))) m1 = Inr m2"
    "pages_at p m2 (Suc k)" "others_kept (pool_bitmap p) m m2"
proof -
  let ?b = "pool_bitmap p" and ?j = "512 + k"
  obtain m1 where 1: "palloc p m = Inr (of_nat (4096 * ?j), m1)" "kernel_mapped m1"
      "bm_used m1 ?b = {..<Suc k}" "others_kept ?b m m1"
      "\<forall>i<1024. pt_entry m1 0x101000 i = pt_entry m 0x101000 i"
    by (rule palloc_next [OF P k(1)])
  define m2 where "m2 = store32 m1 (of_nat (0x101000 + 4 * ?j)) (of_nat (4096 * ?j + 7))"
  have slots: "if i < k then pt_entry m 0x101000 (512 + i) = of_nat (4096 * (512 + i) + 7)
      else pt_entry m 0x101000 (512 + i) AND 1 = 0" if "i < 512" for i
    using P that by (simp add: pages_at_def)
  have "pt_entry m1 0x101000 ?j AND 1 = 0" using 1(5) slots [OF k(2)] k(2) by simp
  then have 2: "page_table_add kp v (of_nat (4096 * ?j)) m1 = Inr m2"
    unfolding m2_def by (rule page_table_add_next [OF 1(2) v k(2)])
  have j: "256 \<le> ?j" "?j < 1024" using k(2) by simp_all
  note st = store_slot [OF 1(2) j, where x = "of_nat (4096 * ?j + 7)", folded m2_def]
  have S: "bm_span ?b \<subseteq> low_kernel" using P by (intro bm_reach_span) (simp add: pages_at_def pool_ok_def)
  have "if i < Suc k then pt_entry m2 0x101000 (512 + i) = of_nat (4096 * (512 + i) + 7)
      else pt_entry m2 0x101000 (512 + i) AND 1 = 0" if "i < 512" for i
    using slots [OF that] 1(5) st(3) [of "512 + i"] that
    by (cases "i = k") (auto simp: less_Suc_eq simp del: of_nat_add of_nat_mult)
  moreover have "bm_used m2 ?b = {..<Suc k}" using st(2) [OF S] 1(3) by simp
  ultimately have "pages_at p m2 (Suc k)"
    using P k st(1) by (simp only: pages_at_def) (simp del: of_nat_add of_nat_mult)
  moreover have "others_kept ?b m1 m2" using st(2-4) k by (simp add: others_kept_def del: of_nat_add of_nat_mult)
  with 1(4) have "others_kept ?b m m2" by (rule others_kept_trans)
  ultimately show thesis using 1(1) 2 by (intro that)
qed

lemma malloc_step:
  assumes "0 < n" "n < 4294967296" "palloc p m = Inr (pg, m1)" "pg \<noteq> 0"
  shows "malloc_loop kp p v (of_nat n) m = rbind (page_table_add kp v pg m1) (malloc_loop kp p (v + PG_SIZE) (of_nat (n - 1)))"
proof -
  have "unat (of_nat n :: u32) = n" by (rule unat_of_nat32 [OF assms(2)])
  then have "(of_nat n :: u32) > 0" using assms(1) by (metis neq0_conv unat_0 word_gt_0)
  moreover have "(of_nat n :: u32) - 1 = of_nat (n - 1)" using assms(1) by (simp add: of_nat_diff)
  ultimately show ?thesis using assms(3,4) by (subst malloc_loop.simps) simp
qed

lemma page_nonzero:
  assumes "k < 1000" shows "(of_nat (4096 * (512 + k)) :: u32) \<noteq> 0"
proof
  assume z: "(of_nat (4096 * (512 + k)) :: u32) = 0"
  have "unat (of_nat (4096 * (512 + k)) :: u32) = 4096 * (512 + k)" by (rule unat_of_nat32) (use assms in simp)
  then show False unfolding z by simp
qed

lemma malloc_loop_pages:
  "pages_at p m k \<Longrightarrow> k + n \<le> bm_size (pool_bitmap p) \<Longrightarrow> k + n \<le> 512 \<Longrightarrow> 0xc0000000 \<le> unat v \<Longrightarrow>
   unat v + 4096 * n < 4294967296 \<Longrightarrow>
   \<exists>m'. malloc_loop kp p v (of_nat n) m = Inr (True, m') \<and> pages_at p m' (k + n) \<and> others_kept (pool_bitmap p) m m'"
proof (induction n arbitrary: m k v)
  case 0
  then show ?case by (subst malloc_loop.simps) (auto intro: others_kept_refl)
next
  case (Suc n)
  have k: "k < bm_size (pool_bitmap p)" "k < 512" using Suc.prems(2,3) by simp_all
  obtain m1 m2 where 1: "palloc p m = Inr (of_nat (4096 * (512 + k)), m1)"
      "page_table_add kp v (of_nat (4096 * (512 + k))) m1 = Inr m2" "pages_at p m2 (Suc k)"
      "others_kept (pool_bitmap p) m m2"
    by (rule pages_next [OF Suc.prems(1) k Suc.prems(4)])
  have nz: "(of_nat (4096 * (512 + k)) :: u32) \<noteq> 0" by (rule page_nonzero) (use k in simp)
  have n: "Suc n < 4294967296" using Suc.prems(3) by simp
  have v: "unat (v + PG_SIZE) = unat v + 4096"
    using unat_add_no_wrap [of v 4096] Suc.prems(5) by (simp add: PG_SIZE_def)
  obtain m' where 2: "malloc_loop kp p (v + PG_SIZE) (of_nat n) m2 = Inr (True, m')" "pages_at p m' (Suc k + n)"
      "others_kept (pool_bitmap p) m2 m'"
    using Suc.IH [OF 1(3), of "v + PG_SIZE"] Suc.prems v by auto
  have "malloc_loop kp p v (of_nat (Suc n)) m = Inr (True, m')"
    using malloc_step [OF zero_less_Suc n 1(1) nz, of kp v] 1(2) 2(1) by (simp del: of_nat_Suc)
  with 2 others_kept_trans [OF 1(4) 2(3)] show ?case by (simp del: of_nat_Suc)
qed

section \<open>The heap\<close>

definition heap_at :: "machine \<Rightarrow> nat \<Rightarrow> bool" where
  "heap_at s k \<longleftrightarrow> pages_at (kernel_pool s) (pmem s) k
     \<and> vaddr_start (kernel_vaddr s) = K_HEAP_START
     \<and> bm_reach (vaddr_bitmap (kernel_vaddr s)) \<subseteq> low_kernel
     \<and> bm_span (vaddr_bitmap (kernel_vaddr s)) \<inter> bm_span (pool_bitmap (kernel_pool s)) = {}
     \<and> bm_size (vaddr_bitmap (kernel_vaddr s)) = bm_size (pool_bitmap (kernel_pool s))
     \<and> bm_used (pmem s) (vaddr_bitmap (kernel_vaddr s)) = {..<k}"

lemma free_run_prefix:
  "bm_used m b = {..<k} \<Longrightarrow> 0 < n \<Longrightarrow> t + n \<le> bm_size b \<Longrightarrow> free_run m b t n \<longleftrightarrow> k \<le> t"
proof
  assume u: "bm_used m b = {..<k}" and n: "0 < n" "t + n \<le> bm_size b"
  then have b: "bm_bit m b i \<longleftrightarrow> i < k" if "i < bm_size b" for i
    using that by (auto simp: bm_used_def set_eq_iff)
  show "k \<le> t" if "free_run m b t n" using that b [of t] n unfolding free_run_def by auto
  show "free_run m b t n" if "k \<le> t" using that b n unfolding free_run_def by auto
qed

lemma scan_prefix:
  assumes R: "data_region m S" "bm_reach b \<subseteq> S" "bm_size b + 8 < 4294967296"
    and u: "bm_used m b = {..<k}" and n: "0 < unat cnt" "k + unat cnt \<le> bm_size b"
  shows "bitmap_scan b cnt m = Inr (of_nat k)"
proof -
  have "k < bm_size b" using n by simp
  moreover from this have "\<not> bm_bit m b k" using u by (auto simp: bm_used_def set_eq_iff)
  ultimately have "\<not> (\<forall>i < bm_size b. bm_bit m b i)" by blast
  moreover have "cnt \<noteq> 0" using n(1) by auto
  ultimately have "\<exists>r. bitmap_scan b cnt m = Inr r \<and>
      scan_answer m b (unat cnt) (if cnt = 1 then bm_size b else Suc (bm_size b)) r"
    using bitmap_scan_region [OF R, of cnt] by (simp only: if_False) simp
  then obtain r where r: "bitmap_scan b cnt m = Inr r"
      "scan_answer m b (unat cnt) (if cnt = 1 then bm_size b else Suc (bm_size b)) r" by blast
  have run: "free_run m b k (unat cnt)" using free_run_prefix [OF u n(1), of k] n(2) by simp
  have before: "\<not> free_run m b t (unat cnt)" if "t < k" for t
    using free_run_prefix [OF u n(1), of t] n(2) that by simp
  have "r = of_nat k"
    using r(2) unfolding scan_answer_def
  proof (elim disjE conjE exE)
    fix t assume "r = of_nat t" "free_run m b t (unat cnt)" "\<forall>t'<t. \<not> free_run m b t' (unat cnt)"
    then show ?thesis using run before by (metis linorder_neqE_nat)
  qed (use run n(2) in \<open>auto split: if_splits\<close>)
  with r(1) show ?thesis by simp
qed

lemma vaddr_get_next:
  assumes H: "heap_at s k" and n: "0 < unat cnt" "k + unat cnt \<le> bm_size (pool_bitmap (kernel_pool s))"
  obtains m' D f where "vaddr_get PF_KERNEL cnt s = Inr (K_HEAP_START + of_nat k * PG_SIZE, s\<lparr>pmem := m'\<rparr>)"
    "updates (pmem s) low_kernel D f m'" "D \<subseteq> bm_span (vaddr_bitmap (kernel_vaddr s))"
    "bm_used m' (vaddr_bitmap (kernel_vaddr s)) = {..<k + unat cnt}"
proof -
  let ?b = "vaddr_bitmap (kernel_vaddr s)"
  have h: "bm_reach ?b \<subseteq> low_kernel" "bm_used (pmem s) ?b = {..<k}" "kernel_mapped (pmem s)"
      "bm_size ?b = bm_size (pool_bitmap (kernel_pool s))" "bm_size ?b + 8 < 4294967296"
      "vaddr_start (kernel_vaddr s) = K_HEAP_START"
    using H by (simp_all add: heap_at_def pages_at_def pool_ok_def)
  note R = data_region_low [OF h(3)]
  have n': "k + unat cnt \<le> bm_size ?b" using n(2) h(4) by simp
  have k: "unat (of_nat k :: u32) = k" by (rule unat_of_nat32) (use n' h(5) in simp)
  have ne: "(of_nat k :: u32) \<noteq> - 1" by (rule of_nat_not_minus1) (use n n' h(5) in simp)
  have scan: "bitmap_scan ?b cnt (pmem s) = Inr (of_nat k)" by (rule scan_prefix [OF R h(1,5,2) n(1) n'])
  have w: "unat (of_nat k :: u32) + unat cnt \<le> bm_size ?b" using n' k by simp
  obtain m' D f where 1: "vaddr_set_loop ?b (of_nat k) 0 cnt (pmem s) = Inr m'"
      "updates (pmem s) low_kernel D f m'" "D \<subseteq> bm_span ?b"
      "bm_used m' ?b = bm_used (pmem s) ?b \<union> {unat (of_nat k :: u32) + unat (0 :: u32)..<unat (of_nat k :: u32) + unat cnt}"
    using vaddr_set_loop_run [OF R h(1,5) w, of 0] by (simp only: unat_0 le0 simp_thms) blast
  have "bm_used m' ?b = {..<k + unat cnt}" unfolding 1(4) h(2) k by auto
  moreover have "vaddr_get PF_KERNEL cnt s = Inr (K_HEAP_START + of_nat k * PG_SIZE, s\<lparr>pmem := m'\<rparr>)"
    by (simp add: vaddr_get_def Let_def scan ne 1(1) h(6))
  ultimately show thesis using 1(2,3) by (intro that)
qed

lemma heap_vaddr_kept:
  assumes H: "heap_at s k" and u: "updates (pmem s) low_kernel D f m'"
    and D: "D \<subseteq> bm_span (vaddr_bitmap (kernel_vaddr s))"
  shows "pages_at (kernel_pool s) m' k" "others_kept (vaddr_bitmap (kernel_vaddr s)) (pmem s) m'"
proof -
  let ?v = "vaddr_bitmap (kernel_vaddr s)" and ?b = "pool_bitmap (kernel_pool s)"
  have h: "kernel_mapped (pmem s)" "bm_span ?v \<subseteq> low_kernel" "bm_span ?v \<inter> bm_span ?b = {}"
      "bm_span ?b \<subseteq> low_kernel" "pages_at (kernel_pool s) (pmem s) k"
    using H bm_reach_span by (auto simp: heap_at_def pages_at_def pool_ok_def)
  have D': "D \<subseteq> low_kernel" using D h(2) by blast
  show kept: "others_kept ?v (pmem s) m'" by (rule updates_others_kept [OF u h(1) D h(2)])
  have "bm_used m' ?b = bm_used (pmem s) ?b" using kept h(3,4) by (auto simp: others_kept_def)
  moreover have "pt_entry m' 0x101000 i = pt_entry (pmem s) 0x101000 i" if "i < 1024" for i
    by (rule pt_entry_updates [OF u h(1) D']) (use that in simp_all)
  ultimately show "pages_at (kernel_pool s) m' k"
    using h(5) updates_low(1) [OF u h(1) D'] by (simp add: pages_at_def)
qed

lemma malloc_loop_fault:
  "pages_at p m k \<Longrightarrow> k \<le> 512 \<Longrightarrow> 512 < k + n \<Longrightarrow> n < 4294967296 \<Longrightarrow> 512 < bm_size (pool_bitmap p) \<Longrightarrow>
   pt_entry m 0x100000 1 AND 1 = 0 \<Longrightarrow> 0xc0000000 \<le> unat v \<Longrightarrow> unat v + 4096 * n < 4294967296 \<Longrightarrow>
   malloc_loop kp p v (of_nat n) m = Inl (PageFault 0xffc01000)"
proof (induction n arbitrary: m k v)
  case (Suc n)
  have size: "k < bm_size (pool_bitmap p)" using Suc.prems(2,5) by simp
  have nz: "(of_nat (4096 * (512 + k)) :: u32) \<noteq> 0" by (rule page_nonzero) (use Suc.prems(2) in simp)
  show ?case
  proof (cases "k < 512")
    case True
    obtain m1 m2 where 1: "palloc p m = Inr (of_nat (4096 * (512 + k)), m1)"
        "page_table_add kp v (of_nat (4096 * (512 + k))) m1 = Inr m2" "pages_at p m2 (Suc k)"
        "others_kept (pool_bitmap p) m m2"
      by (rule pages_next [OF Suc.prems(1) size True Suc.prems(7)])
    have "pt_entry m2 0x100000 1 AND 1 = 0" using 1(4) Suc.prems(6) by (simp add: others_kept_def)
    moreover have "unat (v + PG_SIZE) = unat v + 4096"
      using unat_add_no_wrap [of v 4096] Suc.prems(8) by (simp add: PG_SIZE_def)
    ultimately have "malloc_loop kp p (v + PG_SIZE) (of_nat n) m2 = Inl (PageFault 0xffc01000)"
      using Suc.IH [OF 1(3), of "v + PG_SIZE"] Suc.prems True by simp
    then show ?thesis using malloc_step [OF zero_less_Suc Suc.prems(4) 1(1) nz, of kp v] 1(2) by simp
  next
    case False
    then have k: "k = 512" using Suc.prems(2) by simp
    obtain m1 where 1: "palloc p m = Inr (of_nat (4096 * (512 + k)), m1)" "kernel_mapped m1"
        "bm_used m1 (pool_bitmap p) = {..<Suc k}" "others_kept (pool_bitmap p) m m1"
        "\<forall>i<1024. pt_entry m1 0x101000 i = pt_entry m 0x101000 i"
      by (rule palloc_next [OF Suc.prems(1) size])
    have pg: "of_nat (4096 * (512 + k)) = va 1 0 0" by (simp add: k va_def)
    have "pt_entry m1 0x100000 1 AND 1 = 0" using 1(4) Suc.prems(6) by (simp add: others_kept_def)
    then have "load32 m1 (pde_addr (va 1 0 0)) AND 1 = 0" by (simp add: pde_addr_va pt_entry_def)
    moreover have "pte_ptr (va 1 0 0) = 0xffc01000" by (simp add: pte_ptr_va) (simp add: va_def)
    ultimately have "page_table_add kp v (of_nat (4096 * (512 + k))) m1 = Inl (PageFault 0xffc01000)"
      using page_table_add_present [OF 1(2) kernel_dir_present [OF 1(2) Suc.prems(7)], of kp "va 1 0 0"]
      unfolding pg by simp
    then show ?thesis using malloc_step [OF zero_less_Suc Suc.prems(4) 1(1) nz, of kp v] by simp
  qed
qed simp

lemma heap_addr:
  assumes "k < 512" shows "unat (K_HEAP_START + of_nat k * PG_SIZE) = 0xc0100000 + 4096 * k"
proof -
  have "K_HEAP_START + of_nat k * PG_SIZE = 0xc0100000 + of_nat (4096 * k)"
    by (simp add: K_HEAP_START_def PG_SIZE_def)
  moreover have u: "unat (0xc0100000 :: u32) = 0xc0100000" by simp
  moreover have "unat (0xc0100000 + of_nat (4096 * k) :: u32) = unat (0xc0100000 :: u32) + 4096 * k"
    by (rule unat_add_no_wrap, unfold u) (use assms in simp)
  ultimately show ?thesis by (simp only:)
qed

lemma malloc_page_start:
  assumes H: "heap_at s k" and n: "0 < n" "n < 3840" "k + n \<le> bm_size (pool_bitmap (kernel_pool s))" "k < 512"
  obtains m1 where "pages_at (kernel_pool s) m1 k" "others_kept (vaddr_bitmap (kernel_vaddr s)) (pmem s) m1"
    "bm_used m1 (vaddr_bitmap (kernel_vaddr s)) = {..<k + n}"
    "malloc_page PF_KERNEL (of_nat n) s =
      rbind (malloc_loop (kernel_pool s) (kernel_pool s) (K_HEAP_START + of_nat k * PG_SIZE) (of_nat n) m1) (\<lambda>(ok, m).
        Inr (if ok then K_HEAP_START + of_nat k * PG_SIZE else 0, s\<lparr>pmem := m\<rparr>))"
proof -
  let ?v = "K_HEAP_START + of_nat k * PG_SIZE"
  have u: "unat (of_nat n :: u32) = n" by (rule unat_of_nat32) (use n in simp)
  obtain m1 D f where 1: "vaddr_get PF_KERNEL (of_nat n) s = Inr (?v, s\<lparr>pmem := m1\<rparr>)"
      "updates (pmem s) low_kernel D f m1" "D \<subseteq> bm_span (vaddr_bitmap (kernel_vaddr s))"
      "bm_used m1 (vaddr_bitmap (kernel_vaddr s)) = {..<k + unat (of_nat n :: u32)}"
    by (rule vaddr_get_next [OF H, of "of_nat n"]) (use n u in simp_all)
  have "(of_nat n :: u32) > 0 \<and> (of_nat n :: u32) < 3840" using n u by (simp add: word_less_nat_alt)
  moreover have "?v \<noteq> 0" using heap_addr [OF n(4)] by auto
  ultimately have "malloc_page PF_KERNEL (of_nat n) s =
      rbind (malloc_loop (kernel_pool s) (kernel_pool s) ?v (of_nat n) m1) (\<lambda>(ok, m).
        Inr (if ok then ?v else 0, s\<lparr>pmem := m\<rparr>))"
    using 1(1) by (simp add: malloc_page_def Let_def)
  with heap_vaddr_kept [OF H 1(2,3)] 1(4) u show thesis by (intro that [of m1]) simp_all
qed

lemma malloc_page_next:
  assumes H: "heap_at s k" and n: "0 < n" "k + n \<le> 512" "k + n \<le> bm_size (pool_bitmap (kernel_pool s))"
  shows "\<exists>m'. malloc_page PF_KERNEL (of_nat n) s = Inr (K_HEAP_START + of_nat k * PG_SIZE, s\<lparr>pmem := m'\<rparr>)
    \<and> heap_at (s\<lparr>pmem := m'\<rparr>) (k + n) \<and> (\<forall>i<1024. pt_entry m' 0x100000 i = pt_entry (pmem s) 0x100000 i)
    \<and> (\<forall>i<512. pt_entry m' 0x101000 i = pt_entry (pmem s) 0x101000 i)"
proof -
  let ?v = "K_HEAP_START + of_nat k * PG_SIZE" and ?p = "kernel_pool s" and ?b = "vaddr_bitmap (kernel_vaddr s)"
  have k: "k < 512" "n < 3840" using n by simp_all
  obtain m1 where 1: "pages_at ?p m1 k" "others_kept ?b (pmem s) m1" "bm_used m1 ?b = {..<k + n}"
      "malloc_page PF_KERNEL (of_nat n) s = rbind (malloc_loop ?p ?p ?v (of_nat n) m1) (\<lambda>(ok, m).
        Inr (if ok then ?v else 0, s\<lparr>pmem := m\<rparr>))"
    using malloc_page_start [OF H n(1) k(2) n(3) k(1)] by blast
  have v: "0xc0000000 \<le> unat ?v" "unat ?v + 4096 * n < 4294967296" using heap_addr [OF k(1)] n(2) by simp_all
  obtain m' where 2: "malloc_loop ?p ?p ?v (of_nat n) m1 = Inr (True, m')" "pages_at ?p m' (k + n)"
      "others_kept (pool_bitmap ?p) m1 m'"
    using malloc_loop_pages [OF 1(1) n(3,2) v] by blast
  have h: "bm_span ?b \<subseteq> low_kernel" "bm_span ?b \<inter> bm_span (pool_bitmap ?p) = {}"
    using H bm_reach_span by (auto simp: heap_at_def)
  then have "bm_used m' ?b = {..<k + n}" using 2(3) 1(3) by (simp add: others_kept_def)
  then have "heap_at (s\<lparr>pmem := m'\<rparr>) (k + n)" using H 2(2) by (simp add: heap_at_def)
  with 1(2,4) 2(1,3) show ?thesis by (auto simp: others_kept_def)
qed

text \<open>Addresses of the heap's first megabyte go through the first half of the first table.\<close>

lemma heap_translate:
  assumes K: "kernel_mapped m" and i: "i < 768"
  shows "translate m (K_HEAP_START + of_nat i * PG_SIZE) = (if pt_entry m 0x101000 (256 + i) AND 1 = 0 then None
    else Some (of_nat (frame_no (pt_entry m 0x101000 (256 + i)))))"
proof -
  have "K_HEAP_START + of_nat i * PG_SIZE = va 768 (256 + i) 0" by (simp add: K_HEAP_START_def PG_SIZE_def va_def)
  moreover have "pt_entry m 0x100000 768 = 0x101007" using K by (simp add: kernel_mapped_def)
  ultimately show ?thesis using i translate_va [of 768 "256 + i" 0 m] by (simp add: Let_def)
qed

lemma page_translate:
  assumes P: "pages_at p m k" and i: "i < k" "i < 512"
  shows "translate m (of_nat (4096 * (512 + i))) = Some (of_nat (4096 * (512 + i)))"
proof -
  have e: "pt_entry m 0x101000 (512 + i) = of_nat ((512 + i) * 4096 + 7)" "pt_entry m 0x100000 0 = 0x101007"
    using P i by (simp_all add: pages_at_def kernel_mapped_def)
  have "of_nat ((512 + i) * 4096 + 7) AND 1 \<noteq> (0 :: u32)" by (rule of_nat_odd_present) simp
  moreover have "frame_no (of_nat ((512 + i) * 4096 + 7)) = (512 + i) * 4096"
    by (rule frame_no_of_nat) (use i in simp_all)
  ultimately have "translate m (va 0 (512 + i) 0) = Some (of_nat ((512 + i) * 4096))"
    using i e translate_va [of 0 "512 + i" 0 m] by (simp add: Let_def del: of_nat_add of_nat_mult)
  then show ?thesis using page_va [OF i(2)] by (simp add: mult.commute)
qed

end
