(* ===== verification/Kpools.thy ===== *)
theory Kpools
  imports Kheap
begin

text \<open>
  What \<open>mem_pool_init\<close> (\<open>kernel/memory.c\<close>) sets up, for every size of memory the boot loader
  reports: the two physical pools and the kernel's virtual address pool, with their three
  bitmaps one after the other from \<open>MEM_BITMAP_BASE\<close>.  \<open>free_pages\<close> is the number of pages
  the code computes, in a \<open>uint16_t\<close>.
\<close>

section \<open>The numbers\<close>

definition free_pages :: "u32 \<Rightarrow> nat" where
  "free_pages all_mem = unat (all_mem - 0x200000) div 4096 mod 65536"

lemma free_pages_u16: "unat (ucast ((all_mem - 0x200000) div PG_SIZE) :: u16) = free_pages all_mem"
  by (simp add: free_pages_def unsigned_ucast_eq PG_SIZE_def unat_div take_bit_eq_mod)

lemma ucast_u16_u32: "unat (ucast (x :: u16) :: u32) = unat x"
proof -
  have "unat x < 2 ^ LENGTH(16)" by (rule unsigned_less)
  then have "unat x < 2 ^ 32" by simp
  then show ?thesis by (simp add: unsigned_ucast_eq take_bit_nat_eq_self)
qed

lemma half_u16: "unat (x div 2 :: u16) = unat x div 2" "unat (x - x div 2 :: u16) = unat x - unat x div 2"
proof -
  show half: "unat (x div 2) = unat x div 2" by (simp add: unat_div)
  have "x div 2 \<le> x" by (simp add: word_le_nat_alt half)
  then show "unat (x - x div 2) = unat x - unat x div 2" by (simp add: unat_sub half)
qed

lemma pool_numbers:
  fixes all_mem :: u32
  defines "pages \<equiv> (ucast ((all_mem - 0x200000) div PG_SIZE) :: u16)"
  shows "(ucast (pages div 2) :: u32) = of_nat (free_pages all_mem div 2)"
    and "(ucast (pages - pages div 2) :: u32) = of_nat (free_pages all_mem - free_pages all_mem div 2)"
    and "(of_nat (free_pages all_mem div 2) :: u32) div 8 = of_nat (free_pages all_mem div 2 div 8)"
    and "(of_nat (free_pages all_mem - free_pages all_mem div 2) :: u32) div 8 =
      of_nat ((free_pages all_mem - free_pages all_mem div 2) div 8)"
proof -
  let ?N = "free_pages all_mem"
  have N: "?N < 65536" by (simp add: free_pages_def)
  have p: "unat pages = ?N" unfolding pages_def by (rule free_pages_u16)
  have b: "?N div 2 < 4294967296" "?N - ?N div 2 < 4294967296" "?N div 2 div 8 < 4294967296"
      "(?N - ?N div 2) div 8 < 4294967296" using N by auto
  show "(ucast (pages div 2) :: u32) = of_nat (?N div 2)"
    by (simp only: word_unat_eq_iff ucast_u16_u32 half_u16 p unat_of_nat32 [OF b(1)])
  show "(ucast (pages - pages div 2) :: u32) = of_nat (?N - ?N div 2)"
    by (simp only: word_unat_eq_iff ucast_u16_u32 half_u16 p unat_of_nat32 [OF b(2)])
  show "(of_nat (?N div 2) :: u32) div 8 = of_nat (?N div 2 div 8)"
    by (simp only: word_unat_eq_iff unat_div unat_of_nat32 [OF b(1)] unat_of_nat32 [OF b(3)]) simp
  show "(of_nat (?N - ?N div 2) :: u32) div 8 = of_nat ((?N - ?N div 2) div 8)"
    by (simp only: word_unat_eq_iff unat_div unat_of_nat32 [OF b(2)] unat_of_nat32 [OF b(4)]) simp
qed

section \<open>The three bitmaps\<close>

definition kernel_bm :: "u32 \<Rightarrow> bitmap" where
  "kernel_bm all_mem = \<lparr>btmp_bytes_len = of_nat (free_pages all_mem div 2 div 8), bits = MEM_BITMAP_BASE\<rparr>"

definition user_bm :: "u32 \<Rightarrow> bitmap" where
  "user_bm all_mem = \<lparr>btmp_bytes_len = of_nat ((free_pages all_mem - free_pages all_mem div 2) div 8),
     bits = MEM_BITMAP_BASE + of_nat (free_pages all_mem div 2 div 8)\<rparr>"

definition vaddr_bm :: "u32 \<Rightarrow> bitmap" where
  "vaddr_bm all_mem = \<lparr>btmp_bytes_len = of_nat (free_pages all_mem div 2 div 8),
     bits = MEM_BITMAP_BASE + of_nat (free_pages all_mem div 2 div 8)
       + of_nat ((free_pages all_mem - free_pages all_mem div 2) div 8)\<rparr>"

lemma bm_place:
  assumes "bits b = MEM_BITMAP_BASE + of_nat x" "btmp_bytes_len b = of_nat n" "x + n < 65536"
  shows "unat (bits b) = 0xc009a000 + x" "unat (btmp_bytes_len b) = n" "bm_reach b \<subseteq> low_kernel"
    "bm_span b \<subseteq> low_kernel" "bits b \<noteq> 0" "bm_size b + 8 < 4294967296" "bm_size b = 8 * n"
proof -
  have u: "unat (0xc009a000 :: u32) = 0xc009a000" by simp
  have "unat (0xc009a000 + of_nat x :: u32) = unat (0xc009a000 :: u32) + x"
    by (rule unat_add_no_wrap, unfold u) (use assms(3) in simp)
  then show ub: "unat (bits b) = 0xc009a000 + x" by (simp only: assms(1) MEM_BITMAP_BASE_def u)
  then show "bits b \<noteq> 0" by auto
  show un: "unat (btmp_bytes_len b) = n"
    unfolding assms(2) by (rule unat_of_nat32) (use assms(3) in simp)
  have "bits b - 0xc0000000 = 0x9a000 + of_nat x" by (simp add: assms(1) MEM_BITMAP_BASE_def)
  moreover have u': "unat (0x9a000 :: u32) = 0x9a000" by simp
  moreover have "unat (0x9a000 + of_nat x :: u32) = unat (0x9a000 :: u32) + x"
    by (rule unat_add_no_wrap, unfold u') (use assms(3) in simp)
  ultimately have "unat (bits b - 0xc0000000) = 0x9a000 + x" by (simp only:)
  then show r: "bm_reach b \<subseteq> low_kernel"
    unfolding bm_reach_def by (intro span_low) (use un assms(3) in simp)
  show "bm_span b \<subseteq> low_kernel" using r by (rule bm_reach_span)
  show "bm_size b + 8 < 4294967296" "bm_size b = 8 * n" using assms(3) by (simp_all add: bm_size_def un)
qed

lemma pool_bitmaps:
  fixes all_mem defines "k \<equiv> free_pages all_mem div 2 div 8"
    and "u \<equiv> (free_pages all_mem - free_pages all_mem div 2) div 8"
  shows "k + u + k < 65536"
    and "bits (kernel_bm all_mem) = MEM_BITMAP_BASE + of_nat 0" "btmp_bytes_len (kernel_bm all_mem) = of_nat k"
    and "bits (user_bm all_mem) = MEM_BITMAP_BASE + of_nat k" "btmp_bytes_len (user_bm all_mem) = of_nat u"
    and "bits (vaddr_bm all_mem) = MEM_BITMAP_BASE + of_nat (k + u)" "btmp_bytes_len (vaddr_bm all_mem) = of_nat k"
proof -
  have "free_pages all_mem < 65536" by (simp add: free_pages_def)
  then show "k + u + k < 65536" unfolding k_def u_def by simp
qed (simp_all add: kernel_bm_def user_bm_def vaddr_bm_def k_def u_def)

lemmas kernel_bm_place = bm_place [OF pool_bitmaps(2,3)]
lemmas user_bm_place = bm_place [OF pool_bitmaps(4,5)]
lemmas vaddr_bm_place = bm_place [OF pool_bitmaps(6,7)]

lemma bm_span_after:
  "unat (bits a) + unat (btmp_bytes_len a) \<le> unat (bits b) \<Longrightarrow> unat (bits b) + unat (btmp_bytes_len b) \<le> 4294967296 \<Longrightarrow>
     bm_span a \<inter> bm_span b = {}"
  unfolding bm_span_def by (rule span_disjoint)

lemma pool_bitmaps_disjoint:
  "bm_span (kernel_bm all_mem) \<inter> bm_span (user_bm all_mem) = {}"
  "bm_span (kernel_bm all_mem) \<inter> bm_span (vaddr_bm all_mem) = {}"
  "bm_span (user_bm all_mem) \<inter> bm_span (vaddr_bm all_mem) = {}"
  using pool_bitmaps(1) [of all_mem]
  by (intro bm_span_after; simp add: kernel_bm_place(1,2) user_bm_place(1,2) vaddr_bm_place(1,2))+

section \<open>\<open>mem_pool_init\<close>\<close>

definition pools_ready :: "u32 \<Rightarrow> machine \<Rightarrow> bool" where
  "pools_ready all_mem s \<longleftrightarrow>
     kernel_pool s = \<lparr>pool_bitmap = kernel_bm all_mem, phy_addr_start = 0x200000,
       pool_size = of_nat (free_pages all_mem div 2) * 4096\<rparr>
   \<and> user_pool s = \<lparr>pool_bitmap = user_bm all_mem,
       phy_addr_start = 0x200000 + of_nat (free_pages all_mem div 2) * 4096,
       pool_size = of_nat (free_pages all_mem - free_pages all_mem div 2) * 4096\<rparr>
   \<and> kernel_vaddr s = \<lparr>vaddr_bitmap = vaddr_bm all_mem, vaddr_start = K_HEAP_START\<rparr>
   \<and> bm_used (pmem s) (kernel_bm all_mem) = {} \<and> bm_used (pmem s) (user_bm all_mem) = {}
   \<and> bm_used (pmem s) (vaddr_bm all_mem) = {}"

lemma lift_mem_Inr: "f (pmem s) = Inr m \<Longrightarrow> lift_mem f s = Inr (s\<lparr>pmem := m\<rparr>)"
  by (simp add: lift_mem_def)

text \<open>Memory with the bytes of the three bitmaps cleared.\<close>

definition bitmap_bytes :: "u32 \<Rightarrow> nat" where
  "bitmap_bytes all_mem = free_pages all_mem div 2 div 8 + (free_pages all_mem - free_pages all_mem div 2) div 8 + free_pages all_mem div 2 div 8"

definition bitmaps_cleared :: "u32 \<Rightarrow> mem \<Rightarrow> mem" where
  "bitmaps_cleared all_mem m = (\<lambda>p. if 0x9a000 \<le> unat p \<and> unat p < 0x9a000 + bitmap_bytes all_mem then 0 else m p)"

text \<open>Clearing a bitmap clears its bytes in physical memory and nothing else; the three follow one another.\<close>

lemma cleared_bytes:
  assumes K: "kernel_mapped m" and u: "updates m low_kernel (bm_span b) (\<lambda>_. 0) m'"
    and b: "bits b = MEM_BITMAP_BASE + of_nat x" "btmp_bytes_len b = of_nat n" "x + n < 65536"
  shows "m' p = (if 0x9a000 + x \<le> unat p \<and> unat p < 0x9a000 + x + n then 0 else m p)"
proof -
  note pl = bm_place [OF b]
  let ?w = "p + 0xc0000000"
  have "unat (0x9a000 + of_nat x :: u32) = 0x9a000 + x"
    using unat_add_no_wrap [of "0x9a000" x] b(3) by simp
  moreover have "?w - bits b = p - (0x9a000 + of_nat x)" by (simp add: b(1) MEM_BITMAP_BASE_def)
  moreover from this have "0x9a000 + x + n \<le> 4294967296" using b(3) by simp
  ultimately have w: "?w \<in> bm_span b \<longleftrightarrow> 0x9a000 + x \<le> unat p \<and> unat p < 0x9a000 + x + n"
    using unat_diff_less_iff [of "0x9a000 + of_nat x" n p] pl(2) by (simp only: bm_span_def span_iff)
  show ?thesis
  proof (cases "?w \<in> bm_span b")
    case True
    then have "?w \<in> low_kernel" using pl(4) by blast
    with K u have "byte_at m' ?w = m' p" by (simp add: byte_at_def updates_translate low_kernel_translate(1))
    then show ?thesis using updates_byte [OF u \<open>?w \<in> low_kernel\<close>] True w by simp
  next
    case False
    have "p \<notin> frames_of m (bm_span b)"
    proof
      assume "p \<in> frames_of m (bm_span b)"
      then obtain v where "v \<in> bm_span b" "p = the (translate m v)" by (auto simp: frames_of_def)
      moreover from this pl(4) have "translate m v = Some (v - 0xc0000000)" using low_kernel_translate(1) [OF K] by blast
      ultimately show False using False by simp
    qed
    then show ?thesis using updates_frame [OF u] False unfolding w by auto
  qed
qed

lemma init_bitmaps:
  assumes K: "kernel_mapped m"
  obtains m1 m2 m3 D f where "bitmap_init (kernel_bm a) m = Inr m1" "bitmap_init (user_bm a) m1 = Inr m2"
    "bitmap_init (vaddr_bm a) m2 = Inr m3" "updates m low_kernel D f m3" "D \<subseteq> low_kernel"
    "bm_used m3 (kernel_bm a) = {}" "bm_used m3 (user_bm a) = {}" "bm_used m3 (vaddr_bm a) = {}" "\<And>p. m3 p = bitmaps_cleared a m p"
proof -
  note sum = pool_bitmaps(1) [of a]
  have S: "bm_span (kernel_bm a) \<subseteq> low_kernel" "bm_span (user_bm a) \<subseteq> low_kernel" "bm_span (vaddr_bm a) \<subseteq> low_kernel"
    "bits (kernel_bm a) \<noteq> 0" "bits (user_bm a) \<noteq> 0" "bits (vaddr_bm a) \<noteq> 0"
    using kernel_bm_place(4,5) user_bm_place(4,5) vaddr_bm_place(4,5) sum by simp_all
  obtain m1 where 1: "bitmap_init (kernel_bm a) m = Inr m1"
      "updates m low_kernel (bm_span (kernel_bm a)) (\<lambda>_. 0) m1" "bm_used m1 (kernel_bm a) = {}"
    by (rule bitmap_init_region [OF data_region_low [OF K] S(1,4)])
  obtain m2 where 2: "bitmap_init (user_bm a) m1 = Inr m2"
      "updates m1 low_kernel (bm_span (user_bm a)) (\<lambda>_. 0) m2" "bm_used m2 (user_bm a) = {}"
    by (rule bitmap_init_region [OF updates_region [OF 1(2)] S(2,5)])
  obtain m3 where 3: "bitmap_init (vaddr_bm a) m2 = Inr m3"
      "updates m2 low_kernel (bm_span (vaddr_bm a)) (\<lambda>_. 0) m3" "bm_used m3 (vaddr_bm a) = {}"
    by (rule bitmap_init_region [OF updates_region [OF 2(2)] S(3,6)])
  note u = updates_trans [OF updates_trans [OF 1(2) 2(2) S(2)] 3(2) S(3)]
  have "bm_used m3 (kernel_bm a) = {}"
    using bm_used_updates_other [OF 2(2) S(1)] bm_used_updates_other [OF 3(2) S(1)]
      pool_bitmaps_disjoint [of a] 1(3) by simp
  moreover have "bm_used m3 (user_bm a) = {}"
    using bm_used_updates_other [OF 3(2) S(2)] pool_bitmaps_disjoint [of a] 2(3) by simp
  moreover have "bm_span (kernel_bm a) \<union> bm_span (user_bm a) \<union> bm_span (vaddr_bm a) \<subseteq> low_kernel"
    using S by blast
  moreover have "m3 p = bitmaps_cleared a m p" for p
  proof -
    have sub: "bm_span (kernel_bm a) \<subseteq> low_kernel" "bm_span (user_bm a) \<subseteq> low_kernel" using S by simp_all
    note K1 = updates_low(1) [OF 1(2) K sub(1)]
    note K2 = updates_low(1) [OF 2(2) K1 sub(2)]
    show ?thesis
      using cleared_bytes [OF K 1(2) pool_bitmaps(2,3), of p] cleared_bytes [OF K1 2(2) pool_bitmaps(4,5), of p]
        cleared_bytes [OF K2 3(2) pool_bitmaps(6,7), of p] sum
      by (auto simp: bitmaps_cleared_def bitmap_bytes_def)
  qed
  ultimately show thesis using 1(1) 2(1) 3(1,3) u by (intro that)
qed

lemma mem_pool_init_ready:
  assumes K: "kernel_mapped (pmem s)"
  shows "\<exists>s' D f. mem_pool_init all_mem s = Inr s' \<and> pools_ready all_mem s' \<and> kernel_mapped (pmem s')
    \<and> updates (pmem s) low_kernel D f (pmem s') \<and> D \<subseteq> low_kernel \<and> eflags s' = eflags s \<and> ports s' = ports s
    \<and> idt s' = idt s \<and> idtr s' = idtr s \<and> idt_table s' = idt_table s \<and> intr_name s' = intr_name s
    \<and> pmem s' = bitmaps_cleared all_mem (pmem s)"
proof -
  obtain m1 m2 m3 D f where m: "bitmap_init (kernel_bm all_mem) (pmem s) = Inr m1"
      "bitmap_init (user_bm all_mem) m1 = Inr m2" "bitmap_init (vaddr_bm all_mem) m2 = Inr m3"
      "updates (pmem s) low_kernel D f m3" "D \<subseteq> low_kernel"
      "bm_used m3 (kernel_bm all_mem) = {}" "bm_used m3 (user_bm all_mem) = {}" "bm_used m3 (vaddr_bm all_mem) = {}"
      "\<And>p. m3 p = bitmaps_cleared all_mem (pmem s) p"
    by (rule init_bitmaps [OF K, of all_mem]) (rule that)
  have c: "PG_SIZE * 256 + 0x100000 = 0x200000" by (simp add: PG_SIZE_def)
  have "kernel_mapped m3" by (rule updates_low(1) [OF m(4) K m(5)])
  moreover have "m3 = bitmaps_cleared all_mem (pmem s)" using m(9) by (rule ext)
  ultimately show ?thesis using m(4-8)
    unfolding mem_pool_init_def Let_def c pool_numbers
      kernel_bm_def [symmetric] user_bm_def [symmetric] vaddr_bm_def [symmetric] pool.select_convs
    by (simp add: lift_mem_Inr m(1-3) pools_ready_def PG_SIZE_def) (intro exI conjI, assumption+)
qed

section \<open>The pools after initialisation\<close>

lemma free_pages_le: "free_pages a < 65536" "0x200000 \<le> unat a \<Longrightarrow> 0x200000 + 4096 * free_pages a \<le> unat a"
proof -
  show "free_pages a < 65536" by (simp add: free_pages_def)
  assume a: "0x200000 \<le> unat a"
  then have "unat (a - 0x200000) = unat a - 0x200000" by (simp add: unat_sub word_le_nat_alt)
  moreover have "free_pages a \<le> unat (a - 0x200000) div 4096" by (simp add: free_pages_def)
  ultimately show "0x200000 + 4096 * free_pages a \<le> unat a" using a by linarith
qed

text \<open>Below two megabytes the subtraction wraps.\<close>

lemma free_pages_wrap:
  assumes "unat a < 0x200000"
  shows "free_pages a = 65024 + unat a div 4096"
proof -
  have "unat (a - 0x200000) = 0xffe00000 + unat a" using assms by (subst unat_sub_if') simp
  moreover have "(0xffe00000 + unat a) div 4096 = 1048064 + unat a div 4096" by simp
  moreover have "unat a div 4096 < 512" using assms by simp
  moreover have "(1048064 + x) mod 65536 = 65024 + x" if "x < 512" for x :: nat
  proof -
    have "1048064 + x = 65024 + x + 15 * 65536" by simp
    then show ?thesis using that by (simp only: mod_mult_self1) simp
  qed
  ultimately show ?thesis by (simp add: free_pages_def)
qed

lemma unat_up_start: "N < 65536 \<Longrightarrow> unat (0x200000 + of_nat N * 4096 :: u32) = 0x200000 + 4096 * N"
  using unat_add_no_wrap [of "0x200000" "4096 * N"] by (simp add: mult.commute)

lemma pools_ready_ok:
  assumes "pools_ready a s"
  shows "pool_ok (kernel_pool s)" "pool_ok (user_pool s)"
    "bm_size (pool_bitmap (kernel_pool s)) = 8 * (free_pages a div 2 div 8)"
    "bm_size (pool_bitmap (user_pool s)) = 8 * ((free_pages a - free_pages a div 2) div 8)"
proof -
  note sum = pool_bitmaps(1) [of a]
  note N = free_pages_le(1) [of a]
  have b: "kernel_pool s = \<lparr>pool_bitmap = kernel_bm a, phy_addr_start = 0x200000, pool_size = of_nat (free_pages a div 2) * 4096\<rparr>"
    "user_pool s = \<lparr>pool_bitmap = user_bm a, phy_addr_start = 0x200000 + of_nat (free_pages a div 2) * 4096,
      pool_size = of_nat (free_pages a - free_pages a div 2) * 4096\<rparr>"
    using assms by (simp_all only: pools_ready_def)
  have k: "bm_reach (kernel_bm a) \<subseteq> low_kernel" "bm_size (kernel_bm a) + 8 < 4294967296"
      "bm_size (kernel_bm a) = 8 * (free_pages a div 2 div 8)"
    by (intro kernel_bm_place; use sum in simp)+
  have u: "bm_reach (user_bm a) \<subseteq> low_kernel" "bm_size (user_bm a) + 8 < 4294967296"
      "bm_size (user_bm a) = 8 * ((free_pages a - free_pages a div 2) div 8)"
    by (intro user_bm_place; use sum in simp)+
  show "bm_size (pool_bitmap (kernel_pool s)) = 8 * (free_pages a div 2 div 8)"
    "bm_size (pool_bitmap (user_pool s)) = 8 * ((free_pages a - free_pages a div 2) div 8)"
    by (simp_all add: b k(3) u(3))
  show "pool_ok (kernel_pool s)" using k N by (simp add: pool_ok_def b)
  have "unat (0x200000 + of_nat (free_pages a div 2) * 4096 :: u32) = 0x200000 + 4096 * (free_pages a div 2)"
    by (rule unat_up_start) (use N in simp)
  moreover have "free_pages a div 2 \<le> 32768" "(free_pages a - free_pages a div 2) div 8 \<le> 8192"
    using N by auto
  ultimately show "pool_ok (user_pool s)" using u by (simp add: pool_ok_def b)
qed

lemma pools_ready_pages:
  assumes "pools_ready a s"
  shows "i < bm_size (pool_bitmap (kernel_pool s)) \<Longrightarrow> unat (pool_page (kernel_pool s) i) = 0x200000 + 4096 * i"
    and "j < bm_size (pool_bitmap (user_pool s)) \<Longrightarrow>
      unat (pool_page (user_pool s) j) = 0x200000 + 4096 * (free_pages a div 2 + j)"
proof -
  have b: "phy_addr_start (kernel_pool s) = 0x200000"
    "phy_addr_start (user_pool s) = 0x200000 + of_nat (free_pages a div 2) * 4096"
    using assms by (simp_all add: pools_ready_def)
  have "unat (0x200000 + of_nat (free_pages a div 2) * 4096 :: u32) = 0x200000 + 4096 * (free_pages a div 2)"
    by (rule unat_up_start) (use free_pages_le(1) [of a] in simp)
  with b pools_ready_ok [OF assms]
  show "i < bm_size (pool_bitmap (kernel_pool s)) \<Longrightarrow> unat (pool_page (kernel_pool s) i) = 0x200000 + 4096 * i"
    "j < bm_size (pool_bitmap (user_pool s)) \<Longrightarrow>
      unat (pool_page (user_pool s) j) = 0x200000 + 4096 * (free_pages a div 2 + j)"
    by (simp_all add: unat_pool_page)
qed

lemma pools_ready_heap:
  assumes "pools_ready a s" "kernel_mapped (pmem s)" "\<forall>i<512. pt_entry (pmem s) 0x101000 (512 + i) AND 1 = 0"
  shows "heap_at s 0"
proof -
  note sum = pool_bitmaps(1) [of a]
  have "bm_reach (vaddr_bm a) \<subseteq> low_kernel" "bm_size (vaddr_bm a) = 8 * (free_pages a div 2 div 8)"
    by (intro vaddr_bm_place; use sum in simp)+
  then show ?thesis
    using assms pools_ready_ok [OF assms(1)] pool_bitmaps_disjoint(2) [of a]
    by (auto simp: heap_at_def pages_at_def pools_ready_def)
qed

section \<open>Properties\<close>

text \<open>C9: \<open>mem_pool_init\<close> returns without a fault for every reported memory size.  It sets the
  three pools up as \<open>pools_ready\<close> says, their bitmaps empty and at disjoint places; in memory it clears exactly the bytes of these bitmaps, from
  physical address \<open>0x9a000\<close>, at most up to \<open>0x9d000\<close>, which leaves the stack below \<open>0x9f000\<close> alone.  When the reported size is at least two megabytes, every page
  of the two pools lies between two megabytes and the end of memory, with no page in both.  When it is less, the size of
  the free memory wraps around: the code counts at least 65024 free pages, and the pools are not empty although all their pages lie
  past the end of the memory reported.\<close>

theorem mem_pool_init_layout:
  assumes "kernel_mapped (pmem s)"
  shows "\<exists>s'. mem_pool_init all_mem s = Inr s' \<and> pools_ready all_mem s' \<and> kernel_mapped (pmem s')
    \<and> bm_span (kernel_bm all_mem) \<inter> bm_span (user_bm all_mem) = {}
    \<and> bm_span (kernel_bm all_mem) \<inter> bm_span (vaddr_bm all_mem) = {}
    \<and> bm_span (user_bm all_mem) \<inter> bm_span (vaddr_bm all_mem) = {}
    \<and> bitmap_bytes all_mem \<le> 0x3000
    \<and> (\<forall>p. pmem s' p = (if 0x9a000 \<le> unat p \<and> unat p < 0x9a000 + bitmap_bytes all_mem then 0 else pmem s p))
    \<and> (0x200000 \<le> unat all_mem \<longrightarrow>
        (\<forall>i < bm_size (pool_bitmap (kernel_pool s')). \<forall>j < bm_size (pool_bitmap (user_pool s')).
           0x200000 \<le> unat (pool_page (kernel_pool s') i) \<and>
           unat (pool_page (kernel_pool s') i) + 4096 \<le> unat (pool_page (user_pool s') j) \<and>
           unat (pool_page (user_pool s') j) + 4096 \<le> unat all_mem))
    \<and> (unat all_mem < 0x200000 \<longrightarrow> free_pages all_mem = 65024 + unat all_mem div 4096
        \<and> 0 < bm_size (pool_bitmap (kernel_pool s')) \<and> 0 < bm_size (pool_bitmap (user_pool s'))
        \<and> (\<forall>i < bm_size (pool_bitmap (kernel_pool s')). unat all_mem < unat (pool_page (kernel_pool s') i))
        \<and> (\<forall>j < bm_size (pool_bitmap (user_pool s')). unat all_mem < unat (pool_page (user_pool s') j)))"
proof -
  obtain s' where 1: "mem_pool_init all_mem s = Inr s'" "pools_ready all_mem s'" "kernel_mapped (pmem s')"
      "pmem s' = bitmaps_cleared all_mem (pmem s)"
    using mem_pool_init_ready [OF assms] by blast
  let ?N = "free_pages all_mem"
  have pages: "0x200000 \<le> unat (pool_page (kernel_pool s') i) \<and>
      unat (pool_page (kernel_pool s') i) + 4096 \<le> unat (pool_page (user_pool s') j) \<and>
      unat (pool_page (user_pool s') j) + 4096 \<le> unat all_mem"
    if "0x200000 \<le> unat all_mem" "i < bm_size (pool_bitmap (kernel_pool s'))" "j < bm_size (pool_bitmap (user_pool s'))" for i j
  proof -
    have "i < ?N div 2" "j < ?N - ?N div 2"
      using that(2,3) pools_ready_ok(3,4) [OF 1(2)] times_div_less_eq_dividend [of 8 "?N div 2"]
        times_div_less_eq_dividend [of 8 "?N - ?N div 2"] by linarith+
    then have "i + 1 \<le> ?N div 2" "?N div 2 + j + 1 \<le> ?N" by auto
    with free_pages_le(2) [OF that(1)] pools_ready_pages(1) [OF 1(2) that(2)] pools_ready_pages(2) [OF 1(2) that(3)]
    show ?thesis by simp
  qed
  have bytes: "bitmap_bytes all_mem \<le> 0x3000" using free_pages_le(1) [of all_mem] by (simp add: bitmap_bytes_def)
  have wrap: "?N = 65024 + unat all_mem div 4096 \<and> 0 < bm_size (pool_bitmap (kernel_pool s')) \<and> 0 < bm_size (pool_bitmap (user_pool s'))"
    if "unat all_mem < 0x200000"
    proof -
    have "8 \<le> ?N div 2" "8 \<le> ?N - ?N div 2" using free_pages_wrap [OF that] by linarith+
    then have "0 < ?N div 2 div 8" "0 < (?N - ?N div 2) div 8" by (simp_all add: div_greater_zero_iff)
    then show ?thesis using free_pages_wrap [OF that] by (simp only: pools_ready_ok(3,4) [OF 1(2)]) simp
  qed
  have past: "i < bm_size (pool_bitmap (kernel_pool s')) \<Longrightarrow> unat all_mem < unat (pool_page (kernel_pool s') i)"
    "i < bm_size (pool_bitmap (user_pool s')) \<Longrightarrow> unat all_mem < unat (pool_page (user_pool s') i)" if "unat all_mem < 0x200000" for i
    using that pools_ready_pages [OF 1(2)] by simp_all
  have mem: "\<forall>p. pmem s' p = (if 0x9a000 \<le> unat p \<and> unat p < 0x9a000 + bitmap_bytes all_mem then 0 else pmem s p)"
    by (simp add: 1(4) bitmaps_cleared_def)
  show ?thesis
    by (rule exI [of _ s']) (intro conjI; use 1(1-3) mem pages bytes wrap past pool_bitmaps_disjoint in blast)
qed

definition demo_machine :: machine where
  "demo_machine = \<lparr>pmem = demo_mem, kernel_pool = demo_pool, user_pool = demo_pool,
     kernel_vaddr = \<lparr>vaddr_bitmap = pool_bitmap demo_pool, vaddr_start = 0\<rparr>, eflags = 2, idt = [],
     intr_name = [], idt_table = [], idtr = 0, ports = [], console = []\<rparr>"

theorem mem_pool_init_layout_witness:
  "\<exists>s'. mem_pool_init 0x2000000 demo_machine = Inr s' \<and> kernel_bm 0x2000000 = pool_bitmap (kernel_pool s')
     \<and> unat (btmp_bytes_len (kernel_bm 0x2000000)) = 480"
proof -
  have K: "kernel_mapped (pmem demo_machine)" by (simp add: demo_machine_def demo_kernel_mapped)
  have "free_pages 0x2000000 = 7680" by (simp add: free_pages_def)
  then have "unat (btmp_bytes_len (kernel_bm 0x2000000)) = 480" by (simp add: kernel_bm_def)
  with mem_pool_init_layout [OF K, of "0x2000000"] show ?thesis by (auto simp: pools_ready_def)
qed

text \<open>The number of free pages is kept in a \<open>uint16_t\<close>: with 258 MB of memory the code
  computes no free pages at all, both pools are empty and the first \<open>palloc\<close> panics.\<close>

lemma mem_pool_init_truncates:
  assumes "kernel_mapped (pmem s)"
  shows "\<exists>s'. mem_pool_init 0x10200000 s = Inr s' \<and> bm_size (pool_bitmap (kernel_pool s')) = 0
    \<and> bm_size (pool_bitmap (user_pool s')) = 0
    \<and> palloc (kernel_pool s') (pmem s') =
        Inl (Panic ''lib/kernel/bitmap.c'' 29 ''bitmap_scan'' ''idx_byte < btmp->btmp_bytes_len'')"
proof -
  obtain s' where 1: "mem_pool_init 0x10200000 s = Inr s'" "pools_ready 0x10200000 s'" "kernel_mapped (pmem s')"
    using mem_pool_init_ready [OF assms] by blast
  have "free_pages 0x10200000 = 0" by (simp add: free_pages_def)
  then have z: "bm_size (pool_bitmap (kernel_pool s')) = 0" "bm_size (pool_bitmap (user_pool s')) = 0"
    using pools_ready_ok(3,4) [OF 1(2)] by simp_all
  have "bm_used (pmem s') (pool_bitmap (kernel_pool s')) = {..<bm_size (pool_bitmap (kernel_pool s'))}"
    using bm_used_le [of "pmem s'" "pool_bitmap (kernel_pool s')"] z(1) by simp
  then have "palloc (kernel_pool s') (pmem s') =
      Inl (Panic ''lib/kernel/bitmap.c'' 29 ''bitmap_scan'' ''idx_byte < btmp->btmp_bytes_len'')"
    using pa.alloc_full [of "pmem s'" "kernel_pool s'"] 1(3) pools_ready_ok(1) [OF 1(2)] by simp
  with 1(1) z show ?thesis by blast
qed

lemma mem_pool_init_truncates_witness:
  "\<exists>s'. mem_pool_init 0x10200000 demo_machine = Inr s' \<and> bm_size (pool_bitmap (kernel_pool s')) = 0"
  using mem_pool_init_truncates [of demo_machine] by (auto simp: demo_machine_def demo_kernel_mapped)

text \<open>C2: \<open>get_kernel_pages\<close> refines a counter.  \<open>mem_pool_init\<close> leaves the heap at 0 when the
  page table's second half is empty; from the state in which \<open>k\<close> pages are out, a request
  for \<open>n\<close> more, while the bitmaps and the second half of the table have room, returns the
  \<open>k\<close>th page address of the heap and leaves the state in which \<open>k + n\<close> pages are out, with
  nothing but memory changed.\<close>

theorem get_kernel_pages_counter:
  "(kernel_mapped (pmem s) \<and> (\<forall>i<512. pt_entry (pmem s) 0x101000 (512 + i) AND 1 = 0) \<longrightarrow>
     (\<exists>s'. mem_pool_init all_mem s = Inr s' \<and> heap_at s' 0))
   \<and> (heap_at s k \<and> 0 < n \<and> k + n \<le> 512 \<and> k + n \<le> bm_size (pool_bitmap (kernel_pool s)) \<longrightarrow>
     (\<exists>m'. get_kernel_pages (of_nat n) s = Inr (K_HEAP_START + of_nat k * PG_SIZE, s\<lparr>pmem := m'\<rparr>)
        \<and> heap_at (s\<lparr>pmem := m'\<rparr>) (k + n)))"
proof (intro conjI impI)
  assume a: "kernel_mapped (pmem s) \<and> (\<forall>i<512. pt_entry (pmem s) 0x101000 (512 + i) AND 1 = 0)"
  obtain s' D f where 1: "mem_pool_init all_mem s = Inr s'" "pools_ready all_mem s'" "kernel_mapped (pmem s')"
      "updates (pmem s) low_kernel D f (pmem s')" "D \<subseteq> low_kernel"
    using mem_pool_init_ready a by blast
  have "pt_entry (pmem s') 0x101000 (512 + i) = pt_entry (pmem s) 0x101000 (512 + i)" if "i < 512" for i
    by (rule pt_entry_updates [OF 1(4) _ 1(5)]) (use a that in simp_all)
  with a have "\<forall>i<512. pt_entry (pmem s') 0x101000 (512 + i) AND 1 = 0" by simp
  with 1 show "\<exists>s'. mem_pool_init all_mem s = Inr s' \<and> heap_at s' 0" using pools_ready_heap by blast
next
  assume a: "heap_at s k \<and> 0 < n \<and> k + n \<le> 512 \<and> k + n \<le> bm_size (pool_bitmap (kernel_pool s))"
  then obtain m' where "malloc_page PF_KERNEL (of_nat n) s = Inr (K_HEAP_START + of_nat k * PG_SIZE, s\<lparr>pmem := m'\<rparr>)"
      "heap_at (s\<lparr>pmem := m'\<rparr>) (k + n)" using malloc_page_next by blast
  then show "\<exists>m'. get_kernel_pages (of_nat n) s = Inr (K_HEAP_START + of_nat k * PG_SIZE, s\<lparr>pmem := m'\<rparr>)
      \<and> heap_at (s\<lparr>pmem := m'\<rparr>) (k + n)" by (auto simp: get_kernel_pages_def)
qed

text \<open>A heap at its start, for concrete runs.\<close>

lemma demo_heap:
  obtains s' where "mem_pool_init 0x2000000 demo_machine = Inr s'" "heap_at s' 0"
    "bm_size (pool_bitmap (kernel_pool s')) = 3840" "pt_entry (pmem s') 0x100000 1 = 0"
    "pt_entry (pmem s') 0x101000 256 = 0"
proof -
  have K: "kernel_mapped (pmem demo_machine)" by (simp add: demo_machine_def demo_kernel_mapped)
  obtain s' D f where 1: "mem_pool_init 0x2000000 demo_machine = Inr s'" "pools_ready 0x2000000 s'" "kernel_mapped (pmem s')"
      "updates (pmem demo_machine) low_kernel D f (pmem s')" "D \<subseteq> low_kernel"
    using mem_pool_init_ready [OF K] by blast
  have e: "pt_entry (pmem s') t i = pt_entry demo_mem t i" if "0x100000 \<le> t" "t + 4 * i + 4 \<le> 4294967296" for t i
    using pt_entry_updates [OF 1(4) K 1(5) that] by (simp add: demo_machine_def)
  have t: "pt_entry (pmem s') 0x101000 i = 0" if "i < 1024" "256 \<le> i" for i
    using e [of "0x101000" i] demo_table [of i] that by simp
  then have "heap_at s' 0" using 1(2,3) by (intro pools_ready_heap) auto
  moreover have "bm_size (pool_bitmap (kernel_pool s')) = 3840"
    using pools_ready_ok(3) [OF 1(2)] by (simp add: free_pages_def)
  moreover have "pt_entry (pmem s') 0x100000 1 = 0" using e [of "0x100000" 1] demo_kernel_mapped(2) by simp
  moreover have "pt_entry (pmem s') 0x101000 256 = 0" using t by simp
  ultimately show thesis using 1(1) that by blast
qed

theorem get_kernel_pages_counter_witness:
  "\<exists>s s'. mem_pool_init 0x2000000 demo_machine = Inr s \<and> get_kernel_pages 3 s = Inr (0xc0100000, s')"
proof -
  obtain s where "mem_pool_init 0x2000000 demo_machine = Inr s" "heap_at s 0"
    "bm_size (pool_bitmap (kernel_pool s)) = 3840" using demo_heap by blast
  then show ?thesis using get_kernel_pages_counter [of s _ 0 3] by (auto simp: K_HEAP_START_def)
qed

lemma heap_alias:
  assumes P: "pages_at p m k" and j: "256 \<le> j" "j < k + 256" "j < 768"
  shows "translate m (K_HEAP_START + of_nat j * PG_SIZE) = Some (0x200000 + of_nat (j - 256) * PG_SIZE)"
proof -
  have K: "kernel_mapped m" using P by (simp add: pages_at_def)
  have s: "256 + j = 512 + (j - 256)" "j - 256 < k" "j - 256 < 512" using j by simp_all
  then have e: "pt_entry m 0x101000 (256 + j) = of_nat ((256 + j) * 4096 + 7)"
    using P unfolding pages_at_def s(1) by (simp add: mult.commute del: of_nat_add of_nat_mult)
  have "of_nat ((256 + j) * 4096 + 7) AND 1 \<noteq> (0 :: u32)" by (rule of_nat_odd_present) simp
  moreover have "frame_no (of_nat ((256 + j) * 4096 + 7)) = (256 + j) * 4096"
    by (rule frame_no_of_nat) (use j in simp_all)
  moreover have "(of_nat ((256 + j) * 4096) :: u32) = 0x200000 + of_nat (j - 256) * PG_SIZE"
    using j(1) by (simp add: PG_SIZE_def of_nat_diff)
  ultimately show ?thesis using heap_translate [OF K j(3)] e by (simp only: simp_thms if_False)
qed

text \<open>C18: what the addresses that \<open>get_kernel_pages\<close> hands out are mapped to, for any request that the pool and the first 512 pages of the heap can serve.
  The pages of the first megabyte of the heap (the 256 first ones handed out) are not mapped by the call: they translate to what they translated to before, in particular to
  nothing on a fresh heap.  The page \<open>j\<close> from the second megabyte on (from \<open>0xc0200000\<close>) is mapped, to the physical page that was
  taken for page \<open>j - 256\<close>.  The physical pages taken are mapped at the virtual addresses equal to their physical ones.\<close>

theorem get_kernel_pages_unmapped:
  assumes "heap_at s k" "0 < n" "k + n \<le> 512" "k + n \<le> bm_size (pool_bitmap (kernel_pool s))"
  shows "\<exists>v s'. get_kernel_pages (of_nat n) s = Inr (v, s') \<and> v \<noteq> 0 \<and> (\<forall>i<n.
      (k + i < 256 \<longrightarrow> translate (pmem s') (v + of_nat i * PG_SIZE) = translate (pmem s) (v + of_nat i * PG_SIZE))
    \<and> (256 \<le> k + i \<longrightarrow> translate (pmem s') (v + of_nat i * PG_SIZE) = Some (0x200000 + of_nat (k + i - 256) * PG_SIZE))
    \<and> translate (pmem s') (0x200000 + of_nat (k + i) * PG_SIZE) = Some (0x200000 + of_nat (k + i) * PG_SIZE))"
proof -
  let ?v = "K_HEAP_START + of_nat k * PG_SIZE"
  obtain m' where 1: "malloc_page PF_KERNEL (of_nat n) s = Inr (?v, s\<lparr>pmem := m'\<rparr>)" "heap_at (s\<lparr>pmem := m'\<rparr>) (k + n)"
      "\<forall>i<512. pt_entry m' 0x101000 i = pt_entry (pmem s) 0x101000 i"
    using malloc_page_next [OF assms(1,2) _ assms(4)] assms(3) by auto
  have K: "kernel_mapped (pmem s)" "kernel_mapped m'" "pages_at (kernel_pool s) m' (k + n)"
    using assms(1) 1(2) by (simp_all add: heap_at_def pages_at_def)
  have "unat ?v \<noteq> 0" using heap_addr [of k] assms(3,2) by simp
  then have "?v \<noteq> 0" by auto
  moreover have "k + i < 256 \<Longrightarrow> translate m' (?v + of_nat i * PG_SIZE) = translate (pmem s) (?v + of_nat i * PG_SIZE)"
    "256 \<le> k + i \<Longrightarrow> translate m' (?v + of_nat i * PG_SIZE) = Some (0x200000 + of_nat (k + i - 256) * PG_SIZE)"
    "translate m' (0x200000 + of_nat (k + i) * PG_SIZE) = Some (0x200000 + of_nat (k + i) * PG_SIZE)" if "i < n" for i
  proof -
    have v: "?v + of_nat i * PG_SIZE = K_HEAP_START + of_nat (k + i) * PG_SIZE" by (simp add: algebra_simps)
    have lt: "k + i < 768" "k + i < k + n + 256" using that assms(3) by simp_all
    show "translate m' (?v + of_nat i * PG_SIZE) = translate (pmem s) (?v + of_nat i * PG_SIZE)" if "k + i < 256"
    proof -
      have "pt_entry m' 0x101000 (256 + (k + i)) = pt_entry (pmem s) 0x101000 (256 + (k + i))" using 1(3) that by simp
      then show ?thesis by (simp only: v heap_translate [OF K(1) lt(1)] heap_translate [OF K(2) lt(1)])
    qed
    show "translate m' (?v + of_nat i * PG_SIZE) = Some (0x200000 + of_nat (k + i - 256) * PG_SIZE)" if "256 \<le> k + i"
      unfolding v by (rule heap_alias [OF K(3) that lt(2,1)])
    have "0x200000 + of_nat (k + i) * PG_SIZE = of_nat (4096 * (512 + (k + i)))" by (simp add: PG_SIZE_def algebra_simps)
    then show "translate m' (0x200000 + of_nat (k + i) * PG_SIZE) = Some (0x200000 + of_nat (k + i) * PG_SIZE)"
      using page_translate [OF K(3), of "k + i"] that assms(3) by (simp only:)
  qed
  moreover have "get_kernel_pages (of_nat n) s = Inr (?v, s\<lparr>pmem := m'\<rparr>)"
    using 1(1) \<open>?v \<noteq> 0\<close> by (simp add: get_kernel_pages_def)
  ultimately show ?thesis by (intro exI [of _ ?v] exI [of _ "s\<lparr>pmem := m'\<rparr>"]) simp
qed

theorem get_kernel_pages_unmapped_witness:
  "\<exists>s v s'. mem_pool_init 0x2000000 demo_machine = Inr s \<and> get_kernel_pages 3 s = Inr (v, s')
     \<and> vread8 (pmem s') v = Inl (PageFault v)"
proof -
  obtain s where s: "mem_pool_init 0x2000000 demo_machine = Inr s" "heap_at s 0"
    "bm_size (pool_bitmap (kernel_pool s)) = 3840" "pt_entry (pmem s) 0x101000 256 = 0"
    using demo_heap by blast
  have "kernel_mapped (pmem s)" using s(2) by (simp add: heap_at_def pages_at_def)
  then have none: "translate (pmem s) 0xc0100000 = None"
    using heap_translate [of "pmem s" 0] s(4) by (simp add: K_HEAP_START_def)
  obtain v s' where v: "get_kernel_pages 3 s = Inr (v, s')" "translate (pmem s') v = translate (pmem s) v"
    using get_kernel_pages_unmapped [OF s(2), of 3] s(3) by fastforce
  have "v = 0xc0100000"
    using malloc_page_next [OF s(2), of 3] s(3) v(1) by (auto simp: get_kernel_pages_def K_HEAP_START_def split: if_splits)
  with s(1) v none show ?thesis by (auto simp: vread8_def)
qed

text \<open>C19: a request that takes the number of pages past 512 does not return \<open>NULL\<close>: with the
  boot loader's directory the kernel faults while it enters the page at physical address
  4 MB, reading the table entry at \<open>0xffc01000\<close>.\<close>

theorem get_kernel_pages_fault:
  assumes "heap_at s k" "k < 512" "512 < k + n" "n < 3840" "k + n \<le> bm_size (pool_bitmap (kernel_pool s))"
    "pt_entry (pmem s) 0x100000 1 AND 1 = 0"
  shows "get_kernel_pages (of_nat n) s = Inl (PageFault 0xffc01000)"
proof -
  let ?v = "K_HEAP_START + of_nat k * PG_SIZE" and ?p = "kernel_pool s"
  have n: "0 < n" using assms(2,3) by simp
  obtain m1 where 1: "pages_at ?p m1 k" "others_kept (vaddr_bitmap (kernel_vaddr s)) (pmem s) m1"
      "malloc_page PF_KERNEL (of_nat n) s = rbind (malloc_loop ?p ?p ?v (of_nat n) m1) (\<lambda>(ok, m).
        Inr (if ok then ?v else 0, s\<lparr>pmem := m\<rparr>))"
    using malloc_page_start [OF assms(1) n assms(4,5,2)] by blast
  have "malloc_loop ?p ?p ?v (of_nat n) m1 = Inl (PageFault 0xffc01000)"
    using heap_addr [OF assms(2)] assms(2-6) 1(2)
    by (intro malloc_loop_fault [OF 1(1)]) (auto simp: others_kept_def)
  with 1(3) show ?thesis by (simp add: get_kernel_pages_def)
qed

theorem get_kernel_pages_fault_witness:
  "\<exists>s. mem_pool_init 0x2000000 demo_machine = Inr s \<and> get_kernel_pages 513 s = Inl (PageFault 0xffc01000)"
proof -
  obtain s where "mem_pool_init 0x2000000 demo_machine = Inr s" "heap_at s 0"
    "bm_size (pool_bitmap (kernel_pool s)) = 3840" "pt_entry (pmem s) 0x100000 1 = 0" using demo_heap by blast
  then show ?thesis using get_kernel_pages_fault [of s 0 513] by auto
qed

end
