(* ===== verification/Kinterrupt.thy ===== *)
theory Kinterrupt
  imports Machine
begin

text \<open>
  \<open>kernel/interrupt.c\<close>, \<open>kernel/debug.c\<close> and \<open>device/timer.c\<close>: the interrupt descriptor
  table, the interrupt flag, the programming of the two 8259A interrupt controllers and of
  the 8253 timer, and \<open>panic_spin\<close>.  Two addresses come from outside the C code and are
  parameters: the entry points of \<open>kernel.S\<close> (\<open>intr_entry_table\<close>) and where the linker puts
  \<open>idt\<close>.  The port writes are a trace; the second part reads the trace as the controllers'
  data sheets do, to say what the writes amount to.
\<close>

section \<open>The descriptor table\<close>

definition IDT_DESC_CNT :: nat where "IDT_DESC_CNT = 0x21"

definition SELECTOR_K_CODE :: u16 where
  "SELECTOR_K_CODE = push_bit 3 1 + push_bit 2 0 + 0"

definition IDT_DESC_ATTR_DPL0 :: u8 where
  "IDT_DESC_ATTR_DPL0 = push_bit 7 1 + push_bit 5 0 + 0xE"

definition make_idt_desc :: "gate_desc \<Rightarrow> u8 \<Rightarrow> u32 \<Rightarrow> gate_desc" where
  "make_idt_desc p_gdesc attr function =
     p_gdesc\<lparr>func_offset_low_word := ucast (function AND 0x0000FFFF), selector := SELECTOR_K_CODE, dcount := 0,
       attribute := attr, func_offset_high_word := ucast (drop_bit 16 (function AND 0xFFFF0000))\<rparr>"

function idt_desc_loop :: "u32 list \<Rightarrow> nat \<Rightarrow> machine \<Rightarrow> machine" where
  "idt_desc_loop intr_entry_table i s =
     (if i < IDT_DESC_CNT
      then idt_desc_loop intr_entry_table (i + 1)
        (s\<lparr>idt := (idt s)[i := make_idt_desc (idt s ! i) IDT_DESC_ATTR_DPL0 (intr_entry_table ! i)]\<rparr>)
      else s)"
  by pat_completeness auto
termination by (relation "measure (\<lambda>(t, i, s). IDT_DESC_CNT - i)") auto

declare idt_desc_loop.simps [simp del]

definition idt_desc_init :: "u32 list \<Rightarrow> machine \<Rightarrow> machine" where
  "idt_desc_init intr_entry_table s = put_str ''   idt_desc_init done\<newline>'' (idt_desc_loop intr_entry_table 0 s)"

section \<open>Handlers and names\<close>

definition general_intr_handler :: "u8 \<Rightarrow> machine \<Rightarrow> machine" where
  "general_intr_handler vec_nr s =
     (if vec_nr = 0x27 \<or> vec_nr = 0x2f then s
      else put_char (CHR 0x0A) (put_int (ucast vec_nr) (put_str ''int vector: 0x'' s)))"

function exception_loop :: "nat \<Rightarrow> machine \<Rightarrow> machine" where
  "exception_loop i s =
     (if i < IDT_DESC_CNT
      then exception_loop (i + 1)
        (s\<lparr>idt_table := (idt_table s)[i := General_intr_handler], intr_name := (intr_name s)[i := ''unknown'']\<rparr>)
      else s)"
  by pat_completeness auto
termination by (relation "measure (\<lambda>(i, s). IDT_DESC_CNT - i)") auto

declare exception_loop.simps [simp del]

definition exception_init :: "machine \<Rightarrow> machine" where
  "exception_init s0 =
     (let s = exception_loop 0 s0 in
      s\<lparr>intr_name := (intr_name s)
        [0 := ''#DE Divide Error'',
         1 := ''#DB Debug Exception'',
         2 := ''NMI Interrupt'',
         3 := ''#BP Breakpoint Exception'',
         4 := ''#OF Overflow Exception'',
         5 := ''#BR BOUND Range Exceeded Exception'',
         6 := ''#UD Invalid Opcode Exception'',
         7 := ''#NM Device Not Available Exception'',
         8 := ''#DF Double Fault Exception'',
         9 := ''Coprocessor Segment Overrun'',
         10 := ''#TS Invalid TSS Exception'',
         11 := ''#NP Segment Not Present'',
         12 := ''#SS Stack Fault Exception'',
         13 := ''#GP General Protection Exception'',
         14 := ''#PF Page-Fault Exception'',
         16 := ''#MF x87 FPU Floating-Point Error'',
         17 := ''#AC Alignment Check Exception'',
         18 := ''#MC Machine-Check Exception'',
         19 := ''#XF SIMD Floating-Point Exception'']\<rparr>)"

section \<open>The interrupt controllers\<close>

definition PIC_M_CTRL :: u16 where "PIC_M_CTRL = 0x20"
definition PIC_M_DATA :: u16 where "PIC_M_DATA = 0x21"
definition PIC_S_CTRL :: u16 where "PIC_S_CTRL = 0xa0"
definition PIC_S_DATA :: u16 where "PIC_S_DATA = 0xa1"

definition pic_init :: "machine \<Rightarrow> machine" where
  "pic_init s =
     (let s = outb PIC_M_CTRL 0x11 s;
          s = outb PIC_M_DATA 0x20 s;
          s = outb PIC_M_DATA 0x04 s;
          s = outb PIC_M_DATA 0x01 s;
          s = outb PIC_S_CTRL 0x11 s;
          s = outb PIC_S_DATA 0x28 s;
          s = outb PIC_S_DATA 0x02 s;
          s = outb PIC_S_DATA 0x01 s;
          s = outb PIC_M_DATA 0xfe s;
          s = outb PIC_S_DATA 0xff s
      in put_str ''   pic_init done\<newline>'' s)"

definition idt_init :: "u32 list \<Rightarrow> u32 \<Rightarrow> machine \<Rightarrow> machine" where
  "idt_init intr_entry_table idt_addr s0 =
     (let s = put_str ''idt_init start\<newline>'' s0;
          s = idt_desc_init intr_entry_table s;
          s = exception_init s;
          s = pic_init s;
          idt_operand = (of_nat (8 * IDT_DESC_CNT) - 1) OR push_bit 16 (ucast idt_addr);
          s = s\<lparr>idtr := idt_operand\<rparr>
      in put_str ''idt_init done\<newline>'' s)"

section \<open>The interrupt flag\<close>

definition EFLAGS_IF :: u32 where "EFLAGS_IF = 0x00000200"

definition intr_get_status :: "machine \<Rightarrow> intr_status" where
  "intr_get_status s = (if EFLAGS_IF AND eflags s \<noteq> 0 then INTR_ON else INTR_OFF)"

definition intr_enable :: "machine \<Rightarrow> intr_status \<times> machine" where
  "intr_enable s =
     (if INTR_ON = intr_get_status s then (INTR_ON, s)
      else (INTR_OFF, s\<lparr>eflags := eflags s OR EFLAGS_IF\<rparr>))"

definition intr_disable :: "machine \<Rightarrow> intr_status \<times> machine" where
  "intr_disable s =
     (if INTR_ON = intr_get_status s then (INTR_ON, s\<lparr>eflags := eflags s AND NOT EFLAGS_IF\<rparr>)
      else (INTR_OFF, s))"

definition intr_set_status :: "intr_status \<Rightarrow> machine \<Rightarrow> intr_status \<times> machine" where
  "intr_set_status status s = (if status = INTR_ON then intr_enable s else intr_disable s)"

text \<open>\<open>panic_spin\<close> up to the endless loop it ends in.\<close>

definition panic_spin :: "string \<Rightarrow> nat \<Rightarrow> string \<Rightarrow> string \<Rightarrow> machine \<Rightarrow> machine" where
  "panic_spin filename line func condition s0 =
     (let s = snd (intr_disable s0);
          s = put_str ''\<newline>\<newline>\<newline>!!!!! error !!!!!\<newline>'' s;
          s = put_str ''\<newline>'' (put_str filename (put_str ''filename:'' s));
          s = put_str ''\<newline>'' (put_int (of_nat line) (put_str ''line:0x'' s));
          s = put_str ''\<newline>'' (put_str func (put_str ''function:'' s));
          s = put_str ''\<newline>'' (put_str condition (put_str ''condition:'' s))
      in s)"

section \<open>The timer\<close>

definition CONTRER0_PORT :: u8 where "CONTRER0_PORT = 0x40"
definition PIT_CONTROL_PORT :: u16 where "PIT_CONTROL_PORT = 0x43"
definition COUNTER0_VALUE :: u16 where "COUNTER0_VALUE = ucast ((1193180 :: u32) div 100)"

definition frequency_set :: "u8 \<Rightarrow> u8 \<Rightarrow> u8 \<Rightarrow> u8 \<Rightarrow> u16 \<Rightarrow> machine \<Rightarrow> machine" where
  "frequency_set counter_port counter_no rwl counter_mode counter_value s =
     (let s = outb PIT_CONTROL_PORT
            (ucast (push_bit 6 (ucast counter_no :: u32) OR push_bit 4 (ucast rwl) OR push_bit 1 (ucast counter_mode))) s;
          s = outb (ucast counter_port) (ucast counter_value) s
      in outb (ucast counter_port) (ucast (drop_bit 8 (ucast (ucast counter_value :: u8) :: u32))) s)"

definition timer_init :: "machine \<Rightarrow> machine" where
  "timer_init s0 =
     (let s = put_str ''timer_init start\<newline>'' s0;
          s = frequency_set CONTRER0_PORT 0 3 2 COUNTER0_VALUE s
      in put_str ''timer_init done\<newline>'' s)"

section \<open>The contract of the interrupt flag\<close>

text \<open>What code that brackets a critical section by saving and restoring the flag relies on.
  \<open>rest\<close> is the state without the flag.\<close>

definition critical :: "('s \<Rightarrow> 'st \<times> 's) \<Rightarrow> ('st \<Rightarrow> 's \<Rightarrow> 'st \<times> 's) \<Rightarrow> ('s \<Rightarrow> 's) \<Rightarrow> 's \<Rightarrow> 's" where
  "critical disable set_status f s = (let (old, s1) = disable s in snd (set_status old (f s1)))"

locale irq_control =
  fixes get :: "'s \<Rightarrow> intr_status"
    and enable :: "'s \<Rightarrow> intr_status \<times> 's"
    and disable :: "'s \<Rightarrow> intr_status \<times> 's"
    and set_status :: "intr_status \<Rightarrow> 's \<Rightarrow> intr_status \<times> 's"
    and rest :: "'s \<Rightarrow> 'r"
  assumes enable_law: "fst (enable s) = get s" "get (snd (enable s)) = INTR_ON" "rest (snd (enable s)) = rest s"
    and disable_law: "fst (disable s) = get s" "get (snd (disable s)) = INTR_OFF" "rest (snd (disable s)) = rest s"
    and set_law: "set_status st s = (if st = INTR_ON then enable s else disable s)"
    and extensional: "get s = get t \<Longrightarrow> rest s = rest t \<Longrightarrow> s = t"
begin

lemma set_status_law:
  "fst (set_status st s) = get s" "get (snd (set_status st s)) = st" "rest (snd (set_status st s)) = rest s"
  by (cases st; simp add: set_law enable_law disable_law)+

lemma set_current: "set_status (get s) s = (get s, s)"
  using set_status_law [of "get s" s] extensional [of "snd (set_status (get s) s)" s]
  by (simp add: prod_eq_iff)

lemma critical_flag: "get (critical disable set_status f s) = get s"
  by (simp add: critical_def case_prod_beta Let_def set_status_law disable_law)

lemma critical_rest: "rest (critical disable set_status f s) = rest (f (snd (disable s)))"
  by (simp add: critical_def case_prod_beta Let_def set_status_law)

lemma critical_nested:
  assumes "\<And>s t. rest s = rest t \<Longrightarrow> rest (f s) = rest (f t)"
  shows "critical disable set_status (critical disable set_status f) s = critical disable set_status f s"
proof (rule extensional)
  have "rest (f (snd (disable (snd (disable s))))) = rest (f (snd (disable s)))"
    by (rule assms) (simp only: disable_law)
  then show "rest (critical disable set_status (critical disable set_status f) s) = rest (critical disable set_status f s)"
    by (simp only: critical_rest)
qed (simp only: critical_flag)

end

lemma EFLAGS_IF_exp: "EFLAGS_IF = 2 ^ 9"
  by (simp add: EFLAGS_IF_def)

lemma flag_bit: "EFLAGS_IF AND w = 0 \<longleftrightarrow> \<not> bit w 9"
  by (simp only: EFLAGS_IF_exp and.commute [of _ w] and_exp_eq_0_iff_not_bit)

lemma flag_ops:
  "bit (w OR EFLAGS_IF) n = (bit w n \<or> n = 9)" "bit (w AND NOT EFLAGS_IF) n = (bit w n \<and> n \<noteq> 9)"
proof -
  have "bit EFLAGS_IF n = (n = 9)" by (simp only: EFLAGS_IF_exp bit_exp_iff) auto
  then show "bit (w OR EFLAGS_IF) n = (bit w n \<or> n = 9)" "bit (w AND NOT EFLAGS_IF) n = (bit w n \<and> n \<noteq> 9)"
    by (auto simp: bit_or_iff bit_and_iff bit_not_iff dest: bit_imp_le_length)
qed

lemma intr_get_status_bit: "intr_get_status s = (if bit (eflags s) 9 then INTR_ON else INTR_OFF)"
  by (simp add: intr_get_status_def flag_bit)

definition without_flag :: "machine \<Rightarrow> machine" where
  "without_flag s = s\<lparr>eflags := eflags s AND NOT EFLAGS_IF\<rparr>"

lemma without_flag_set: "without_flag (s\<lparr>eflags := eflags s OR EFLAGS_IF\<rparr>) = without_flag s"
    "without_flag (s\<lparr>eflags := eflags s AND NOT EFLAGS_IF\<rparr>) = without_flag s"
proof -
  have "(w OR EFLAGS_IF) AND NOT EFLAGS_IF = w AND NOT EFLAGS_IF" "(w AND NOT EFLAGS_IF) AND NOT EFLAGS_IF = w AND NOT EFLAGS_IF" for w
    by (rule bit_word_eqI; auto simp: flag_ops)+
  then show "without_flag (s\<lparr>eflags := eflags s OR EFLAGS_IF\<rparr>) = without_flag s"
    "without_flag (s\<lparr>eflags := eflags s AND NOT EFLAGS_IF\<rparr>) = without_flag s"
    by (simp_all add: without_flag_def)
qed

lemma without_flag_ext:
  assumes "intr_get_status s = intr_get_status t" "without_flag s = without_flag t"
  shows "s = t"
proof -
  have e: "eflags s AND NOT EFLAGS_IF = eflags t AND NOT EFLAGS_IF"
    using arg_cong [OF assms(2), of eflags] by (simp add: without_flag_def)
  have "bit (eflags s) n = bit (eflags t) n" for n
    using assms(1) arg_cong [OF e, of "\<lambda>w. bit w n"]
    by (cases "n = 9") (simp_all add: flag_ops intr_get_status_bit split: if_splits)
  then have "eflags s = eflags t" by (rule bit_eqI)
  moreover have "u = (without_flag u)\<lparr>eflags := eflags u\<rparr>" for u by (simp add: without_flag_def)
  ultimately show ?thesis using assms(2) by metis
qed

lemma intr_ops_flag:
  "fst (intr_enable s) = intr_get_status s" "intr_get_status (snd (intr_enable s)) = INTR_ON"
  "without_flag (snd (intr_enable s)) = without_flag s"
  "fst (intr_disable s) = intr_get_status s" "intr_get_status (snd (intr_disable s)) = INTR_OFF"
  "without_flag (snd (intr_disable s)) = without_flag s"
  by (simp_all add: intr_enable_def intr_disable_def intr_get_status_bit flag_ops without_flag_set)

interpretation irq: irq_control intr_get_status intr_enable intr_disable intr_set_status without_flag
  by unfold_locales (simp_all add: intr_ops_flag intr_set_status_def without_flag_ext)

section \<open>The tables after initialisation\<close>

definition tables_ok :: "machine \<Rightarrow> bool" where
  "tables_ok s \<longleftrightarrow> length (idt s) = IDT_DESC_CNT \<and> length (idt_table s) = IDT_DESC_CNT
     \<and> length (intr_name s) = IDT_DESC_CNT"

definition gate_offset :: "gate_desc \<Rightarrow> u32" where
  "gate_offset g = push_bit 16 (ucast (func_offset_high_word g)) OR ucast (func_offset_low_word g)"

lemma gate_offset_make: "gate_offset (make_idt_desc g attr f) = f"
proof -
  have m: "(0xFFFF :: u32) = mask 16" "(0xFFFF0000 :: u32) = push_bit 16 (mask 16)"
    by (simp_all add: mask_eq_exp_minus_1)
  show ?thesis
    by (rule bit_word_eqI) (auto simp: gate_offset_def make_idt_desc_def m bit_simps)
qed

lemma idt_desc_loop_result:
  "length (idt s) = IDT_DESC_CNT \<Longrightarrow> i \<le> IDT_DESC_CNT \<Longrightarrow> \<exists>g. idt_desc_loop tbl i s = s\<lparr>idt := g\<rparr> \<and> length g = IDT_DESC_CNT
     \<and> (\<forall>j<IDT_DESC_CNT. g ! j = (if i \<le> j then make_idt_desc (idt s ! j) IDT_DESC_ATTR_DPL0 (tbl ! j) else idt s ! j))"
proof (induction tbl i s rule: idt_desc_loop.induct)
  case (1 tbl i s)
  show ?case
  proof (cases "i < IDT_DESC_CNT")
    case True
    let ?s = "s\<lparr>idt := (idt s)[i := make_idt_desc (idt s ! i) IDT_DESC_ATTR_DPL0 (tbl ! i)]\<rparr>"
    obtain g where g: "idt_desc_loop tbl (i + 1) ?s = ?s\<lparr>idt := g\<rparr>" "length g = IDT_DESC_CNT"
        "\<forall>j<IDT_DESC_CNT. g ! j = (if i + 1 \<le> j then make_idt_desc (idt ?s ! j) IDT_DESC_ATTR_DPL0 (tbl ! j) else idt ?s ! j)"
      using 1(1) [OF True] 1(2) True by auto
    have "g ! j = (if i \<le> j then make_idt_desc (idt s ! j) IDT_DESC_ATTR_DPL0 (tbl ! j) else idt s ! j)"
      if "j < IDT_DESC_CNT" for j
      using g(3) that 1(2) by (cases "j = i") (auto simp: nth_list_update)
    moreover have "idt_desc_loop tbl i s = s\<lparr>idt := g\<rparr>"
      using True g(1) by (subst idt_desc_loop.simps) simp
    ultimately show ?thesis using g(2) by blast
  next
    case False
    then show ?thesis using 1(2,3) by (subst idt_desc_loop.simps) (auto intro!: exI [of _ "idt s"])
  qed
qed

lemma exception_loop_result:
  "length (idt_table s) = IDT_DESC_CNT \<Longrightarrow> length (intr_name s) = IDT_DESC_CNT \<Longrightarrow> i \<le> IDT_DESC_CNT \<Longrightarrow>
   \<exists>h n. exception_loop i s = s\<lparr>idt_table := h, intr_name := n\<rparr> \<and> length h = IDT_DESC_CNT \<and> length n = IDT_DESC_CNT
     \<and> (\<forall>j<IDT_DESC_CNT. h ! j = (if i \<le> j then General_intr_handler else idt_table s ! j)
          \<and> n ! j = (if i \<le> j then ''unknown'' else intr_name s ! j))"
proof (induction i s rule: exception_loop.induct)
  case (1 i s)
  show ?case
  proof (cases "i < IDT_DESC_CNT")
    case True
    let ?s = "s\<lparr>idt_table := (idt_table s)[i := General_intr_handler], intr_name := (intr_name s)[i := ''unknown'']\<rparr>"
    obtain h n where g: "exception_loop (i + 1) ?s = ?s\<lparr>idt_table := h, intr_name := n\<rparr>" "length h = IDT_DESC_CNT"
        "length n = IDT_DESC_CNT" "\<forall>j<IDT_DESC_CNT. h ! j = (if i + 1 \<le> j then General_intr_handler else idt_table ?s ! j)
          \<and> n ! j = (if i + 1 \<le> j then ''unknown'' else intr_name ?s ! j)"
      using 1(1) [OF True] 1(2,3) True by auto
    have "h ! j = (if i \<le> j then General_intr_handler else idt_table s ! j)
          \<and> n ! j = (if i \<le> j then ''unknown'' else intr_name s ! j)"
      if "j < IDT_DESC_CNT" for j
      using g(4) that 1(2,3) by (cases "j = i") (auto simp: nth_list_update)
    moreover have "exception_loop i s = s\<lparr>idt_table := h, intr_name := n\<rparr>"
      using True g(1) by (subst exception_loop.simps) simp
    ultimately show ?thesis using g(2,3) by blast
  next
    case False
    then show ?thesis using 1(2-4)
      by (subst exception_loop.simps) (auto intro!: exI [of _ "idt_table s"] exI [of _ "intr_name s"])
  qed
qed

definition pic_trace :: "(u16 \<times> u8) list" where
  "pic_trace = [(0x20, 0x11), (0x21, 0x20), (0x21, 0x04), (0x21, 0x01), (0xa0, 0x11), (0xa1, 0x28), (0xa1, 0x02),
     (0xa1, 0x01), (0x21, 0xfe), (0xa1, 0xff)]"

lemma pic_init_ports: "ports (pic_init s) = ports s @ pic_trace"
  by (simp add: pic_init_def outb_def pic_trace_def PIC_M_CTRL_def PIC_M_DATA_def PIC_S_CTRL_def PIC_S_DATA_def)

definition timer_trace :: "(u16 \<times> u8) list" where
  "timer_trace = [(0x43, 0x34), (0x40, 0x9b), (0x40, 0)]"

lemma timer_init_ports: "ports (timer_init s) = ports s @ timer_trace"
  by (simp add: timer_init_def frequency_set_def outb_def PIT_CONTROL_PORT_def CONTRER0_PORT_def COUNTER0_VALUE_def timer_trace_def)

lemma pic_init_frame [frame, simp]:
  "pmem (pic_init s) = pmem s" "kernel_pool (pic_init s) = kernel_pool s" "user_pool (pic_init s) = user_pool s"
  "kernel_vaddr (pic_init s) = kernel_vaddr s" "eflags (pic_init s) = eflags s" "idt (pic_init s) = idt s"
  "idt_table (pic_init s) = idt_table s" "intr_name (pic_init s) = intr_name s" "idtr (pic_init s) = idtr s"
  by (simp_all add: pic_init_def outb_def)

lemma idt_init_result:
  assumes "tables_ok s"
  shows "tables_ok (idt_init tbl a s)" and "ports (idt_init tbl a s) = ports s @ pic_trace"
    and "pmem (idt_init tbl a s) = pmem s" and "eflags (idt_init tbl a s) = eflags s"
    and "j < IDT_DESC_CNT \<Longrightarrow> idt (idt_init tbl a s) ! j = make_idt_desc (idt s ! j) IDT_DESC_ATTR_DPL0 (tbl ! j)"
    and "j < IDT_DESC_CNT \<Longrightarrow> idt_table (idt_init tbl a s) ! j = General_intr_handler"
    and "idtr (idt_init tbl a s) = (of_nat (8 * IDT_DESC_CNT) - 1) OR push_bit 16 (ucast a)"
proof -
  let ?s = "put_str ''idt_init start\<newline>'' s"
  have l: "length (idt s) = IDT_DESC_CNT" "length (idt_table s) = IDT_DESC_CNT" "length (intr_name s) = IDT_DESC_CNT"
    using assms by (simp_all add: tables_ok_def)
  obtain g where g: "idt_desc_loop tbl 0 ?s = ?s\<lparr>idt := g\<rparr>" "length g = IDT_DESC_CNT"
      "\<forall>j<IDT_DESC_CNT. g ! j = make_idt_desc (idt s ! j) IDT_DESC_ATTR_DPL0 (tbl ! j)"
    using idt_desc_loop_result [of ?s 0 tbl] l by auto
  let ?t = "put_str ''   idt_desc_init done\<newline>'' (?s\<lparr>idt := g\<rparr>)"
  obtain h n where h: "exception_loop 0 ?t = ?t\<lparr>idt_table := h, intr_name := n\<rparr>" "length h = IDT_DESC_CNT"
      "length n = IDT_DESC_CNT" "\<forall>j<IDT_DESC_CNT. h ! j = General_intr_handler"
    using exception_loop_result [of ?t 0] l by auto
  note d = idt_init_def idt_desc_init_def exception_init_def Let_def g(1) h(1) pic_init_ports tables_ok_def
  show "tables_ok (idt_init tbl a s)" "ports (idt_init tbl a s) = ports s @ pic_trace"
    "pmem (idt_init tbl a s) = pmem s" "eflags (idt_init tbl a s) = eflags s"
    "j < IDT_DESC_CNT \<Longrightarrow> idt (idt_init tbl a s) ! j = make_idt_desc (idt s ! j) IDT_DESC_ATTR_DPL0 (tbl ! j)"
    "j < IDT_DESC_CNT \<Longrightarrow> idt_table (idt_init tbl a s) ! j = General_intr_handler"
    "idtr (idt_init tbl a s) = (of_nat (8 * IDT_DESC_CNT) - 1) OR push_bit 16 (ucast a)"
    using g(2,3) h(2-4) by (simp_all add: d)
qed

section \<open>What the port writes mean\<close>

text \<open>
  An 8259A: a command byte with bit 4 set at the control port starts the initialisation, the
  next bytes at the data port are the vector base, the cascade wiring and the mode, and
  after these a byte at the data port is the interrupt mask.
\<close>

record pic =
  icw_next :: nat
  vec_base :: u8
  int_mask :: u8

definition pic_step :: "u16 \<Rightarrow> u16 \<Rightarrow> u16 \<times> u8 \<Rightarrow> pic \<Rightarrow> pic" where
  "pic_step ctrl data w p =
     (if fst w = ctrl then (if bit (snd w) 4 then p\<lparr>icw_next := 2\<rparr> else p)
      else if fst w = data
      then (if icw_next p = 2 then p\<lparr>vec_base := snd w, icw_next := 3\<rparr>
            else if icw_next p = 3 then p\<lparr>icw_next := 4\<rparr>
            else if icw_next p = 4 then p\<lparr>icw_next := 0\<rparr>
            else p\<lparr>int_mask := snd w\<rparr>)
      else p)"

text \<open>
  The 8253, for counter 0 in the mode that takes the low byte and then the high one.
\<close>

record pit =
  byte_next :: nat
  pit_mode :: nat
  reload :: nat

definition pit_step :: "u16 \<times> u8 \<Rightarrow> pit \<Rightarrow> pit" where
  "pit_step w p =
     (if fst w = 0x43
      then (if unat (snd w) div 64 = 0 \<and> unat (snd w) div 16 mod 4 = 3
            then p\<lparr>byte_next := 1, pit_mode := unat (snd w) div 2 mod 8\<rparr> else p)
      else if fst w = 0x40
      then (if byte_next p = 1 then p\<lparr>reload := unat (snd w), byte_next := 2\<rparr>
            else if byte_next p = 2 then p\<lparr>reload := reload p + 256 * unat (snd w), byte_next := 1\<rparr>
            else p)
      else p)"

section \<open>Properties\<close>

text \<open>C21: after \<open>idt_init\<close> every gate of the table has the kernel code selector and the
  attributes of a present 32-bit interrupt gate of level 0, the two halves of its offset are
  together the entry point of its vector, every handler is the general one, and the operand
  of \<open>lidt\<close> holds the table's limit in its low 16 bits and its address above; memory and the
  flags are unchanged.\<close>

theorem idt_init_gates:
  assumes "tables_ok s" "j < IDT_DESC_CNT"
  shows "gate_offset (idt (idt_init tbl a s) ! j) = tbl ! j \<and> selector (idt (idt_init tbl a s) ! j) = 8
    \<and> attribute (idt (idt_init tbl a s) ! j) = 0x8e \<and> dcount (idt (idt_init tbl a s) ! j) = 0
    \<and> idt_table (idt_init tbl a s) ! j = General_intr_handler
    \<and> take_bit 16 (idtr (idt_init tbl a s)) = of_nat (8 * length (idt (idt_init tbl a s)) - 1)
    \<and> drop_bit 16 (idtr (idt_init tbl a s)) = ucast a
    \<and> pmem (idt_init tbl a s) = pmem s \<and> eflags (idt_init tbl a s) = eflags s"
proof -
  note r = idt_init_result [OF assms(1), where tbl = tbl and a = a]
  have i: "idtr (idt_init tbl a s) = 263 OR push_bit 16 (ucast a)" using r(7) by (simp add: IDT_DESC_CNT_def)
  have "take_bit 16 (263 OR push_bit 16 (ucast a) :: u64) = 263"
  proof -
    have "take_bit 16 (push_bit 16 (ucast a :: u64)) = 0" by (simp add: take_bit_push_bit)
    then show ?thesis by (simp add: take_bit_or)
  qed
  moreover have "drop_bit 16 (263 OR push_bit 16 (ucast a) :: u64) = ucast a"
  proof -
    have "drop_bit 16 (push_bit 16 (ucast a :: u64)) = ucast a"
      by (rule bit_word_eqI) (auto simp: bit_simps dest: bit_imp_le_length)
    then show ?thesis by (simp add: drop_bit_or)
  qed
  moreover have "length (idt (idt_init tbl a s)) = 33" using r(1) by (simp add: tables_ok_def IDT_DESC_CNT_def)
  ultimately show ?thesis
    using r(3,4) r(5,6) [OF assms(2)] gate_offset_make
    by (simp add: i) (simp add: make_idt_desc_def SELECTOR_K_CODE_def IDT_DESC_ATTR_DPL0_def)
qed

definition demo_tables :: "machine \<Rightarrow> machine" where
  "demo_tables s = s\<lparr>idt := replicate 33 \<lparr>func_offset_low_word = 0, selector = 0, dcount = 0, attribute = 0, func_offset_high_word = 0\<rparr>,
     idt_table := replicate 33 NULL_handler, intr_name := replicate 33 []\<rparr>"

lemma demo_tables_ok: "tables_ok (demo_tables s)"
  by (simp add: tables_ok_def demo_tables_def IDT_DESC_CNT_def)

theorem idt_init_gates_witness:
  "\<forall>s. gate_offset (idt (idt_init (map (\<lambda>i. 0xc0001500 + of_nat i) [0..<33]) 0xc0003000 (demo_tables s)) ! 3) = 0xc0001503"
  using idt_init_gates [OF demo_tables_ok, of 3 "map (\<lambda>i. 0xc0001500 + of_nat i) [0..<33]"]
  by (simp add: IDT_DESC_CNT_def)

text \<open>Whatever state the two interrupt controllers are in, the port writes of \<open>pic_init\<close>
  leave both initialised, with the interrupts of the first from vector 0x20 and of the
  second from 0x28 on, and only the timer's line open; the vector of every open line has a
  gate in the table.\<close>

lemma pic_init_vectors:
  "\<exists>tr. ports (pic_init s) = ports s @ tr \<and>
     (let m = fold (pic_step PIC_M_CTRL PIC_M_DATA) tr m0; d = fold (pic_step PIC_S_CTRL PIC_S_DATA) tr d0 in
       icw_next m = 0 \<and> vec_base m = 0x20 \<and> int_mask m = 0xfe \<and> icw_next d = 0 \<and> vec_base d = 0x28 \<and> int_mask d = 0xff
       \<and> (\<forall>n<8. bit (int_mask d) n \<and> (\<not> bit (int_mask m) n \<longrightarrow> unat (vec_base m) + n < IDT_DESC_CNT)))"
proof (intro exI conjI)
  show "ports (pic_init s) = ports s @ pic_trace" by (rule pic_init_ports)
  have m: "fold (pic_step PIC_M_CTRL PIC_M_DATA) pic_trace m0 = m0\<lparr>icw_next := 0, vec_base := 0x20, int_mask := 0xfe\<rparr>"
    by (simp add: pic_trace_def pic_step_def PIC_M_CTRL_def PIC_M_DATA_def)
  have d: "fold (pic_step PIC_S_CTRL PIC_S_DATA) pic_trace d0 = d0\<lparr>icw_next := 0, vec_base := 0x28, int_mask := 0xff\<rparr>"
    by (simp add: pic_trace_def pic_step_def PIC_S_CTRL_def PIC_S_DATA_def)
  have "bit (0xff :: u8) n \<and> (\<not> bit (0xfe :: u8) n \<longrightarrow> n < 1)" if "n < 8" for n
  proof -
    have "\<forall>n\<in>set [0..<8]. bit (0xff :: u8) n \<and> (\<not> bit (0xfe :: u8) n \<longrightarrow> n < 1)" by (simp add: upt_rec)
    with that show ?thesis by simp
  qed
  then show "let m = fold (pic_step PIC_M_CTRL PIC_M_DATA) pic_trace m0; d = fold (pic_step PIC_S_CTRL PIC_S_DATA) pic_trace d0 in
       icw_next m = 0 \<and> vec_base m = 0x20 \<and> int_mask m = 0xfe \<and> icw_next d = 0 \<and> vec_base d = 0x28 \<and> int_mask d = 0xff
       \<and> (\<forall>n<8. bit (int_mask d) n \<and> (\<not> bit (int_mask m) n \<longrightarrow> unat (vec_base m) + n < IDT_DESC_CNT))"
    by (auto simp: m d Let_def IDT_DESC_CNT_def)
qed

text \<open>The timer is not programmed with the value the code computes for 100 interrupts a
  second: \<open>timer_init\<close> selects the rate generator of counter 0 but loads it with the low byte
  of the value, 155, instead of 11931, since the cast in the last \<open>outb\<close> drops the high byte
  before the shift.\<close>

lemma timer_init_reload:
  "\<exists>tr. ports (timer_init s) = ports s @ tr \<and> pit_mode (fold pit_step tr p) = 2 \<and> reload (fold pit_step tr p) = 155
     \<and> reload (fold pit_step tr p) = unat COUNTER0_VALUE mod 256 \<and> unat COUNTER0_VALUE = 11931"
proof (intro exI conjI)
  show "ports (timer_init s) = ports s @ timer_trace" by (rule timer_init_ports)
  show "unat COUNTER0_VALUE = 11931" by (simp add: COUNTER0_VALUE_def)
  then show "reload (fold pit_step timer_trace p) = unat COUNTER0_VALUE mod 256"
    by (simp add: pit_step_def timer_trace_def)
qed (simp_all add: pit_step_def timer_trace_def)

text \<open>C23: saving and restoring the interrupt flag.  Between \<open>intr_disable\<close> and \<open>intr_set_status\<close>
  of what it returned, the flag is off; afterwards it is as before, whatever the code in
  between did to it; the rest of the state is what that code left, and a critical section
  inside another is the same as one alone.\<close>

theorem intr_save_restore:
  "intr_get_status (snd (intr_disable s)) = INTR_OFF
   \<and> intr_get_status (critical intr_disable intr_set_status f s) = intr_get_status s
   \<and> without_flag (critical intr_disable intr_set_status f s) = without_flag (f (snd (intr_disable s)))
   \<and> ((\<forall>s t. without_flag s = without_flag t \<longrightarrow> without_flag (f s) = without_flag (f t)) \<longrightarrow>
       critical intr_disable intr_set_status (critical intr_disable intr_set_status f) s
         = critical intr_disable intr_set_status f s)"
  using irq.critical_flag [of f s] irq.critical_rest [of f s] irq.critical_nested [of f s] irq.disable_law(2) [of s]
  by blast

theorem intr_save_restore_witness:
  "\<forall>s. critical intr_disable intr_set_status (critical intr_disable intr_set_status (outb 0x20 0x20)) s
     = critical intr_disable intr_set_status (outb 0x20 0x20) s"
proof
  fix s
  have "without_flag (outb 0x20 0x20 s) = outb 0x20 0x20 (without_flag s)" for s
    by (simp add: without_flag_def outb_def)
  then show "critical intr_disable intr_set_status (critical intr_disable intr_set_status (outb 0x20 0x20)) s
     = critical intr_disable intr_set_status (outb 0x20 0x20) s"
    using intr_save_restore [of s "outb 0x20 0x20"] by simp
qed

text \<open>\<open>panic_spin\<close> switches interrupts off, changes nothing else of the machine's state than
  the console, and prints the file, the function and the condition it was given and the
  line in hexadecimal.\<close>

lemma panic_spin_report:
  "\<exists>ds. console (panic_spin filename line func condition s) = console s @ ''\<newline>\<newline>\<newline>!!!!! error !!!!!\<newline>filename:'' @ filename
      @ ''\<newline>line:0x'' @ ds @ ''\<newline>function:'' @ func @ ''\<newline>condition:'' @ condition @ ''\<newline>''
     \<and> hex_val ds = line mod 2 ^ 32 \<and> intr_get_status (panic_spin filename line func condition s) = INTR_OFF
     \<and> (panic_spin filename line func condition s)\<lparr>eflags := eflags s, console := console s\<rparr> = s"
proof -
  let ?s = "put_str ''line:0x'' (put_str ''\<newline>'' (put_str filename (put_str ''filename:''
    (put_str ''\<newline>\<newline>\<newline>!!!!! error !!!!!\<newline>'' (snd (intr_disable s))))))"
  obtain ds where ds: "put_int (of_nat line) ?s = ?s\<lparr>console := console ?s @ ds\<rparr>" "hex_val ds = unat (of_nat line :: u32)"
    using put_int_digits by blast
  have "panic_spin filename line func condition s = (snd (intr_disable s))\<lparr>console := console s @ ''\<newline>\<newline>\<newline>!!!!! error !!!!!\<newline>filename:'' @ filename
      @ ''\<newline>line:0x'' @ ds @ ''\<newline>function:'' @ func @ ''\<newline>condition:'' @ condition @ ''\<newline>''\<rparr>"
    unfolding panic_spin_def Let_def ds(1) by (simp add: put_str_console intr_disable_def)
  moreover have "hex_val ds = line mod 2 ^ 32" using ds(2) by (simp add: unat_of_nat)
  moreover have "(snd (intr_disable s))\<lparr>eflags := eflags s\<rparr> = s" by (simp add: intr_disable_def)
  ultimately show ?thesis
    using irq.disable_law(2) [of s] by (intro exI [of _ ds]) (simp add: intr_get_status_def intr_disable_def split: if_splits)
qed

end
