(* ===== verification/Kmain.thy ===== *)
theory Kmain
  imports Kpools Kinterrupt
begin

text \<open>
  \<open>kernel/init.c\<close> and \<open>kernel/main.c\<close>: the order in which the kernel brings its parts up, and
  its first allocation.  \<open>main\<close> is modelled up to the endless loop it ends in.
\<close>

definition init_all :: "u32 list \<Rightarrow> u32 \<Rightarrow> machine \<Rightarrow> machine result" where
  "init_all intr_entry_table idt_addr s0 =
     (let s = put_str ''init_all\<newline>'' s0;
          s = idt_init intr_entry_table idt_addr s;
          s = timer_init s
      in mem_init s)"

definition main :: "u32 list \<Rightarrow> u32 \<Rightarrow> machine \<Rightarrow> machine result" where
  "main intr_entry_table idt_addr s0 =
     (let s = put_str ''I am kernel\<newline>'' s0 in
      rbind (init_all intr_entry_table idt_addr s) (\<lambda>s.
      rbind (get_kernel_pages 3 s) (\<lambda>(addr, s).
        let s = put_str ''\<newline> get_kernel_pages start vaddr is '' s;
            s = put_int addr s
        in Inr (put_str ''\<newline>'' s))))"

section \<open>Each step of the boot\<close>

lemma timer_init_frame [frame, simp]:
  "pmem (timer_init s) = pmem s" "eflags (timer_init s) = eflags s" "idt (timer_init s) = idt s"
  "idt_table (timer_init s) = idt_table s" "intr_name (timer_init s) = intr_name s" "idtr (timer_init s) = idtr s"
  by (simp_all add: timer_init_def frequency_set_def outb_def)

lemma heap_at_put [simp]: "heap_at (put_str cs s) k = heap_at s k" "heap_at (put_int n s) k = heap_at s k"
  by (simp_all add: heap_at_def)

lemma vread32_total:
  assumes "kernel_mapped m"
  shows "vread32 m 0xb00 = Inr (load32 m 0xb00)"
proof -
  have "0xb00 = va 0 0 0xb00" by (simp add: va_def)
  then show ?thesis using low_translate [OF assms, of 0 0 "0xb00"] by (simp add: vread32_def)
qed

lemma mem_init_heap:
  assumes K: "kernel_mapped (pmem s)" and slots: "\<forall>i<512. pt_entry (pmem s) 0x101000 (512 + i) AND 1 = 0"
  obtains s' where "mem_init s = Inr s'" "heap_at s' 0"
    "bm_size (pool_bitmap (kernel_pool s')) = 8 * (free_pages (load32 (pmem s) 0xb00) div 2 div 8)"
    "eflags s' = eflags s" "ports s' = ports s" "idt s' = idt s" "idtr s' = idtr s" "idt_table s' = idt_table s"
    "\<forall>i<1024. pt_entry (pmem s') 0x101000 i = pt_entry (pmem s) 0x101000 i" "intr_name s' = intr_name s"
proof -
  let ?s = "put_str ''mem_init start\<newline>'' s" and ?t = "load32 (pmem s) 0xb00"
  have K': "kernel_mapped (pmem ?s)" using K by simp
  obtain s' D f where 1: "mem_pool_init ?t ?s = Inr s'" "pools_ready ?t s'" "kernel_mapped (pmem s')"
      "updates (pmem ?s) low_kernel D f (pmem s')" "D \<subseteq> low_kernel" "eflags s' = eflags s" "ports s' = ports s"
      "idt s' = idt s" "idtr s' = idtr s" "idt_table s' = idt_table s" "intr_name s' = intr_name s"
    using mem_pool_init_ready [OF K', of ?t] by auto
  have kept: "\<forall>i<1024. pt_entry (pmem s') 0x101000 i = pt_entry (pmem s) 0x101000 i"
    using pt_entry_updates [OF 1(4) K' 1(5), of "0x101000"] by simp
  with slots have "heap_at s' 0" by (intro pools_ready_heap [OF 1(2,3)]) simp
  moreover have "mem_init s = Inr (put_str ''mem_init done\<newline>'' s')"
    using 1(1) by (simp add: mem_init_def Let_def vread32_total [OF K])
  ultimately show thesis
    using 1(6-11) kept pools_ready_ok(3) [OF 1(2)] by (intro that [of "put_str ''mem_init done\<newline>'' s'"]) simp_all
qed

lemma main_runs:
  assumes "kernel_mapped (pmem s)" "tables_ok s" "16 \<le> free_pages (load32 (pmem s) 0xb00)"
    "\<forall>i<768. pt_entry (pmem s) 0x101000 (256 + i) AND 1 = 0"
  shows "\<exists>s' c ds. main tbl a s = Inr s' \<and> heap_at s' 3 \<and> intr_get_status s' = intr_get_status s
    \<and> (\<forall>j<IDT_DESC_CNT. gate_offset (idt s' ! j) = tbl ! j)
    \<and> console s' = c @ ''get_kernel_pages start vaddr is '' @ ds @ ''\<newline>'' \<and> hex_val ds = 0xc0100000
    \<and> translate (pmem s') 0xc0100000 = None
    \<and> tables_ok s' \<and> (\<forall>j<IDT_DESC_CNT. idt_table s' ! j = General_intr_handler) \<and> ports s' = ports s @ pic_trace @ timer_trace"
proof -
  define s1 where "s1 = timer_init (idt_init tbl a (put_str ''init_all\<newline>'' (put_str ''I am kernel\<newline>'' s)))"
  have t: "tables_ok (put_str ''init_all\<newline>'' (put_str ''I am kernel\<newline>'' s))" using assms(2) by (simp add: tables_ok_def)
  note i = idt_init_result [OF t, where tbl = tbl and a = a]
  have s1: "pmem s1 = pmem s" "eflags s1 = eflags s" using i(3,4) by (simp_all add: s1_def)
  have K: "kernel_mapped (pmem s1)" using assms(1) s1 by simp
  have slots: "\<forall>i<512. pt_entry (pmem s1) 0x101000 (512 + i) AND 1 = 0"
  proof (intro allI impI)
    fix i :: nat assume "i < 512"
    then show "pt_entry (pmem s1) 0x101000 (512 + i) AND 1 = 0" using assms(4) [rule_format, of "256 + i"] s1 by simp
  qed
  obtain s2 where s2: "mem_init s1 = Inr s2" "heap_at s2 0"
      "bm_size (pool_bitmap (kernel_pool s2)) = 8 * (free_pages (load32 (pmem s1) 0xb00) div 2 div 8)"
      "eflags s2 = eflags s1" "ports s2 = ports s1" "idt s2 = idt s1" "idtr s2 = idtr s1" "idt_table s2 = idt_table s1"
      "\<forall>i<1024. pt_entry (pmem s2) 0x101000 i = pt_entry (pmem s1) 0x101000 i" "intr_name s2 = intr_name s1"
    by (rule mem_init_heap [OF K slots])
  have "3 \<le> bm_size (pool_bitmap (kernel_pool s2))"
  proof -
    have "8 \<le> free_pages (load32 (pmem s) 0xb00) div 2" using assms(3) by simp
    then have "1 \<le> free_pages (load32 (pmem s) 0xb00) div 2 div 8" by (simp add: Suc_le_eq div_greater_zero_iff)
    then show ?thesis using s2(3) s1(1) by simp
  qed
  then obtain m where m: "malloc_page PF_KERNEL (of_nat 3) s2 = Inr (K_HEAP_START + of_nat 0 * PG_SIZE, s2\<lparr>pmem := m\<rparr>)"
      "heap_at (s2\<lparr>pmem := m\<rparr>) (0 + 3)" "\<forall>i<512. pt_entry m 0x101000 i = pt_entry (pmem s2) 0x101000 i"
    using malloc_page_next [OF s2(2), of 3] by auto
  let ?s3 = "put_str ''\<newline> get_kernel_pages start vaddr is '' (s2\<lparr>pmem := m\<rparr>)"
  obtain ds where ds: "put_int 0xc0100000 ?s3 = ?s3\<lparr>console := console ?s3 @ ds\<rparr>" "hex_val ds = unat (0xc0100000 :: u32)"
    using put_int_digits by blast
  let ?s4 = "put_str ''\<newline>'' (put_int 0xc0100000 ?s3)"
  have "main tbl a s = Inr ?s4"
    using s2(1) m(1) by (simp add: main_def init_all_def Let_def get_kernel_pages_def K_HEAP_START_def flip: s1_def)
  moreover have h: "heap_at ?s4 3" using m(2) by simp
  moreover have "intr_get_status ?s4 = intr_get_status s" using s2(4) s1(2) by (simp add: intr_get_status_def)
  moreover have "\<forall>j<IDT_DESC_CNT. gate_offset (idt ?s4 ! j) = tbl ! j"
    using s2(6) i(5) by (simp add: s1_def gate_offset_make)
  moreover have "console ?s4 = (console s2 @ ''\<newline> '') @ ''get_kernel_pages start vaddr is '' @ ds @ ''\<newline>''"
    unfolding ds(1) by (simp add: put_str_console)
  moreover have "translate (pmem ?s4) 0xc0100000 = None"
  proof -
    have Km: "kernel_mapped (pmem ?s4)" using h by (simp add: heap_at_def pages_at_def)
    have "pt_entry (pmem ?s4) 0x101000 256 AND 1 = 0"
      using m(3) s2(9) s1(1) assms(4) [rule_format, of 0] by simp
    then show ?thesis using heap_translate [OF Km, of 0] by (simp add: K_HEAP_START_def)
  qed
  moreover have "hex_val ds = 0xc0100000" using ds(2) by simp
  moreover have "tables_ok ?s4" "\<forall>j<IDT_DESC_CNT. idt_table ?s4 ! j = General_intr_handler"
    using s2(6,8,10) i(1,6) by (simp_all add: s1_def tables_ok_def)
  moreover have "ports ?s4 = ports s @ pic_trace @ timer_trace" using s2(5) i(2) by (simp add: s1_def timer_init_ports)
  ultimately show ?thesis by blast
qed

section \<open>Properties\<close>

text \<open>C6: the boot of the kernel.  From a state with the boot loader's page tables, an empty
  second half of the first table and at least 16 free pages of reported memory, \<open>main\<close> runs
  to its final loop without a fault or a panic: every gate leads to its entry point, the
  interrupt flag is as it was, three pages of the heap are out and the last line of the
  console gives the address \<open>0xc0100000\<close>, which is not mapped.\<close>

theorem main_boots:
  assumes "kernel_mapped (pmem s)" "tables_ok s" "16 \<le> free_pages (load32 (pmem s) 0xb00)"
    "\<forall>i<768. pt_entry (pmem s) 0x101000 (256 + i) AND 1 = 0"
  shows "\<exists>s' c ds. main tbl a s = Inr s' \<and> heap_at s' 3 \<and> intr_get_status s' = intr_get_status s
    \<and> (\<forall>j<IDT_DESC_CNT. gate_offset (idt s' ! j) = tbl ! j)
    \<and> console s' = c @ ''get_kernel_pages start vaddr is '' @ ds @ ''\<newline>'' \<and> hex_val ds = 0xc0100000
    \<and> translate (pmem s') 0xc0100000 = None"
  using main_runs [OF assms] by blast

text \<open>A state like the one the boot loader leaves: its page tables, 32 MB of reported memory and nothing else.\<close>

abbreviation demo_boot_state :: machine where
  "demo_boot_state \<equiv> demo_tables (demo_machine\<lparr>pmem := setup_page (\<lambda>p. if p = 0xb03 then 2 else 0)\<rparr>)"

lemma demo_boot:
  "kernel_mapped (pmem demo_boot_state)" "tables_ok demo_boot_state" "16 \<le> free_pages (load32 (pmem demo_boot_state) 0xb00)"
  "\<forall>i<768. pt_entry (pmem demo_boot_state) 0x101000 (256 + i) AND 1 = 0"
proof -
  let ?m0 = "\<lambda>p :: u32. if p = 0xb03 then 2 else (0 :: u8)"
  have p: "pmem demo_boot_state = setup_page ?m0" by (simp add: demo_tables_def)
  show "kernel_mapped (pmem demo_boot_state)" unfolding p by (rule setup_page_kernel_mapped)
  show "tables_ok demo_boot_state" by (rule demo_tables_ok)
  have "load32 (setup_page ?m0) 0xb00 = load32 ?m0 0xb00"
    by (rule load32_cong, rule setup_page_low) (auto simp: word_bytes_def)
  also have "\<dots> = 0x2000000" by (simp add: load32_def)
  finally show "16 \<le> free_pages (load32 (pmem demo_boot_state) 0xb00)" unfolding p by (simp add: free_pages_def)
  show "\<forall>i<768. pt_entry (pmem demo_boot_state) 0x101000 (256 + i) AND 1 = 0"
  proof (intro allI impI)
    fix i :: nat assume i: "i < 768"
    have "?m0 q = 0" if "q \<in> word_bytes (of_nat (0x101000 + 4 * (256 + i)))" for q
      using that i by (auto simp: word_bytes_iff simp del: of_nat_add of_nat_mult)
    then have "pt_entry ?m0 0x101000 (256 + i) = 0" unfolding pt_entry_def by (rule load32_zero)
    then show "pt_entry (pmem demo_boot_state) 0x101000 (256 + i) AND 1 = 0"
      unfolding p using i by (simp add: setup_page_entry_kept)
  qed
qed

theorem main_boots_witness: "\<exists>s'. main (replicate 33 0xc0001500) 0xc0003000 demo_boot_state = Inr s' \<and> heap_at s' 3"
  using main_boots [OF demo_boot] by blast

end
