(* ===== verification/Kentry.thy ===== *)
theory Kentry
  imports Kinterrupt
begin

text \<open>
  \<open>kernel/kernel.S\<close>: the entry stubs of the 33 interrupt vectors and their common exit, on a
  processor with the registers the stubs save, and a stack of words, top first.  The macro
  \<open>VECTOR\<close> is given, for each vector, either \<open>ZERO\<close>, which pushes a word in the place of an
  error code, or \<open>ERROR_CODE\<close>, which pushes nothing since the processor has pushed one.
  Which exceptions the processor pushes an error code for is a parameter of the model, and
  so is what the C handler leaves in the general registers.
\<close>

section \<open>Processor\<close>

record gpr =
  r_eax :: u32
  r_ecx :: u32
  r_edx :: u32
  r_ebx :: u32
  r_ebp :: u32
  r_esi :: u32
  r_edi :: u32

record segs =
  r_ds :: u32
  r_es :: u32
  r_fs :: u32
  r_gs :: u32

record cpu =
  gprs :: gpr
  seg_regs :: segs
  r_eip :: u32
  r_cs :: u32
  r_eflags :: u32
  stack :: "u32 list"
  eoi :: "(u16 \<times> u8) list"

text \<open>The processor's part: through an interrupt gate of the same level it pushes the flags and
  the return address, and the error code where there is one, and clears the interrupt flag.\<close>

definition cpu_interrupt :: "u32 option \<Rightarrow> u32 \<Rightarrow> cpu \<Rightarrow> cpu" where
  "cpu_interrupt err entry c =
     (let st = r_eip c # r_cs c # r_eflags c # stack c in
      c\<lparr>stack := (case err of None \<Rightarrow> st | Some e \<Rightarrow> e # st), r_eip := entry,
        r_eflags := r_eflags c AND NOT EFLAGS_IF\<rparr>)"

definition iretd :: "cpu \<Rightarrow> cpu option" where
  "iretd c = (case stack c of ip # cs # fl # st \<Rightarrow> Some (c\<lparr>r_eip := ip, r_cs := cs, r_eflags := fl, stack := st\<rparr>)
     | _ \<Rightarrow> None)"

section \<open>The stubs\<close>

datatype entry_kind = ZERO | ERROR_CODE

definition entry_kinds :: "entry_kind list" where
  "entry_kinds =
     [ZERO, ZERO, ZERO, ZERO, ZERO, ZERO, ZERO, ZERO, ERROR_CODE, ZERO, ERROR_CODE, ERROR_CODE, ZERO, ERROR_CODE,
      ERROR_CODE, ZERO, ZERO, ERROR_CODE, ZERO, ZERO, ZERO, ZERO, ZERO, ZERO, ERROR_CODE, ZERO, ERROR_CODE, ERROR_CODE,
      ZERO, ERROR_CODE, ERROR_CODE, ZERO, ZERO]"

definition pushad :: "u32 \<Rightarrow> cpu \<Rightarrow> cpu" where
  "pushad esp c = (let g = gprs c in
     c\<lparr>stack := r_edi g # r_esi g # r_ebp g # esp # r_ebx g # r_edx g # r_ecx g # r_eax g # stack c\<rparr>)"

definition intr_entry :: "u32 \<Rightarrow> nat \<Rightarrow> cpu \<Rightarrow> cpu" where
  "intr_entry esp vec c0 =
     (let c = (case entry_kinds ! vec of ZERO \<Rightarrow> c0\<lparr>stack := 0 # stack c0\<rparr> | ERROR_CODE \<Rightarrow> c0);
          s = seg_regs c;
          c = c\<lparr>stack := r_gs s # r_fs s # r_es s # r_ds s # stack c\<rparr>;
          c = pushad esp c;
          c = c\<lparr>gprs := (gprs c)\<lparr>r_eax := (r_eax (gprs c) AND NOT 0xff) OR 0x20\<rparr>, eoi := eoi c @ [(0xa0, 0x20), (0x20, 0x20)]\<rparr>
      in c\<lparr>stack := of_nat vec # stack c\<rparr>)"

definition intr_exit :: "cpu \<Rightarrow> cpu option" where
  "intr_exit c = (case stack c of
     vec # edi # esi # ebp # esp_dummy # ebx # edx # ecx # eax # gs # fs # es # ds # err # st \<Rightarrow>
       iretd (c\<lparr>gprs := \<lparr>r_eax = eax, r_ecx = ecx, r_edx = edx, r_ebx = ebx, r_ebp = ebp, r_esi = esi, r_edi = edi\<rparr>,
         seg_regs := \<lparr>r_ds = ds, r_es = es, r_fs = fs, r_gs = gs\<rparr>, stack := st\<rparr>)
   | _ \<Rightarrow> None)"

text \<open>The whole of an interrupt: the processor, the stub, the C handler, which may leave anything
  in the general registers and gives the stack back as it found it, and the exit.\<close>

definition take_interrupt :: "(nat \<Rightarrow> u32 option) \<Rightarrow> (nat \<Rightarrow> u32) \<Rightarrow> (gpr \<Rightarrow> gpr) \<Rightarrow> u32 \<Rightarrow> nat \<Rightarrow> cpu \<Rightarrow> cpu option" where
  "take_interrupt err entry handler esp vec c =
     (let c = intr_entry esp vec (cpu_interrupt (err vec) (entry vec) c) in
      intr_exit (c\<lparr>gprs := handler (gprs c)\<rparr>))"

lemma cpu_only:
  assumes "entry_kinds ! vec = ZERO" "err vec = Some e"
  shows "take_interrupt err entry handler esp vec c = Some (c\<lparr>r_eip := e, r_cs := r_eip c, r_eflags := r_cs c,
     stack := r_eflags c # stack c, eoi := eoi c @ [(0xa0, 0x20), (0x20, 0x20)]\<rparr>)"
  using assms by (simp add: take_interrupt_def intr_entry_def intr_exit_def pushad_def cpu_interrupt_def iretd_def Let_def)

lemma stub_only:
  assumes "entry_kinds ! vec = ERROR_CODE" "err vec = None" "stack c = x # st"
  shows "take_interrupt err entry handler esp vec c = Some (c\<lparr>r_eip := r_cs c, r_cs := r_eflags c, r_eflags := x,
     stack := st, eoi := eoi c @ [(0xa0, 0x20), (0x20, 0x20)]\<rparr>)"
  using assms by (simp add: take_interrupt_def intr_entry_def intr_exit_def pushad_def cpu_interrupt_def iretd_def Let_def)

lemma transparent:
  assumes "(entry_kinds ! vec = ERROR_CODE) = (err vec \<noteq> None)"
  shows "take_interrupt err entry handler esp vec c = Some (c\<lparr>eoi := eoi c @ [(0xa0, 0x20), (0x20, 0x20)]\<rparr>)"
  using assms
  by (cases "entry_kinds ! vec"; cases "err vec")
    (auto simp: take_interrupt_def intr_entry_def intr_exit_def pushad_def cpu_interrupt_def iretd_def Let_def)

section \<open>Properties\<close>

text \<open>C22: the return from an interrupt.  On a vector whose stub agrees with the processor about the error code the interrupted code is resumed with every
  register, the flags and the stack as they were, after both interrupt controllers have been told that the interrupt is over.  Where the processor pushes
  an error code that the stub does not expect, the return takes the error code for the address to resume at, the address for the code segment and
  the segment for the flags; where the stub expects one that is not there, it takes the segment for the address, and a word too many from the stack.  With the exceptions that push an
  error code on the 80386 to the Pentium 4 (8, 10 to 14 and 17), the stubs of the processor's own vectors 0 to 19 and of the timer agree on all vectors but 12, the stack fault.\<close>

theorem interrupt_return:
  shows "((entry_kinds ! vec = ERROR_CODE) = (err vec \<noteq> None) \<longrightarrow>
      take_interrupt err entry handler esp vec c = Some (c\<lparr>eoi := eoi c @ [(0xa0, 0x20), (0x20, 0x20)]\<rparr>))
    \<and> (entry_kinds ! vec = ZERO \<and> err vec = Some e \<longrightarrow>
      take_interrupt err entry handler esp vec c = Some (c\<lparr>r_eip := e, r_cs := r_eip c, r_eflags := r_cs c,
        stack := r_eflags c # stack c, eoi := eoi c @ [(0xa0, 0x20), (0x20, 0x20)]\<rparr>))
    \<and> (entry_kinds ! vec = ERROR_CODE \<and> err vec = None \<and> stack c = x # st \<longrightarrow>
      take_interrupt err entry handler esp vec c = Some (c\<lparr>r_eip := r_cs c, r_cs := r_eflags c, r_eflags := x,
        stack := st, eoi := eoi c @ [(0xa0, 0x20), (0x20, 0x20)]\<rparr>))
    \<and> ((\<forall>v. (err v \<noteq> None) = (v \<in> {8, 10, 11, 12, 13, 14, 17})) \<longrightarrow>
      (\<forall>v\<in>{0..19} \<union> {0x20}. ((entry_kinds ! v = ERROR_CODE) = (err v \<noteq> None)) = (v \<noteq> 12)))"
proof (intro conjI impI)
  assume e: "\<forall>v. (err v \<noteq> None) = (v \<in> {8, 10, 11, 12, 13, 14, 17})"
  have "\<forall>v\<in>set ([0..<20] @ [32]). ((entry_kinds ! v = ERROR_CODE) = (v \<in> {8, 10, 11, 12, 13, 14, 17})) = (v \<noteq> 12)"
    by (simp add: entry_kinds_def upt_rec)
  moreover have "{0..19} \<union> {0x20} = set ([0..<20] @ [32 :: nat])" by auto
  ultimately show "\<forall>v\<in>{0..19} \<union> {0x20}. ((entry_kinds ! v = ERROR_CODE) = (err v \<noteq> None)) = (v \<noteq> 12)" unfolding e [rule_format] by blast
qed (simp_all add: transparent stub_only cpu_only)

definition demo_cpu :: cpu where
  "demo_cpu = \<lparr>gprs = \<lparr>r_eax = 1, r_ecx = 2, r_edx = 3, r_ebx = 4, r_ebp = 5, r_esi = 6, r_edi = 7\<rparr>,
     seg_regs = \<lparr>r_ds = 16, r_es = 16, r_fs = 16, r_gs = 24\<rparr>, r_eip = 0xc0001500, r_cs = 8, r_eflags = 0x202,
     stack = [42], eoi = []\<rparr>"

theorem interrupt_return_witness:
  "take_interrupt (\<lambda>_. None) (\<lambda>_. 0xc0002000) (\<lambda>g. g\<lparr>r_eax := 99\<rparr>) 0xc009f000 0x20 demo_cpu =
     Some (demo_cpu\<lparr>eoi := [(0xa0, 0x20), (0x20, 0x20)]\<rparr>)
   \<and> (\<exists>c. take_interrupt (\<lambda>v. if v = 12 then Some 0 else None) (\<lambda>_. 0xc0002000) id 0xc009f000 12 demo_cpu = Some c \<and> r_eip c = 0)"
proof -
  have "eoi demo_cpu = []" "entry_kinds ! 0x20 = ZERO" "entry_kinds ! 12 = ZERO" by (simp_all add: demo_cpu_def entry_kinds_def)
  then show ?thesis
    using interrupt_return [of "0x20" "\<lambda>_. None" "\<lambda>_. 0xc0002000" "\<lambda>g. g\<lparr>r_eax := 99\<rparr>" "0xc009f000" demo_cpu 0 0 "[]"]
      interrupt_return [of 12 "\<lambda>v. if v = 12 then Some 0 else None" "\<lambda>_. 0xc0002000" id "0xc009f000" demo_cpu 0 0 "[]"] by simp
qed

end
