(* ===== verification/Kirq.thy ===== *)
theory Kirq
  imports Kmain Kentry
begin

text \<open>
  An interrupt as a whole, on the processor and the state of the kernel: the gate leads to the stub of
  \<open>kernel/kernel.S\<close>, which tells both controllers that the interrupt is over and calls the handler in
  \<open>idt_table\<close>, and the exit resumes the interrupted code.  The properties compose the boot (\<open>Kmain\<close>), the tables and
  the controllers (\<open>Kinterrupt\<close>) and the stubs (\<open>Kentry\<close>).
\<close>

section \<open>Definitions\<close>

text \<open>The call through \<open>idt_table\<close>; \<open>None\<close> is a jump through a null pointer.\<close>

definition call_handler :: "nat \<Rightarrow> machine \<Rightarrow> machine option" where
  "call_handler vec s = (case idt_table s ! vec of
     NULL_handler \<Rightarrow> None
   | General_intr_handler \<Rightarrow> Some (general_intr_handler (of_nat vec) s))"

text \<open>
  A request of an interrupt controller on the processor and on the state of the kernel, whose flags are those of the
  processor; \<open>err\<close>, \<open>clobber\<close> and \<open>esp\<close> are those of \<open>take_interrupt\<close>.  While the interrupt flag is off the request stays
  pending and the code goes on.  Otherwise the gate is taken: the handler runs with the flag off, and \<open>iretd\<close> brings the
  flags back.  A vector without a gate is not taken.
\<close>

definition interrupt :: "(nat \<Rightarrow> u32 option) \<Rightarrow> (gpr \<Rightarrow> gpr) \<Rightarrow> u32 \<Rightarrow> nat \<Rightarrow> cpu \<times> machine \<Rightarrow> (cpu \<times> machine) option" where
  "interrupt err clobber esp vec cs = (case cs of (c, s) \<Rightarrow>
     if EFLAGS_IF AND r_eflags c = 0 then Some (c, s)
     else if vec \<ge> length (idt s) then None
     else (case take_interrupt err (\<lambda>v. gate_offset (idt s ! v)) clobber esp vec c of
         None \<Rightarrow> None
       | Some c' \<Rightarrow> map_option (\<lambda>s. (c', s\<lparr>eflags := r_eflags c'\<rparr>))
           (call_handler vec (outb PIC_M_CTRL 0x20 (outb PIC_S_CTRL 0x20 (s\<lparr>eflags := r_eflags c AND NOT EFLAGS_IF\<rparr>))))))"

primrec interrupts :: "(nat \<Rightarrow> u32 option) \<Rightarrow> (gpr \<Rightarrow> gpr) \<Rightarrow> u32 \<Rightarrow> nat \<Rightarrow> nat \<Rightarrow> cpu \<times> machine \<Rightarrow> (cpu \<times> machine) option" where
  "interrupts err clobber esp vec 0 cs = Some cs"
| "interrupts err clobber esp vec (Suc n) cs = Option.bind (interrupt err clobber esp vec cs) (interrupts err clobber esp vec n)"

section \<open>Timer interrupts\<close>

abbreviation eois :: "(u16 \<times> u8) list" where "eois \<equiv> [(0xa0, 0x20), (0x20, 0x20)]"

lemma handler_line: "general_intr_handler 0x20 s = s\<lparr>console := console s @ ''int vector: 0x20\<newline>''\<rparr>"
proof -
  have "dropWhile (\<lambda>c. c = CHR ''0'') (based_4bits 8 0x20 []) = ''20''" by code_simp
  then have "put_int 0x20 t = t\<lparr>console := console t @ ''20''\<rparr>" for t by (simp add: put_int_def put_str_console)
  then show ?thesis by (simp add: general_intr_handler_def put_str_console put_char_def)
qed

lemma timer_interrupt:
  assumes "tables_ok s" "idt_table s ! 0x20 = General_intr_handler" "r_eflags c = eflags s" "EFLAGS_IF AND eflags s \<noteq> 0" "err 0x20 = None"
  shows "interrupt err clobber esp 0x20 (c, s) = Some (c\<lparr>eoi := eoi c @ eois\<rparr>,
    s\<lparr>ports := ports s @ eois, console := console s @ ''int vector: 0x20\<newline>''\<rparr>)"
proof -
  have "entry_kinds ! 0x20 = ZERO" "0x20 < length (idt s)" using assms(1) by (simp_all add: entry_kinds_def tables_ok_def IDT_DESC_CNT_def)
  then show ?thesis
    using assms(2-5) transparent [of "0x20" err] handler_line
    by (simp add: interrupt_def call_handler_def outb_def PIC_M_CTRL_def PIC_S_CTRL_def)
qed

lemma timer_interrupts:
  assumes "err 0x20 = None"
  shows "tables_ok s \<Longrightarrow> idt_table s ! 0x20 = General_intr_handler \<Longrightarrow> r_eflags c = eflags s \<Longrightarrow> EFLAGS_IF AND eflags s \<noteq> 0 \<Longrightarrow>
    interrupts err clobber esp 0x20 n (c, s) = Some (c\<lparr>eoi := eoi c @ concat (replicate n eois)\<rparr>,
      s\<lparr>ports := ports s @ concat (replicate n eois), console := console s @ concat (replicate n ''int vector: 0x20\<newline>'')\<rparr>)"
proof (induction n arbitrary: c s)
  case (Suc n)
  let ?c = "c\<lparr>eoi := eoi c @ eois\<rparr>" and ?s = "s\<lparr>ports := ports s @ eois, console := console s @ ''int vector: 0x20\<newline>''\<rparr>"
  have "tables_ok ?s" "idt_table ?s ! 0x20 = General_intr_handler" "r_eflags ?c = eflags ?s" "EFLAGS_IF AND eflags ?s \<noteq> 0" using Suc.prems by (simp_all add: tables_ok_def)
  from Suc.IH [OF this] show ?case
    using timer_interrupt [where err = err and s = s, OF Suc.prems assms] by simp
qed simp

lemma pending_interrupts: "EFLAGS_IF AND r_eflags c = 0 \<Longrightarrow> interrupts err clobber esp vec n (c, s) = Some (c, s)"
  by (induction n) (simp_all add: interrupt_def)

lemma pics_trace:
  "fold (pic_step PIC_M_CTRL PIC_M_DATA) (pic_trace @ timer_trace @ concat (replicate n eois)) m0 = m0\<lparr>icw_next := 0, vec_base := 0x20, int_mask := 0xfe\<rparr>"
  "fold (pic_step PIC_S_CTRL PIC_S_DATA) (pic_trace @ timer_trace @ concat (replicate n eois)) d0 = d0\<lparr>icw_next := 0, vec_base := 0x28, int_mask := 0xff\<rparr>"
proof -
  have e: "fold (pic_step PIC_M_CTRL PIC_M_DATA) eois p = p" "fold (pic_step PIC_S_CTRL PIC_S_DATA) eois p = p" for p
    by (simp_all add: pic_step_def PIC_M_CTRL_def PIC_M_DATA_def PIC_S_CTRL_def PIC_S_DATA_def)
  have "fold (pic_step PIC_M_CTRL PIC_M_DATA) (concat (replicate n eois)) p = p" "fold (pic_step PIC_S_CTRL PIC_S_DATA) (concat (replicate n eois)) p = p" for p
    by (induction n arbitrary: p) (use e in \<open>simp_all del: fold_simps add: fold_append\<close>)
  then show "fold (pic_step PIC_M_CTRL PIC_M_DATA) (pic_trace @ timer_trace @ concat (replicate n eois)) m0 = m0\<lparr>icw_next := 0, vec_base := 0x20, int_mask := 0xfe\<rparr>"
    "fold (pic_step PIC_S_CTRL PIC_S_DATA) (pic_trace @ timer_trace @ concat (replicate n eois)) d0 = d0\<lparr>icw_next := 0, vec_base := 0x28, int_mask := 0xff\<rparr>"
    by (simp_all add: pic_trace_def timer_trace_def pic_step_def PIC_M_CTRL_def PIC_M_DATA_def PIC_S_CTRL_def PIC_S_DATA_def)
qed

lemma open_lines: "n < 8 \<Longrightarrow> bit (0xff :: u8) n \<and> (\<not> bit (0xfe :: u8) n \<longleftrightarrow> n = 0)"
proof -
  assume "n < 8"
  moreover have "\<forall>n\<in>set [0..<8]. bit (0xff :: u8) n \<and> (\<not> bit (0xfe :: u8) n \<longleftrightarrow> n = 0)" by (simp add: upt_rec)
  ultimately show ?thesis by simp
qed

section \<open>Properties\<close>

text \<open>C14: timer interrupts and the boot.  From the states in which \<open>main\<close> boots, and whatever the state of the two interrupt controllers before:
  \<open>main\<close> leaves the interrupt flag as it was, and while it is off no request of the timer is taken; nothing on the path of the loader and of \<open>main\<close> turns
  the flag on or off.  With the flag on, after \<open>intr_enable\<close> on the state that \<open>main\<close> leaves, which changes nothing where it was on before, it holds before and after any number of timer
  interrupts: the writes to the controllers leave only the timer's line open, on vector 0x20, whose gate leads to its stub; every such interrupt is taken and returns to the interrupted code with
  all registers, the flags and the stack as they were, and prints one line; memory, the heap and the tables are as \<open>main\<close> left them.\<close>

theorem timer_interrupts_after_boot:
  assumes "kernel_mapped (pmem s)" "tables_ok s" "16 \<le> free_pages (load32 (pmem s) 0xb00)"
    "\<forall>i<768. pt_entry (pmem s) 0x101000 (256 + i) AND 1 = 0" "err 0x20 = None"
  shows "\<exists>s'. main tbl a s = Inr s' \<and> gate_offset (idt s' ! 0x20) = tbl ! 0x20 \<and> intr_get_status s' = intr_get_status s
    \<and> (intr_get_status s = INTR_OFF \<longrightarrow> (\<forall>n c. r_eflags c = eflags s' \<longrightarrow> interrupts err clobber esp 0x20 n (c, s') = Some (c, s')))
    \<and> (\<forall>n c. r_eflags c = eflags (snd (intr_enable s')) \<longrightarrow> (\<exists>s'' tr.
        interrupts err clobber esp 0x20 n (c, snd (intr_enable s')) = Some (c\<lparr>eoi := eoi c @ concat (replicate n [(0xa0, 0x20), (0x20, 0x20)])\<rparr>, s'')
        \<and> console s'' = console s' @ concat (replicate n ''int vector: 0x20\<newline>'')
        \<and> ports s'' = ports s @ tr \<and> s''\<lparr>console := console s', ports := ports s'\<rparr> = snd (intr_enable s') \<and> heap_at s'' 3
        \<and> (let m = fold (pic_step PIC_M_CTRL PIC_M_DATA) tr m0; d = fold (pic_step PIC_S_CTRL PIC_S_DATA) tr d0 in
            icw_next m = 0 \<and> vec_base m = 0x20 \<and> icw_next d = 0 \<and> (\<forall>l<8. bit (int_mask d) l \<and> (\<not> bit (int_mask m) l \<longleftrightarrow> l = 0)))))"
proof -
  obtain s' where m: "main tbl a s = Inr s'" "heap_at s' 3" "\<forall>j<IDT_DESC_CNT. gate_offset (idt s' ! j) = tbl ! j" "tables_ok s'"
      "\<forall>j<IDT_DESC_CNT. idt_table s' ! j = General_intr_handler" "ports s' = ports s @ pic_trace @ timer_trace" "intr_get_status s' = intr_get_status s"
    using main_runs [OF assms(1-4), of tbl a] by blast
  have v: "0x20 < IDT_DESC_CNT" by (simp add: IDT_DESC_CNT_def)
  let ?e = "snd (intr_enable s')"
  have e: "tables_ok ?e" "idt_table ?e ! 0x20 = General_intr_handler" "EFLAGS_IF AND eflags ?e \<noteq> 0" "console ?e = console s'" "ports ?e = ports s'"
    using m(4) m(5) [rule_format, OF v] irq.enable_law(2) [of s']
    by (auto simp: intr_enable_def tables_ok_def intr_get_status_def split: if_splits)
  note run = timer_interrupts [where err = err and clobber = clobber and esp = esp, OF assms(5) e(1,2) _ e(3)]
  have h: "heap_at (?e\<lparr>ports := x, console := y\<rparr>) 3" for x y using m(2) by (simp add: heap_at_def intr_enable_def)
  have z: "?e\<lparr>ports := ports s', console := console s'\<rparr> = ?e" by (simp add: intr_enable_def)
  show ?thesis
  proof (rule exI [of _ s'], intro conjI allI impI)
    fix n and c :: cpu assume c: "r_eflags c = eflags ?e"
    show "\<exists>s'' tr. interrupts err clobber esp 0x20 n (c, ?e) = Some (c\<lparr>eoi := eoi c @ concat (replicate n eois)\<rparr>, s'')
        \<and> console s'' = console s' @ concat (replicate n ''int vector: 0x20\<newline>'')
        \<and> ports s'' = ports s @ tr \<and> s''\<lparr>console := console s', ports := ports s'\<rparr> = ?e \<and> heap_at s'' 3
        \<and> (let m = fold (pic_step PIC_M_CTRL PIC_M_DATA) tr m0; d = fold (pic_step PIC_S_CTRL PIC_S_DATA) tr d0 in
            icw_next m = 0 \<and> vec_base m = 0x20 \<and> icw_next d = 0 \<and> (\<forall>l<8. bit (int_mask d) l \<and> (\<not> bit (int_mask m) l \<longleftrightarrow> l = 0)))"
      by (rule exI, rule exI [of _ "pic_trace @ timer_trace @ concat (replicate n eois)"], intro conjI, rule run [OF c])
        (use m(6) h z pics_trace [where n = n] open_lines in \<open>simp_all add: Let_def e(4,5)\<close>)
  next
    fix n and c :: cpu assume "intr_get_status s = INTR_OFF" "r_eflags c = eflags s'"
    then show "interrupts err clobber esp 0x20 n (c, s') = Some (c, s')"
      using m(7) by (intro pending_interrupts) (simp add: intr_get_status_def split: if_splits)
  qed (use m v in auto)
qed

theorem timer_interrupts_after_boot_witness:
  "\<exists>s' s''. main (replicate 33 0xc0001500) 0xc0003000
      (demo_tables (demo_machine\<lparr>pmem := setup_page (\<lambda>p. if p = 0xb03 then 2 else 0)\<rparr>)) = Inr s'
    \<and> interrupts (\<lambda>_. None) id 0xc009f000 0x20 2 (demo_cpu\<lparr>r_eflags := eflags s'\<rparr>, s') = Some (demo_cpu\<lparr>r_eflags := eflags s'\<rparr>, s')
    \<and> interrupts (\<lambda>_. None) id 0xc009f000 0x20 2 (demo_cpu\<lparr>r_eflags := eflags (snd (intr_enable s'))\<rparr>, snd (intr_enable s'))
        = Some (demo_cpu\<lparr>r_eflags := eflags (snd (intr_enable s')), eoi := eois @ eois\<rparr>, s'')
    \<and> console s'' = console s' @ ''int vector: 0x20\<newline>int vector: 0x20\<newline>''"
proof -
  have off: "intr_get_status demo_boot_state = INTR_OFF"
    by (simp add: intr_get_status_def demo_tables_def demo_machine_def EFLAGS_IF_def)
  obtain s' where s': "main (replicate 33 0xc0001500) 0xc0003000 demo_boot_state = Inr s'"
    "intr_get_status demo_boot_state = INTR_OFF \<longrightarrow> (\<forall>n c. r_eflags c = eflags s' \<longrightarrow> interrupts (\<lambda>_. None) id 0xc009f000 0x20 n (c, s') = Some (c, s'))"
    "\<forall>n c. r_eflags c = eflags (snd (intr_enable s')) \<longrightarrow> (\<exists>s''. interrupts (\<lambda>_. None) id 0xc009f000 0x20 n (c, snd (intr_enable s'))
          = Some (c\<lparr>eoi := eoi c @ concat (replicate n eois)\<rparr>, s'')
        \<and> console s'' = console s' @ concat (replicate n ''int vector: 0x20\<newline>''))"
    using timer_interrupts_after_boot [OF demo_boot, where err = "\<lambda>_. None" and tbl = "replicate 33 0xc0001500" and a = "0xc0003000"
        and clobber = id and esp = "0xc009f000" and ?m0.0 = "\<lparr>icw_next = 0, vec_base = 8, int_mask = 0\<rparr>"
        and ?d0.0 = "\<lparr>icw_next = 0, vec_base = 0x70, int_mask = 0\<rparr>"] by blast
  have "eoi demo_cpu = []" "concat (replicate 2 eois) = eois @ eois"
    "concat (replicate 2 ''int vector: 0x20\<newline>'') = ''int vector: 0x20\<newline>int vector: 0x20\<newline>''"
    by (simp_all add: demo_cpu_def numeral_2_eq_2)
  then show ?thesis
    using s'(1) off s'(2) s'(3) [rule_format, of "demo_cpu\<lparr>r_eflags := eflags (snd (intr_enable s'))\<rparr>" 2] by auto
qed

end
