(* ===== verification/Kthread.thy ===== *)
theory Kthread
  imports Machine
begin

text \<open>
  \<open>thread/thread.h\<close> and \<open>thread/thread.c\<close>: the layout of the stacks and of the task structure,
  and \<open>thread_create\<close>, which works on the structures in memory through their field offsets.
  The address of the static function \<open>kernel_thread\<close> is the linker's, a parameter.
\<close>

section \<open>Structures\<close>

datatype task_status = TASK_RUNNING | TASK_READY | TASK_BLOCKED | TASK_WAITING | TASK_HANDING | TASK_DIED

text \<open>The fields in the order of the declarations, each of four bytes.\<close>

datatype intr_stack_field =
    I_vec_no | I_edi | I_esi | I_ebp | I_esp_dummy | I_ebx | I_edx | I_ecx | I_eax
  | I_gs | I_fs | I_es | I_ds | I_err_code | I_eip | I_cs | I_eflags | I_esp | I_ss

definition intr_stack :: "intr_stack_field list" where
  "intr_stack = [I_vec_no, I_edi, I_esi, I_ebp, I_esp_dummy, I_ebx, I_edx, I_ecx, I_eax,
     I_gs, I_fs, I_es, I_ds, I_err_code, I_eip, I_cs, I_eflags, I_esp, I_ss]"

datatype thread_stack_field = T_ebp | T_ebx | T_edi | T_esi | T_eip | T_unused_retaddr | T_function | T_func_arg

definition thread_stack :: "thread_stack_field list" where
  "thread_stack = [T_ebp, T_ebx, T_edi, T_esi, T_eip, T_unused_retaddr, T_function, T_func_arg]"

definition struct_size :: "'a list \<Rightarrow> u32" where
  "struct_size fs = of_nat (4 * length fs)"

definition field_offset :: "'a \<Rightarrow> 'a list \<Rightarrow> u32" where
  "field_offset f fs = of_nat (4 * length (takeWhile (\<lambda>g. g \<noteq> f) fs))"

text \<open>\<open>kernel_thread\<close> calls the function it is handed on the argument beside it; it returns what that
  call leaves, its faults included.\<close>

definition kernel_thread_body :: "('a \<Rightarrow> machine \<Rightarrow> machine result) \<Rightarrow> 'a \<Rightarrow> machine \<Rightarrow> machine result" where
  "kernel_thread_body function func_arg s = function func_arg s"

text \<open>\<open>self_kstack\<close> is the first field of \<open>task_struct\<close>, a \<open>uint32_t *\<close>: subtracting \<open>n\<close> from it
  lowers the address by \<open>4 * n\<close>.\<close>

definition thread_create :: "u32 \<Rightarrow> u32 \<Rightarrow> u32 \<Rightarrow> u32 \<Rightarrow> mem \<Rightarrow> mem result" where
  "thread_create kernel_thread pthread function func_arg m =
     rbind (vread32 m pthread) (\<lambda>self_kstack.
     rbind (vwrite32 m pthread (self_kstack - 4 * struct_size intr_stack)) (\<lambda>m.
     rbind (vread32 m pthread) (\<lambda>self_kstack.
     rbind (vwrite32 m pthread (self_kstack - 4 * struct_size thread_stack)) (\<lambda>m.
     rbind (vread32 m pthread) (\<lambda>kthread_stack.
     rbind (vwrite32 m (kthread_stack + field_offset T_eip thread_stack) kernel_thread) (\<lambda>m.
     vwrite32 m (kthread_stack + field_offset T_function thread_stack) function))))))"

section \<open>Words of the low megabyte\<close>

lemma low_word:
  assumes "kernel_mapped m" "x + 4 \<le> 0x100000"
  shows "translate m (0xc0000000 + of_nat x) = Some (of_nat x)"
proof -
  have "0xc0000000 + of_nat x \<in> low_kernel" unfolding low_kernel_def by (rule span_I) (use assms in simp)
  then show ?thesis using low_kernel_translate(1) [OF assms(1)] by simp
qed

lemma vread32_low: "kernel_mapped m \<Longrightarrow> x + 4 \<le> 0x100000 \<Longrightarrow> vread32 m (0xc0000000 + of_nat x) = Inr (load32 m (of_nat x))"
  by (simp add: vread32_def low_word)

lemma vwrite32_low:
  assumes "kernel_mapped m" "x + 4 \<le> 0x100000"
  shows "vwrite32 m (0xc0000000 + of_nat x) w = Inr (store32 m (of_nat x) w)" "kernel_mapped (store32 m (of_nat x) w)"
proof -
  show "vwrite32 m (0xc0000000 + of_nat x) w = Inr (store32 m (of_nat x) w)" using assms by (simp add: vwrite32_def low_word)
  have "store32 m (of_nat x) w p = m p" if "0x100000 \<le> unat p" for p
    by (rule store32_other) (use assms(2) that in \<open>auto simp: word_bytes_iff\<close>)
  then show "kernel_mapped (store32 m (of_nat x) w)" by (rule kernel_mapped_cong [OF _ assms(1)])
qed

lemma load32_store32_nat:
  "n + 4 \<le> 0x100000 \<Longrightarrow> k + 4 \<le> 0x100000 \<Longrightarrow> n + 4 \<le> k \<or> k + 4 \<le> n \<or> n = k \<Longrightarrow>
     load32 (store32 m (of_nat n) x) (of_nat k) = (if n = k then x else load32 m (of_nat k))"
  using word_bytes_nat_disjoint [of n k] by (auto intro!: load32_store32_disjoint)

section \<open>Properties\<close>

text \<open>C25: \<open>thread_create\<close> on a task whose structure and stack are in the low megabyte: the stack
  pointer ends 432 bytes lower, four times the two structures' sizes, as it is a pointer to
  words; at it the thread's frame has \<open>kernel_thread\<close> as its return address and the function
  to run, and the argument's slot is what it was: the argument is not stored.\<close>

theorem thread_create_frame:
  assumes "kernel_mapped m" "p + 4 \<le> 0x100000" "load32 m (of_nat p) = 0xc0000000 + of_nat (q + 432)"
    "q + 432 \<le> 0x100000" "p + 4 \<le> q \<or> q + 32 \<le> p"
  shows "\<exists>m'. thread_create kt (0xc0000000 + of_nat p) fn arg m = Inr m' \<and> kernel_mapped m'
    \<and> load32 m' (of_nat p) = 0xc0000000 + of_nat q \<and> load32 m' (of_nat (q + 16)) = kt
    \<and> load32 m' (of_nat (q + 24)) = fn \<and> load32 m' (of_nat (q + 28)) = load32 m (of_nat (q + 28))"
proof -
  have sz: "4 * struct_size intr_stack = 304" "4 * struct_size thread_stack = 128"
      "field_offset T_eip thread_stack = 16" "field_offset T_function thread_stack = 24"
    by (simp_all add: struct_size_def intr_stack_def thread_stack_def field_offset_def)
  let ?m1 = "store32 m (of_nat p) (0xc0000000 + of_nat (q + 432) - 304)"
  let ?m2 = "store32 ?m1 (of_nat p) (0xc0000000 + of_nat q)"
  let ?m3 = "store32 ?m2 (of_nat (q + 16)) kt"
  let ?m4 = "store32 ?m3 (of_nat (q + 24)) fn"
  note K1 = vwrite32_low(2) [OF assms(1,2), of "0xc0000000 + of_nat (q + 432) - 304"]
  note K2 = vwrite32_low(2) [OF K1 assms(2), of "0xc0000000 + of_nat q"]
  have q: "q + 16 + 4 \<le> 0x100000" "q + 24 + 4 \<le> 0x100000" using assms(4) by simp_all
  note K3 = vwrite32_low(2) [OF K2 q(1), of kt]
  note K4 = vwrite32_low(2) [OF K3 q(2), of fn]
  have a: "0xc0000000 + of_nat (q + 432) - 304 - 128 = (0xc0000000 + of_nat q :: u32)"
    "0xc0000000 + of_nat q + 16 = (0xc0000000 + of_nat (q + 16) :: u32)"
    "0xc0000000 + of_nat q + 24 = (0xc0000000 + of_nat (q + 24) :: u32)" by simp_all
  have "thread_create kt (0xc0000000 + of_nat p) fn arg m = Inr ?m4"
    unfolding thread_create_def sz
    by (simp only: vread32_low [OF assms(1,2)] assms(3) rbind.simps vwrite32_low(1) [OF assms(1,2)]
        vread32_low [OF K1 assms(2)] vwrite32_low(1) [OF K1 assms(2)] load32_store32 a
        vread32_low [OF K2 assms(2)] vwrite32_low(1) [OF K2 q(1)] vwrite32_low(1) [OF K3 q(2)])
  moreover have "load32 ?m4 (of_nat p) = 0xc0000000 + of_nat q" "load32 ?m4 (of_nat (q + 16)) = kt"
      "load32 ?m4 (of_nat (q + 24)) = fn" "load32 ?m4 (of_nat (q + 28)) = load32 m (of_nat (q + 28))"
    using assms(2,4,5) by (auto simp: load32_store32_nat simp del: of_nat_add)
  ultimately show ?thesis using K4 by blast
qed

theorem thread_create_frame_witness:
  "\<exists>m'. thread_create 0xc0001600 0xc0006000 0xc0001700 7 (store32 demo_mem 0x6000 0xc0008000) = Inr m'
     \<and> load32 m' 0x6000 = 0xc0007e50 \<and> load32 m' 0x7e68 = 0xc0001700"
proof -
  have K: "kernel_mapped (store32 demo_mem (of_nat 0x6000) 0xc0008000)"
    by (rule vwrite32_low(2) [OF demo_kernel_mapped(1)]) simp
  have l: "load32 (store32 demo_mem (of_nat 0x6000) 0xc0008000) (of_nat 0x6000) = 0xc0000000 + of_nat (0x7e50 + 432)"
    by (simp only: load32_store32) simp
  show ?thesis using thread_create_frame [OF K _ l, of "0xc0001600" "0xc0001700" 7] by auto
qed

end
