(* ===== verification/Kscreen.thy ===== *)
theory Kscreen
  imports Machine
begin

text \<open>
  \<open>put_char\<close> of \<open>lib/kernel/print.S\<close>: the text screen.  The state is the video memory, as bytes at offsets from its start, which
  is where both \<open>gs\<close> and the address \<open>0xb8000\<close> point, and the two cursor registers of the display controller.  The position is
  kept in the 16-bit register \<open>bx\<close>, as the code does.  The second part abstracts the screen to 2000 cells and a position,
  and shows that \<open>put_char\<close> is the operation of a terminal on them.
\<close>

section \<open>Definitions\<close>

type_synonym vram = "nat \<Rightarrow> u8"

record screen =
  video :: vram
  cursor_high :: u8
  cursor_low :: u8

definition get_cursor :: "screen \<Rightarrow> u16" where
  "get_cursor s = push_bit 8 (ucast (cursor_high s)) OR ucast (cursor_low s)"

definition set_cursor :: "u16 \<Rightarrow> screen \<Rightarrow> screen" where
  "set_cursor bx s = s\<lparr>cursor_high := ucast (drop_bit 8 bx), cursor_low := ucast bx\<rparr>"

text \<open>A character and its attribute at the position \<open>bx\<close>, which the code doubles, increments and halves again.\<close>

definition put_cell :: "u16 \<Rightarrow> u8 \<Rightarrow> vram \<Rightarrow> vram" where
  "put_cell bx ch v = v(unat (push_bit 1 bx) := ch, unat (push_bit 1 bx + 1) := 0x07)"

definition halved :: "u16 \<Rightarrow> u16" where
  "halved bx = drop_bit 1 (push_bit 1 bx + 1)"

text \<open>\<open>rep movsd\<close> from the second line to the first, from the i-th double word on, and the loop that clears the last line.\<close>

primrec rep_movsd :: "nat \<Rightarrow> nat \<Rightarrow> vram \<Rightarrow> vram" where
  "rep_movsd 0 i v = v"
| "rep_movsd (Suc n) i v = rep_movsd n (Suc i)
     (v(4 * i := v (160 + 4 * i), 4 * i + 1 := v (160 + 4 * i + 1), 4 * i + 2 := v (160 + 4 * i + 2), 4 * i + 3 := v (160 + 4 * i + 3)))"

primrec cls :: "nat \<Rightarrow> nat \<Rightarrow> vram \<Rightarrow> vram" where
  "cls 0 ebx v = v"
| "cls (Suc n) ebx v = cls n (ebx + 2) (v(ebx := 0x20, ebx + 1 := 0x07))"

definition roll_screen :: "vram \<Rightarrow> vram" where
  "roll_screen v = cls 80 3840 (rep_movsd 960 0 v)"

text \<open>The comparison \<open>jl\<close> is one of signed numbers.\<close>

definition next_line :: "u16 \<Rightarrow> screen \<Rightarrow> screen" where
  "next_line bx s =
     (let bx' = bx - bx mod 80 + 80 in
      if sint bx' < 2000 then set_cursor bx' s
      else set_cursor 1920 (s\<lparr>video := roll_screen (video s)\<rparr>))"

definition screen_put_char :: "u8 \<Rightarrow> screen \<Rightarrow> screen" where
  "screen_put_char c s =
     (let bx = get_cursor s in
      if c = 0x0d \<or> c = 0x0a then next_line bx s
      else if c = 0x08 then
        set_cursor (halved (bx - 1)) (s\<lparr>video := put_cell (bx - 1) 0x20 (video s)\<rparr>)
      else
        (let s' = s\<lparr>video := put_cell bx c (video s)\<rparr>; bx' = halved bx + 1 in
         if sint bx' < 2000 then set_cursor bx' s' else next_line bx' s'))"

section \<open>A terminal\<close>

type_synonym cell = "u8 \<times> u8"

definition blank_cell :: cell where "blank_cell = (0x20, 0x07)"

fun tty_newline :: "cell list \<times> nat \<Rightarrow> cell list \<times> nat" where
  "tty_newline (cs, n) =
     (let n' = (n div 80 + 1) * 80 in
      if n' < 2000 then (cs, n') else (drop 80 cs @ replicate 80 blank_cell, 1920))"

fun tty_put :: "u8 \<Rightarrow> cell list \<times> nat \<Rightarrow> cell list \<times> nat" where
  "tty_put c (cs, n) =
     (if c = 0x0d \<or> c = 0x0a then tty_newline (cs, n)
      else if c = 0x08 then (cs[n - 1 := blank_cell], n - 1)
      else if n + 1 < 2000 then (cs[n := (c, 0x07)], n + 1)
      else tty_newline (cs[n := (c, 0x07)], n + 1))"

definition cells :: "vram \<Rightarrow> cell list" where
  "cells v = map (\<lambda>i. (v (2 * i), v (2 * i + 1))) [0..<2000]"

definition tty :: "screen \<Rightarrow> cell list \<times> nat" where
  "tty s = (cells (video s), unat (get_cursor s))"

section \<open>Lemmas\<close>

lemma cells_nth: "i < 2000 \<Longrightarrow> cells v ! i = (v (2 * i), v (2 * i + 1))"
  by (simp add: cells_def)

lemma cells_length: "length (cells v) = 2000"
  by (simp add: cells_def)

lemma get_set_cursor: "get_cursor (set_cursor bx s) = bx"
  by (rule bit_word_eqI) (auto simp: get_cursor_def set_cursor_def bit_simps)

lemma set_cursor_video [simp]: "video (set_cursor bx s) = video s"
  by (simp add: set_cursor_def)

lemma unat_doubled:
  assumes "unat (bx :: u16) < 2 ^ 15"
  shows "unat (push_bit 1 bx) = 2 * unat bx" "unat (push_bit 1 bx + 1) = 2 * unat bx + 1"
proof -
  have "push_bit 1 bx = of_nat (2 * unat bx)" "push_bit 1 bx + 1 = of_nat (2 * unat bx + 1)" by (simp_all add: push_bit_eq_mult)
  moreover have "unat (of_nat k :: u16) = k" if "k < 2 ^ 16" for k using that by (simp add: unat_of_nat take_bit_nat_eq_self)
  moreover have "2 * unat bx < 2 ^ 16" "2 * unat bx + 1 < 2 ^ 16" using assms by simp_all
  ultimately show "unat (push_bit 1 bx) = 2 * unat bx" "unat (push_bit 1 bx + 1) = 2 * unat bx + 1" by metis+
qed

lemma halved_id:
  assumes "unat bx < 2 ^ 15"
  shows "halved bx = bx"
  using unat_doubled(2) [OF assms] by (simp add: halved_def word_unat_eq_iff unat_drop_bit_div)

lemma put_cell_cells:
  assumes "unat bx < 2000"
  shows "cells (put_cell bx ch v) = (cells v)[unat bx := (ch, 0x07)]"
proof (rule nth_equalityI)
  fix i assume "i < length (cells (put_cell bx ch v))"
  then have i: "i < 2000" by (simp add: cells_length)
  have "unat (push_bit 1 bx) = 2 * unat bx" "unat (push_bit 1 bx + 1) = 2 * unat bx + 1" using unat_doubled assms by simp_all
  then have "put_cell bx ch v = v(2 * unat bx := ch, 2 * unat bx + 1 := 0x07)" by (simp add: put_cell_def)
  moreover have "2 * i \<noteq> 2 * unat bx + 1" "2 * i + 1 \<noteq> 2 * unat bx" by presburger+
  ultimately show "cells (put_cell bx ch v) ! i = (cells v)[unat bx := (ch, 0x07)] ! i"
    using i by (simp add: cells_nth cells_length nth_list_update)
qed (simp add: cells_length)

lemma rep_movsd_run: "rep_movsd n i v a = (if 4 * i \<le> a \<and> a < 4 * (i + n) then v (160 + a) else v a)"
proof (induction n arbitrary: i v)
  case (Suc n)
  have "a = 4 * i \<or> a = 4 * i + 1 \<or> a = 4 * i + 2 \<or> a = 4 * i + 3 \<or> a < 4 * i \<or> 4 * i + 4 \<le> a" by presburger
  then show ?case using Suc by (elim disjE) (simp_all)
qed auto

lemma cls_low: "a < b \<Longrightarrow> cls n b v a = v a"
  by (induction n arbitrary: b v) simp_all

lemma cls_cell: "k < n \<Longrightarrow> cls n b v (b + 2 * k) = 0x20 \<and> cls n b v (b + 2 * k + 1) = 0x07"
proof (induction n arbitrary: b v k)
  case (Suc n)
  show ?case
  proof (cases k)
    case 0
    then show ?thesis by (simp add: cls_low)
  next
    case (Suc j)
    then show ?thesis using Suc.IH [of j "b + 2" "v(b := 0x20, b + 1 := 0x07)"] Suc.prems by (simp add: add.commute del: fun_upd_apply)
  qed
qed simp

lemma roll_screen_low: "a < 3840 \<Longrightarrow> roll_screen v a = v (160 + a)"
  unfolding roll_screen_def by (subst cls_low, assumption, subst rep_movsd_run) simp

lemma roll_screen_last:
  assumes "k < 80"
  shows "roll_screen v (3840 + 2 * k) = 0x20" "roll_screen v (3840 + 2 * k + 1) = 0x07"
  unfolding roll_screen_def using cls_cell [OF assms, of 3840 "rep_movsd 960 0 v"] by blast+

lemma roll_cells: "cells (roll_screen v) = drop 80 (cells v) @ replicate 80 blank_cell"
proof (rule nth_equalityI)
  fix i assume "i < length (cells (roll_screen v))"
  then have i: "i < 2000" by (simp only: cells_length)
  have len: "length (drop 80 (cells v)) = 1920" by (simp add: cells_length)
  have lhs: "cells (roll_screen v) ! i = (roll_screen v (2 * i), roll_screen v (2 * i + 1))" using cells_nth [OF i] .
  show "cells (roll_screen v) ! i = (drop 80 (cells v) @ replicate 80 blank_cell) ! i"
  proof (cases "i < 1920")
    case True
    have "2 * i < 3840" "2 * i + 1 < 3840" using True by linarith+
    then have "roll_screen v (2 * i) = v (160 + 2 * i)" "roll_screen v (2 * i + 1) = v (160 + (2 * i + 1))"
      by (simp_all only: roll_screen_low)
    moreover have "160 + 2 * i = 2 * (80 + i)" "160 + (2 * i + 1) = 2 * (80 + i) + 1" by presburger+
    moreover have "cells v ! (80 + i) = (v (2 * (80 + i)), v (2 * (80 + i) + 1))" by (rule cells_nth) (use True in linarith)
    moreover have "(drop 80 (cells v) @ replicate 80 blank_cell) ! i = cells v ! (80 + i)"
      unfolding nth_append len using True by (simp only: if_True) (rule nth_drop, simp add: cells_length)
    ultimately show ?thesis unfolding lhs by (simp only:)
  next
    case False
    define k where "k = i - 1920"
    have k: "i = 1920 + k" "k < 80" using False i unfolding k_def by linarith+
    have e: "2 * i = 3840 + 2 * k" "2 * i + 1 = 3840 + 2 * k + 1" using k(1) by presburger+
    have "(drop 80 (cells v) @ replicate 80 blank_cell) ! i = replicate 80 blank_cell ! k"
      unfolding nth_append len k_def using False by (simp only: if_False)
    also have "\<dots> = blank_cell" using k(2) by (rule nth_replicate)
    finally show ?thesis unfolding lhs e using roll_screen_last [OF k(2)] by (simp only: blank_cell_def)
  qed
qed (simp add: cells_length)

lemma sint_less_iff:
  assumes "unat (bx :: u16) < 32768"
  shows "sint bx < 2000 \<longleftrightarrow> unat bx < 2000"
proof -
  have u: "uint bx = int (unat bx)" by (rule uint_nat)
  then have "- 32768 \<le> uint bx \<and> uint bx < 32768" using assms by linarith
  then have "- (2 ^ 15) \<le> uint bx \<and> uint bx < 2 ^ 15" by simp
  then have "signed_take_bit 15 (uint bx) = uint bx" by (simp only: signed_take_bit_int_eq_self_iff)
  moreover have "sint bx = signed_take_bit 15 (uint bx)" by (simp add: sint_uint)
  ultimately have "sint bx = int (unat bx)" using u by (simp only:)
  then show ?thesis by (simp only:) linarith
qed

lemma unat_next_line:
  assumes "unat (bx :: u16) \<le> 2000"
  shows "unat (bx - bx mod 80 + 80) = (unat bx div 80 + 1) * 80"
proof -
  have m: "unat (bx mod 80) = unat bx mod 80" by (simp add: unat_mod)
  then have "bx mod 80 \<le> bx" by (simp add: word_le_nat_alt)
  then have d: "unat (bx - bx mod 80) = unat bx - unat bx mod 80" using m by (simp add: unat_sub)
  then have "unat (bx - bx mod 80 + 80) = unat bx - unat bx mod 80 + 80" using assms by (simp add: unat_plus_if')
  then show ?thesis by (simp add: minus_mod_eq_mult_div)
qed

lemma next_line_tty:
  assumes "unat bx \<le> 2000"
  shows "tty (next_line bx s) = tty_newline (cells (video s), unat bx)" "unat (get_cursor (next_line bx s)) < 2000"
proof -
  define bx' where "bx' = bx - bx mod 80 + 80"
  have u: "unat bx' = (unat bx div 80 + 1) * 80" using unat_next_line [OF assms] by (simp add: bx'_def)
  moreover have "unat bx div 80 \<le> 25" using assms by (simp add: div_le_mono [of _ 2000 80, simplified])
  ultimately have i: "sint bx' < 2000 \<longleftrightarrow> unat bx' < 2000" by (intro sint_less_iff) simp
  show "tty (next_line bx s) = tty_newline (cells (video s), unat bx)"
    using u i by (simp add: next_line_def bx'_def [symmetric] tty_def get_set_cursor roll_cells Let_def)
  show "unat (get_cursor (next_line bx s)) < 2000"
    using i by (simp add: next_line_def bx'_def [symmetric] get_set_cursor Let_def)
qed

lemma put_char_tty:
  assumes "unat (get_cursor s) < 2000" "c = 0x08 \<longrightarrow> get_cursor s \<noteq> 0"
  shows "tty (screen_put_char c s) = tty_put c (tty s) \<and> unat (get_cursor (screen_put_char c s)) < 2000"
proof -
  define bx where "bx = get_cursor s"
  have b: "unat bx < 2000" "tty s = (cells (video s), unat bx)" using assms(1) by (simp_all add: bx_def tty_def)
  consider "c = 0x0d \<or> c = 0x0a" | "c = 0x08" | "c \<notin> {0x0d, 0x0a, 0x08}" by auto
  then show ?thesis
  proof cases
    case 1
    then have "screen_put_char c s = next_line bx s" by (simp add: screen_put_char_def bx_def Let_def)
    then show ?thesis using 1 b next_line_tty [of bx s] by auto
  next
    case 2
    then have "bx \<noteq> 0" using assms(2) by (simp add: bx_def)
    then have u: "unat (bx - 1) = unat bx - 1" by (simp add: unat_minus_one)
    then have "unat (bx - 1) < 2000" "halved (bx - 1) = bx - 1" using b(1) halved_id by simp_all
    moreover have "screen_put_char c s = set_cursor (halved (bx - 1)) (s\<lparr>video := put_cell (bx - 1) 0x20 (video s)\<rparr>)"
      using 2 by (simp add: screen_put_char_def bx_def Let_def)
    ultimately show ?thesis
      using 2 b u by (simp add: tty_def get_set_cursor put_cell_cells blank_cell_def)
  next
    case 3
    have h: "halved bx = bx" "unat (bx + 1) = unat bx + 1" using b(1) halved_id [of bx] by (simp_all add: unat_plus_if')
    then have "sint (bx + 1) < 2000 \<longleftrightarrow> unat bx + 1 < 2000" using sint_less_iff [of "bx + 1"] b(1) by simp
    moreover define s' where "s' = s\<lparr>video := put_cell bx c (video s)\<rparr>"
    ultimately have "screen_put_char c s = (if unat bx + 1 < 2000 then set_cursor (bx + 1) s' else next_line (bx + 1) s')"
      using 3 h by (simp add: screen_put_char_def bx_def [symmetric] Let_def)
    moreover have "cells (video s') = (cells (video s))[unat bx := (c, 0x07)]" using put_cell_cells [OF b(1)] by (simp add: s'_def)
    moreover have "unat (bx + 1) \<le> 2000" using h b(1) by simp
    ultimately show ?thesis
      using 3 b h next_line_tty [of "bx + 1" s'] by (auto simp: tty_def get_set_cursor)
  qed
qed

text \<open>A string is printed character by character.\<close>

lemma put_str_tty:
  "unat (get_cursor s) < 2000 \<Longrightarrow> 0x08 \<notin> set cs \<Longrightarrow> tty (fold screen_put_char cs s) = fold tty_put cs (tty s)
    \<and> unat (get_cursor (fold screen_put_char cs s)) < 2000"
proof (induction cs arbitrary: s)
  case (Cons c cs)
  then show ?case using put_char_tty [of s c] by simp
qed simp

section \<open>Properties\<close>

text \<open>C33: \<open>put_char\<close> is the operation of a terminal of 25 lines of 80 cells, with the position on the screen: a character is shown at the
  position, which moves on; a line feed or carriage return moves to the start of the next line; at the end the
  lines move up by one and the last is blank; a backspace that is not at the very start blanks the cell before. The position stays on the screen.\<close>

theorem put_char_terminal:
  assumes "unat (get_cursor s) < 2000" "c = 0x08 \<longrightarrow> get_cursor s \<noteq> 0"
  shows "tty (screen_put_char c s) = tty_put c (tty s) \<and> unat (get_cursor (screen_put_char c s)) < 2000"
  using put_char_tty [OF assms] .

definition home :: screen where
  "home = \<lparr>video = (\<lambda>_. 0), cursor_high = 0x07, cursor_low = 0xcf\<rparr>"

theorem put_char_terminal_witness: "snd (tty (screen_put_char 0x41 home)) = 1920"
proof -
  have u: "unat (get_cursor home) = 1999" by (simp add: get_cursor_def home_def push_bit_eq_mult)
  then show ?thesis using put_char_terminal [of home "0x41"] by (simp add: tty_def)
qed

text \<open>A backspace at the start of the screen leaves the position at \<open>0x7fff\<close>, off the screen.\<close>

lemma backspace_home: "get_cursor s = 0 \<Longrightarrow> get_cursor (screen_put_char 0x08 s) = 0x7fff"
  by (simp add: screen_put_char_def get_set_cursor halved_def mask_eq_exp_minus_1)

end
