(* ===== verification/Tpt_Kernel.thy ===== *)
theory Tpt_Kernel
  imports Prelude "HOL-Library.State_Monad"
begin

text \<open>
  The world \<open>tptfs\<close> lives in: vnodes, mount points, the layer's own nodes and its hash table
  (\<open>tptfs/tpt.h\<close> and the static data of \<open>tptfs/tpt_subr.c\<close>), and the interface of the FreeBSD
  kernel the sources call.  A pointer is a number, 0 is \<open>NULL\<close>, and each kind of structure has
  its own store.  A vnode carries the fields the sources read or write; \<open>v_vnlock\<close> is the
  vnode whose \<open>v_lock\<close> it points to.  Functions that change the world are computations of the
  state monad over \<open>world\<close>.

  The kernel itself is not part of the repository: every kernel function is a field of the
  record \<open>kernel\<close>, a parameter of the model, and what a theorem uses of it is one of its
  hypotheses, the documented behaviour of that function.  A kernel function may change the
  whole world, which covers what other threads do while it sleeps.  The sources are modelled
  as compiled without \<open>INVARIANTS\<close> and \<open>DIAGNOSTIC\<close>, so that \<open>KASSERT\<close>, \<open>MPASS\<close> and the
  \<open>ASSERT_VOP\<close> macros have no effect; the hash lock, the vnode interlock and the mount
  interlock make the steps they protect atomic and have no other effect, and the messages of
  \<open>printf\<close> and \<open>uprintf\<close> are left out.
\<close>

section \<open>Structures\<close>

type_synonym vp = nat
type_synonym np = nat
type_synonym mp = nat
type_synonym errno = int

abbreviation NULLVP :: vp where "NULLVP \<equiv> 0"

definition ENOENT :: errno where "ENOENT = 2"
definition EBUSY :: errno where "EBUSY = 16"
definition EXDEV :: errno where "EXDEV = 18"
definition EISDIR :: errno where "EISDIR = 21"
definition EINVAL :: errno where "EINVAL = 22"
definition ETXTBSY :: errno where "ETXTBSY = 26"
definition EROFS :: errno where "EROFS = 30"
definition EOPNOTSUPP :: errno where "EOPNOTSUPP = 45"
definition EJUSTRETURN :: errno where "EJUSTRETURN = - 2"

lemmas errno_defs = ENOENT_def EBUSY_def EXDEV_def EISDIR_def EINVAL_def ETXTBSY_def EROFS_def EOPNOTSUPP_def EJUSTRETURN_def

datatype vtype = VNON | VREG | VDIR | VBLK | VCHR | VLNK | VSOCK | VFIFO | VBAD | VMARKER

text \<open>The operation vectors a vnode may have: the layer's, the one of dead vnodes, another.\<close>

datatype vop_vector = tpt_vnodeops | dead_vnodeops | other_vnodeops

record vnode =
  v_type :: vtype
  v_op :: vop_vector
  v_data :: np
  v_mount :: mp
  v_vnlock :: vp
  v_object :: nat
  v_vflag :: u32
  v_irflag :: u32
  v_writecount :: int
  v_usecount :: int
  v_holdcnt :: int
  bo_private :: nat
  bo_ops :: nat

record tpt_node =
  tpt_lowervp :: vp
  tpt_vnode :: vp
  tpt_flags :: u32

record tptfs =
  magic :: u32
  nr_blocks :: u32
  nr_inodes :: u32
  nr_istore_blocks :: u32
  nr_ifree_blocks :: u32
  nr_bfree_blocks :: u32
  nr_free_inodes :: u32
  nr_free_blocks :: u32
  ifree_bitmap :: nat
  bfree_bitmap :: nat

record tpt_mount =
  nullm_vfs :: mp
  nullm_lowerrootvp :: vp
  nullm_flags :: u64
  tptm_fs :: nat

text \<open>The operations a mount point may have: the layer's (\<open>tpt_vfsops\<close>), or another file system's.\<close>

datatype vfs_vector = tpt_vfsops | other_vfsops

record mount =
  mnt_op :: vfs_vector
  mnt_flag :: u64
  mnt_kern_flag :: u32
  mnt_data :: nat
  mnt_nvnodelistsize :: nat
  mnt_uppers :: "mp list"
  mnt_fsid :: u32

record statfs =
  f_type :: u32
  f_flags :: u64
  f_bsize :: u64
  f_iosize :: u64
  f_blocks :: u64
  f_bfree :: u64
  f_bavail :: int
  f_files :: u64
  f_ffree :: int

record vattr =
  va_mode :: u16
  va_uid :: u32
  va_gid :: u32
  va_fsid :: u64
  va_size :: u64
  va_flags :: u64
  va_atime_sec :: int
  va_mtime_sec :: int

datatype nameiop = LOOKUP | CREATE | DELETE | RENAME

record componentname =
  cn_nameiop :: nameiop
  cn_flags :: u64
  cn_nameptr :: string

text \<open>
  The description of a vnode operation and its argument structure.  \<open>a_vps\<close> is the vnode
  pointer at an offset of the structure, \<open>a_vpps\<close> the pointer to a vnode pointer there:
  \<open>None\<close> when it is \<open>NULL\<close>, else what it points to.  The other members are those the layer
  itself reads or writes.
\<close>

record vnodeop_desc =
  vdesc_flags :: u32
  vdesc_vp_offsets :: "nat \<Rightarrow> int"
  vdesc_vpp_offset :: int

record vop_args =
  a_desc :: vnodeop_desc
  a_vps :: "int \<Rightarrow> vp"
  a_vpps :: "int \<Rightarrow> vp option"
  a_vap :: vattr
  a_st_dev :: u64
  a_accmode :: u32

text \<open>
  The last two fields are auxiliary, no code reads or writes them: the nodes and the vnodes that the running thread has for itself, given to it by
  \<open>malloc\<close> and \<open>getnewvnode\<close> or, for a vnode that is reclaimed, by the caller of \<open>VOP_RECLAIM\<close>.  The hypotheses
  on the kernel speak of them, to tell what other threads may do meanwhile from what they may not.
\<close>

record world =
  vnodes :: "vp \<Rightarrow> vnode"
  nodes :: "np \<Rightarrow> tpt_node"
  mounts :: "mp \<Rightarrow> mount"
  mntdatas :: "nat \<Rightarrow> tpt_mount"
  sbs :: "nat \<Rightarrow> tptfs"
  b_data :: "nat \<Rightarrow> tptfs"
  tpt_node_hashtbl :: "nat \<Rightarrow> np list"
  tpt_hash_mask :: u32
  held_nodes :: "np set"
  held_vnodes :: "vp set"

definition NULLV_NOUNLOCK :: u32 where "NULLV_NOUNLOCK = 1"
definition NULLV_DROP :: u32 where "NULLV_DROP = 2"
definition NULLM_CACHE :: u64 where "NULLM_CACHE = 1"

text \<open>Flags of the kernel's headers.\<close>

definition VV_ROOT :: u32 where "VV_ROOT = 0x1"
definition VV_NOSYNC :: u32 where "VV_NOSYNC = 0x4"
definition VIRF_DOOMED :: u32 where "VIRF_DOOMED = 0x1"
definition VIRF_PGREAD :: u32 where "VIRF_PGREAD = 0x2"
definition MNT_RDONLY :: u64 where "MNT_RDONLY = 0x1"
definition MNT_NOEXEC :: u64 where "MNT_NOEXEC = 0x4"
definition MNT_NOSUID :: u64 where "MNT_NOSUID = 0x8"
definition MNT_UNION :: u64 where "MNT_UNION = 0x20"
definition MNT_ROOTFS :: u64 where "MNT_ROOTFS = 0x4000"
definition MNT_FORCE :: u64 where "MNT_FORCE = 0x80000"
definition MNT_NOSYMFOLLOW :: u64 where "MNT_NOSYMFOLLOW = 0x400000"
definition MNT_AUTOMOUNTED :: u64 where "MNT_AUTOMOUNTED = 0x200000000"
definition MNTK_VGONE_UPPER :: u32 where "MNTK_VGONE_UPPER = 0x200"
definition MNTK_VGONE_WAITER :: u32 where "MNTK_VGONE_WAITER = 0x400"
definition FORCECLOSE :: u32 where "FORCECLOSE = 0x2"
definition ISLASTCN :: u64 where "ISLASTCN = 0x8000"
definition VWRITE :: u32 where "VWRITE = 0x80"
definition VDESC_VP0_WILLRELE :: u32 where "VDESC_VP0_WILLRELE = 0x1"
definition VDESC_MAX_VPS :: nat where "VDESC_MAX_VPS = 16"
definition VDESC_NO_OFFSET :: int where "VDESC_NO_OFFSET = - 1"
definition LK_INTERLOCK :: u32 where "LK_INTERLOCK = 0x100"
definition LK_RETRY :: u32 where "LK_RETRY = 0x400"
definition LK_TYPE_MASK :: u32 where "LK_TYPE_MASK = 0xff0000"
definition LK_EXCLUSIVE :: u32 where "LK_EXCLUSIVE = 0x80000"
definition LK_SHARED :: u32 where "LK_SHARED = 0x200000"
definition LK_UPGRADE :: u32 where "LK_UPGRADE = 0x400000"

lemmas lk_defs = LK_INTERLOCK_def LK_RETRY_def LK_TYPE_MASK_def LK_EXCLUSIVE_def LK_SHARED_def LK_UPGRADE_def

section \<open>Computations\<close>

type_synonym 'a km = "(world, 'a) state"

definition asks :: "(world \<Rightarrow> 'a) \<Rightarrow> 'a km" where
  "asks f = State (\<lambda>w. (f w, w))"

definition modify :: "(world \<Rightarrow> world) \<Rightarrow> unit km" where
  "modify f = State (\<lambda>w. ((), f w))"

definition whenM :: "bool \<Rightarrow> unit km \<Rightarrow> unit km" where
  "whenM b c = (if b then c else State_Monad.return ())"

abbreviation ret :: "'a \<Rightarrow> 'a km" where
  "ret \<equiv> State_Monad.return"

lemma run_asks [simp]: "run_state (asks f) w = (f w, w)"
  by (simp add: asks_def)

lemma run_modify [simp]: "run_state (modify f) w = ((), f w)"
  by (simp add: modify_def)

lemma run_whenM [simp]: "run_state (whenM b c) w = (if b then run_state c w else ((), w))"
  by (simp add: whenM_def)

lemma run_if [simp]: "run_state (if b then c else d) w = (if b then run_state c w else run_state d w)"
  by simp

text \<open>
  Triples: started where \<open>P\<close> holds, the computation ends where \<open>Q\<close> holds of its result and
  the world.  Every computation ends, so partial and total correctness are the same.
\<close>

definition triple :: "(world \<Rightarrow> bool) \<Rightarrow> 'a km \<Rightarrow> ('a \<Rightarrow> world \<Rightarrow> bool) \<Rightarrow> bool" where
  "triple P c Q \<longleftrightarrow> (\<forall>w. P w \<longrightarrow> (case run_state c w of (x, w') \<Rightarrow> Q x w'))"

lemma tripleI: "(\<And>w x w'. P w \<Longrightarrow> run_state c w = (x, w') \<Longrightarrow> Q x w') \<Longrightarrow> triple P c Q"
  by (auto simp: triple_def split: prod.split)

lemma tripleD: "triple P c Q \<Longrightarrow> P w \<Longrightarrow> Q (fst (run_state c w)) (snd (run_state c w))"
  by (force simp: triple_def split: prod.splits)

lemma triple_bind: "triple P c R \<Longrightarrow> (\<And>x. triple (R x) (f x) Q) \<Longrightarrow> triple P (State_Monad.bind c f) Q"
  by (force simp: triple_def State_Monad.bind_def split: prod.splits)

lemma triple_ret: "(\<And>w. P w \<Longrightarrow> Q x w) \<Longrightarrow> triple P (ret x) Q"
  by (simp add: triple_def)

lemma triple_asks: "(\<And>w. P w \<Longrightarrow> Q (f w) w) \<Longrightarrow> triple P (asks f) Q"
  by (simp add: triple_def)

lemma triple_modify: "(\<And>w. P w \<Longrightarrow> Q () (f w)) \<Longrightarrow> triple P (modify f) Q"
  by (simp add: triple_def)

lemma triple_if: "(b \<Longrightarrow> triple P c Q) \<Longrightarrow> (\<not> b \<Longrightarrow> triple P d Q) \<Longrightarrow> triple P (if b then c else d) Q"
  by simp

lemma triple_conseq: "triple P' c Q' \<Longrightarrow> (\<And>w. P w \<Longrightarrow> P' w) \<Longrightarrow> (\<And>x w. Q' x w \<Longrightarrow> Q x w) \<Longrightarrow> triple P c Q"
  by (fastforce simp: triple_def split: prod.splits)

text \<open>Updates of one structure in its store.\<close>

definition upd_vnode :: "vp \<Rightarrow> (vnode \<Rightarrow> vnode) \<Rightarrow> world \<Rightarrow> world" where
  "upd_vnode v f w = w\<lparr>vnodes := (vnodes w)(v := f (vnodes w v))\<rparr>"

definition upd_node :: "np \<Rightarrow> (tpt_node \<Rightarrow> tpt_node) \<Rightarrow> world \<Rightarrow> world" where
  "upd_node x f w = w\<lparr>nodes := (nodes w)(x := f (nodes w x))\<rparr>"

definition upd_mount :: "mp \<Rightarrow> (mount \<Rightarrow> mount) \<Rightarrow> world \<Rightarrow> world" where
  "upd_mount p f w = w\<lparr>mounts := (mounts w)(p := f (mounts w p))\<rparr>"

definition upd_mntdata :: "nat \<Rightarrow> (tpt_mount \<Rightarrow> tpt_mount) \<Rightarrow> world \<Rightarrow> world" where
  "upd_mntdata p f w = w\<lparr>mntdatas := (mntdatas w)(p := f (mntdatas w p))\<rparr>"

lemma upd_vnode_sel [simp]:
  "vnodes (upd_vnode v f w) x = (if x = v then f (vnodes w v) else vnodes w x)"
  "nodes (upd_vnode v f w) = nodes w" "mounts (upd_vnode v f w) = mounts w" "mntdatas (upd_vnode v f w) = mntdatas w"
  "sbs (upd_vnode v f w) = sbs w" "tpt_node_hashtbl (upd_vnode v f w) = tpt_node_hashtbl w"
  "tpt_hash_mask (upd_vnode v f w) = tpt_hash_mask w" "held_nodes (upd_vnode v f w) = held_nodes w" "held_vnodes (upd_vnode v f w) = held_vnodes w"
  by (simp_all add: upd_vnode_def)

lemma upd_node_sel [simp]:
  "nodes (upd_node v f w) x = (if x = v then f (nodes w v) else nodes w x)"
  "vnodes (upd_node v f w) = vnodes w" "mounts (upd_node v f w) = mounts w" "mntdatas (upd_node v f w) = mntdatas w"
  "sbs (upd_node v f w) = sbs w" "tpt_node_hashtbl (upd_node v f w) = tpt_node_hashtbl w"
  "tpt_hash_mask (upd_node v f w) = tpt_hash_mask w" "held_nodes (upd_node v f w) = held_nodes w" "held_vnodes (upd_node v f w) = held_vnodes w"
  by (simp_all add: upd_node_def)

lemma upd_mntdata_sel [simp]:
  "mntdatas (upd_mntdata v f w) x = (if x = v then f (mntdatas w v) else mntdatas w x)"
  "vnodes (upd_mntdata v f w) = vnodes w" "nodes (upd_mntdata v f w) = nodes w" "mounts (upd_mntdata v f w) = mounts w"
  "sbs (upd_mntdata v f w) = sbs w" "tpt_node_hashtbl (upd_mntdata v f w) = tpt_node_hashtbl w"
  "tpt_hash_mask (upd_mntdata v f w) = tpt_hash_mask w" "held_nodes (upd_mntdata v f w) = held_nodes w" "held_vnodes (upd_mntdata v f w) = held_vnodes w"
  by (simp_all add: upd_mntdata_def)

lemma upd_mount_sel [simp]:
  "mounts (upd_mount v f w) x = (if x = v then f (mounts w v) else mounts w x)"
  "vnodes (upd_mount v f w) = vnodes w" "nodes (upd_mount v f w) = nodes w" "mntdatas (upd_mount v f w) = mntdatas w"
  "sbs (upd_mount v f w) = sbs w" "tpt_node_hashtbl (upd_mount v f w) = tpt_node_hashtbl w"
  "tpt_hash_mask (upd_mount v f w) = tpt_hash_mask w" "held_nodes (upd_mount v f w) = held_nodes w" "held_vnodes (upd_mount v f w) = held_vnodes w"
  by (simp_all add: upd_mount_def)

text \<open>The macros of \<open>tpt.h\<close>.\<close>

definition VTONULL :: "world \<Rightarrow> vp \<Rightarrow> np" where
  "VTONULL w v = v_data (vnodes w v)"

definition NULLTOV :: "world \<Rightarrow> np \<Rightarrow> vp" where
  "NULLTOV w x = tpt_vnode (nodes w x)"

definition NULLVPTOLOWERVP :: "world \<Rightarrow> vp \<Rightarrow> vp" where
  "NULLVPTOLOWERVP w v = tpt_lowervp (nodes w (VTONULL w v))"

definition MOUNTTONULLMOUNT :: "world \<Rightarrow> mp \<Rightarrow> nat" where
  "MOUNTTONULLMOUNT w p = mnt_data (mounts w p)"

text \<open>What \<open>NULLVPTOLOWERVP\<close> is with \<open>DIAGNOSTIC\<close>; \<open>None\<close> is a panic.\<close>

definition tpt_checkvp :: "world \<Rightarrow> vp \<Rightarrow> vp option" where
  "tpt_checkvp w v = (let a = VTONULL w v in
     if tpt_lowervp (nodes w a) = NULLVP then None
     else if v_usecount (vnodes w (tpt_lowervp (nodes w a))) < 1 then None
     else Some (tpt_lowervp (nodes w a)))"

lemma tpt_checkvp_lower: "tpt_checkvp w v = Some l \<Longrightarrow> NULLVPTOLOWERVP w v = l \<and> l \<noteq> NULLVP \<and> 0 < v_usecount (vnodes w l)"
  by (auto simp: tpt_checkvp_def NULLVPTOLOWERVP_def Let_def split: if_splits)

definition VN_IS_DOOMED :: "world \<Rightarrow> vp \<Rightarrow> bool" where
  "VN_IS_DOOMED w v \<longleftrightarrow> v_irflag (vnodes w v) AND VIRF_DOOMED \<noteq> 0"

section \<open>The kernel\<close>

text \<open>
  The functions of the kernel and of the file system below that the sources call.  An
  \<open>out\<close> parameter is part of the result; \<open>VOP_ISLOCKED\<close> returns the lock type or 0.
\<close>

record kernel =
  vfs_hash_index :: "vp \<Rightarrow> u32"
  hashinit :: "u32 km"
  hashdestroy :: "unit km"
  vref :: "vp \<Rightarrow> unit km"
  vrele :: "vp \<Rightarrow> unit km"
  vput :: "vp \<Rightarrow> unit km"
  vunref :: "vp \<Rightarrow> unit km"
  vhold :: "vp \<Rightarrow> unit km"
  vholdnz :: "vp \<Rightarrow> unit km"
  vdrop :: "vp \<Rightarrow> unit km"
  vgone :: "vp \<Rightarrow> unit km"
  vrecycle :: "vp \<Rightarrow> unit km"
  vget :: "vp \<Rightarrow> u32 \<Rightarrow> errno km"
  lockmgr_exclusive :: "vp \<Rightarrow> unit km"
  VOP_ISLOCKED :: "vp \<Rightarrow> u32 km"
  VOP_LOCK :: "vp \<Rightarrow> u32 \<Rightarrow> errno km"
  VOP_UNLOCK :: "vp \<Rightarrow> errno km"
  vop_stdlock :: "vp \<Rightarrow> u32 \<Rightarrow> errno km"
  vop_stdunlock :: "vp \<Rightarrow> errno km"
  vn_lock :: "vp \<Rightarrow> u32 \<Rightarrow> errno km"
  malloc_node :: "np km"
  free_node :: "np \<Rightarrow> unit km"
  getnewvnode :: "mp \<Rightarrow> vop_vector \<Rightarrow> (errno \<times> vp) km"
  insmntque1 :: "vp \<Rightarrow> mp \<Rightarrow> unit km \<Rightarrow> errno km"
  VCALL :: "vop_args \<Rightarrow> (errno \<times> vop_args) km"
  bypass_unmapped :: "vop_args \<Rightarrow> (errno \<times> vop_args) km"
  VOP_ADD_WRITECOUNT :: "vp \<Rightarrow> int \<Rightarrow> errno km"
  VOP_LOOKUP :: "vp \<Rightarrow> componentname \<Rightarrow> (errno \<times> vp \<times> componentname) km"
  VOP_GETWRITEMOUNT :: "vp \<Rightarrow> mp \<Rightarrow> mp km"
  VOP_VPTOFH :: "vp \<Rightarrow> nat \<Rightarrow> errno km"
  vn_vptocnp :: "vp \<Rightarrow> string \<Rightarrow> nat \<Rightarrow> (errno \<times> vp \<times> string \<times> nat) km"
  vfs_ref :: "mp \<Rightarrow> unit km"
  vfs_rel :: "mp \<Rightarrow> unit km"
  VOP_READ_PGCACHE :: "vp \<Rightarrow> nat \<Rightarrow> u32 \<Rightarrow> nat \<Rightarrow> errno km"
  VOP_VPUT_PAIR :: "vp \<Rightarrow> vp \<Rightarrow> bool \<Rightarrow> (errno \<times> vp) km"
  vfs_getopt_from :: "mp \<Rightarrow> (errno \<times> string option \<times> nat) km"
  namei :: "string \<Rightarrow> (errno \<times> vp) km"
  NDFREE :: "unit km"
  vn_isdisk_error :: "vp \<Rightarrow> (bool \<times> errno) km"
  vfs_mountedfrom :: "mp \<Rightarrow> string \<Rightarrow> unit km"
  vfs_flagopt_ro :: "mp \<Rightarrow> bool km"
  g_vfs_open :: "vp \<Rightarrow> bool \<Rightarrow> (errno \<times> nat) km"
  g_vfs_close :: "nat \<Rightarrow> unit km"
  g_vfs_bufops :: nat
  bread :: "vp \<Rightarrow> nat \<Rightarrow> nat \<Rightarrow> (errno \<times> nat) km"
  brelse :: "nat \<Rightarrow> unit km"
  malloc_mount :: "nat km"
  malloc_fs :: "nat km"
  free_mount :: "nat \<Rightarrow> unit km"
  vflush :: "mp \<Rightarrow> u32 \<Rightarrow> errno km"
  msleep_uppers :: "mp \<Rightarrow> unit km"
  VFS_QUOTACTL :: "mp \<Rightarrow> int \<Rightarrow> u32 \<Rightarrow> nat \<Rightarrow> errno km"
  VFS_STATFS :: "mp \<Rightarrow> statfs \<Rightarrow> (errno \<times> statfs) km"
  VFS_VGET :: "mp \<Rightarrow> u64 \<Rightarrow> u32 \<Rightarrow> (errno \<times> vp) km"
  VFS_FHTOVP :: "mp \<Rightarrow> nat \<Rightarrow> u32 \<Rightarrow> (errno \<times> vp) km"
  VFS_EXTATTRCTL :: "mp \<Rightarrow> int \<Rightarrow> vp \<Rightarrow> int \<Rightarrow> string \<Rightarrow> errno km"

section \<open>Ownership\<close>

definition hold_node :: "np \<Rightarrow> world \<Rightarrow> world" where
  "hold_node x w = w\<lparr>held_nodes := insert x (held_nodes w)\<rparr>"

definition hold_vnode :: "vp \<Rightarrow> world \<Rightarrow> world" where
  "hold_vnode v w = w\<lparr>held_vnodes := insert v (held_vnodes w)\<rparr>"

lemma hold_node_sel [simp]:
  "vnodes (hold_node x w) = vnodes w" "nodes (hold_node x w) = nodes w" "mounts (hold_node x w) = mounts w"
  "mntdatas (hold_node x w) = mntdatas w" "sbs (hold_node x w) = sbs w" "tpt_node_hashtbl (hold_node x w) = tpt_node_hashtbl w"
  "tpt_hash_mask (hold_node x w) = tpt_hash_mask w" "held_nodes (hold_node x w) = insert x (held_nodes w)" "held_vnodes (hold_node x w) = held_vnodes w"
  by (simp_all add: hold_node_def)

lemma hold_vnode_sel [simp]:
  "vnodes (hold_vnode v w) = vnodes w" "nodes (hold_vnode v w) = nodes w" "mounts (hold_vnode v w) = mounts w"
  "mntdatas (hold_vnode v w) = mntdatas w" "sbs (hold_vnode v w) = sbs w" "tpt_node_hashtbl (hold_vnode v w) = tpt_node_hashtbl w"
  "tpt_hash_mask (hold_vnode v w) = tpt_hash_mask w" "held_nodes (hold_vnode v w) = held_nodes w" "held_vnodes (hold_vnode v w) = insert v (held_vnodes w)"
  by (simp_all add: hold_vnode_def)

section \<open>Reference counts\<close>

definition add_use :: "vp \<Rightarrow> int \<Rightarrow> world \<Rightarrow> world" where
  "add_use v n w = upd_vnode v (\<lambda>x. x\<lparr>v_usecount := v_usecount x + n\<rparr>) w"

lemma add_use_sel [simp]:
  "vnodes (add_use v n w) x = (if x = v then (vnodes w v)\<lparr>v_usecount := v_usecount (vnodes w v) + n\<rparr> else vnodes w x)"
  "nodes (add_use v n w) = nodes w" "mounts (add_use v n w) = mounts w" "mntdatas (add_use v n w) = mntdatas w"
  "sbs (add_use v n w) = sbs w" "tpt_node_hashtbl (add_use v n w) = tpt_node_hashtbl w"
  "tpt_hash_mask (add_use v n w) = tpt_hash_mask w" "held_nodes (add_use v n w) = held_nodes w" "held_vnodes (add_use v n w) = held_vnodes w"
  by (simp_all add: add_use_def)

text \<open>\<open>vref(9)\<close> adds a use reference; \<open>vrele(9)\<close> takes one away, and does nothing else as long as
  it is not the last one.\<close>

definition vref_counts :: "kernel \<Rightarrow> bool" where
  "vref_counts k \<longleftrightarrow> (\<forall>v w. run_state (vref k v) w = ((), add_use v 1 w))"

definition vrele_counts :: "kernel \<Rightarrow> bool" where
  "vrele_counts k \<longleftrightarrow> (\<forall>v w. 1 < v_usecount (vnodes w v) \<longrightarrow> run_state (vrele k v) w = ((), add_use v (- 1) w))"

lemma vref_run: "vref_counts k \<Longrightarrow> run_state (vref k v) w = ((), add_use v 1 w)"
  by (simp add: vref_counts_def)

lemma vrele_run:
  "vrele_counts k \<Longrightarrow> 1 < v_usecount (vnodes w v) \<Longrightarrow> run_state (vrele k v) w = ((), add_use v (- 1) w)"
  by (simp add: vrele_counts_def)

end
