(* ===== verification/Tpt_Node.thy ===== *)
theory Tpt_Node
  imports Tpt_Kernel
begin

text \<open>
  \<open>tptfs/tpt_subr.c\<close>: the cache of alias vnodes.  The hash table maps a pair of a mount point
  and a lower vnode to the layer's node for it; the locale \<open>alias_table\<close> states what its
  users rely on, and the three operations of the source interpret it.
\<close>

section \<open>Definitions\<close>

definition NULL_NHASH :: "kernel \<Rightarrow> world \<Rightarrow> vp \<Rightarrow> nat" where
  "NULL_NHASH k w v = unat (vfs_hash_index k v AND tpt_hash_mask w)"

definition tptfs_init :: "kernel \<Rightarrow> errno km" where
  "tptfs_init k = do {
     mask \<leftarrow> hashinit k;
     modify (\<lambda>w. w\<lparr>tpt_node_hashtbl := (\<lambda>_. []), tpt_hash_mask := mask\<rparr>);
     ret 0 }"

definition tptfs_uninit :: "kernel \<Rightarrow> errno km" where
  "tptfs_uninit k = do { hashdestroy k; ret 0 }"

text \<open>The loop over a hash chain that both lookups share.\<close>

primrec hash_chain_find :: "world \<Rightarrow> mp \<Rightarrow> vp \<Rightarrow> np list \<Rightarrow> np option" where
  "hash_chain_find w p lowervp [] = None"
| "hash_chain_find w p lowervp (a # as) =
     (if tpt_lowervp (nodes w a) = lowervp \<and> v_mount (vnodes w (NULLTOV w a)) = p then Some a
      else hash_chain_find w p lowervp as)"

definition hash_find :: "kernel \<Rightarrow> world \<Rightarrow> mp \<Rightarrow> vp \<Rightarrow> np option" where
  "hash_find k w p lowervp = hash_chain_find w p lowervp (tpt_node_hashtbl w (NULL_NHASH k w lowervp))"

definition tpt_hashget :: "kernel \<Rightarrow> mp \<Rightarrow> vp \<Rightarrow> vp km" where
  "tpt_hashget k p lowervp = do {
     found \<leftarrow> asks (\<lambda>w. hash_find k w p lowervp);
     (case found of
        None \<Rightarrow> ret NULLVP
      | Some a \<Rightarrow> do {
          v \<leftarrow> asks (\<lambda>w. NULLTOV w a);
          vref k v;
          ret v }) }"

definition hash_insert :: "kernel \<Rightarrow> np \<Rightarrow> world \<Rightarrow> world" where
  "hash_insert k xp w = (let b = NULL_NHASH k w (tpt_lowervp (nodes w xp)) in
     w\<lparr>tpt_node_hashtbl := (tpt_node_hashtbl w)(b := xp # tpt_node_hashtbl w b)\<rparr>)"

definition tpt_hashins :: "kernel \<Rightarrow> mp \<Rightarrow> np \<Rightarrow> vp km" where
  "tpt_hashins k p xp = do {
     found \<leftarrow> asks (\<lambda>w. hash_find k w p (tpt_lowervp (nodes w xp)));
     (case found of
        Some oxp \<Rightarrow> do {
          ovp \<leftarrow> asks (\<lambda>w. NULLTOV w oxp);
          vref k ovp;
          ret ovp }
      | None \<Rightarrow> do {
          modify (hash_insert k xp);
          ret NULLVP }) }"

definition hash_remove :: "np \<Rightarrow> world \<Rightarrow> world" where
  "hash_remove xp w = w\<lparr>tpt_node_hashtbl := (\<lambda>b. remove1 xp (tpt_node_hashtbl w b))\<rparr>"

definition tpt_hashrem :: "np \<Rightarrow> unit km" where
  "tpt_hashrem xp = modify (hash_remove xp)"

definition tpt_destroy_proto :: "kernel \<Rightarrow> vp \<Rightarrow> np \<Rightarrow> unit km" where
  "tpt_destroy_proto k v xp = do {
     lockmgr_exclusive k v;
     modify (upd_vnode v (\<lambda>n. n\<lparr>v_data := 0, v_vnlock := v, v_op := dead_vnodeops\<rparr>));
     vgone k v;
     vput k v;
     free_node k xp }"

definition tpt_insmntque_dtr :: "kernel \<Rightarrow> vp \<Rightarrow> np \<Rightarrow> unit km" where
  "tpt_insmntque_dtr k v xp = do {
     lowervp \<leftarrow> asks (\<lambda>w. tpt_lowervp (nodes w xp));
     vput k lowervp;
     tpt_destroy_proto k v xp }"

definition nodeget_upgrade :: "kernel \<Rightarrow> vp \<Rightarrow> bool km" where
  "nodeget_upgrade k lowervp = do {
     st \<leftarrow> VOP_ISLOCKED k lowervp;
     if st \<noteq> LK_EXCLUSIVE then do {
       vn_lock k lowervp (LK_UPGRADE OR LK_RETRY);
       doomed \<leftarrow> asks (\<lambda>w. VN_IS_DOOMED w lowervp);
       if doomed then do { vput k lowervp; ret False } else ret True }
     else ret True }"

definition nodeget_fill :: "vp \<Rightarrow> np \<Rightarrow> vp \<Rightarrow> world \<Rightarrow> world" where
  "nodeget_fill v xp lowervp w =
     (let w = upd_node xp (\<lambda>x. x\<lparr>tpt_vnode := v, tpt_lowervp := lowervp, tpt_flags := 0\<rparr>) w in
      upd_vnode v (\<lambda>n. n\<lparr>v_type := v_type (vnodes w lowervp), v_data := xp, v_vnlock := v_vnlock (vnodes w lowervp)\<rparr>) w)"

definition nodeget_flags :: "mp \<Rightarrow> vp \<Rightarrow> vp \<Rightarrow> world \<Rightarrow> world" where
  "nodeget_flags p v lowervp w0 =
     (let w = (if lowervp = nullm_lowerrootvp (mntdatas w0 (MOUNTTONULLMOUNT w0 p))
               then upd_vnode v (\<lambda>n. n\<lparr>v_vflag := v_vflag n OR VV_ROOT\<rparr>) w0 else w0) in
      if v_irflag (vnodes w lowervp) AND VIRF_PGREAD \<noteq> 0 \<and> v_irflag (vnodes w v) AND VIRF_PGREAD = 0
      then upd_vnode v (\<lambda>n. n\<lparr>v_object := (if v_object n = 0 then v_object (vnodes w lowervp) else v_object n),
             v_irflag := v_irflag n OR VIRF_PGREAD\<rparr>) w
      else w)"

text \<open>
  The result is the error and what \<open>*vpp\<close> holds at the return.  The function in three parts:
  the new vnode is entered in the table, unless another thread was faster; it is made; an
  existing one is looked up first.
\<close>

definition nodeget_enter :: "kernel \<Rightarrow> mp \<Rightarrow> vp \<Rightarrow> np \<Rightarrow> vp \<Rightarrow> (errno \<times> vp) km" where
  "nodeget_enter k p lowervp xp v = do {
     modify (nodeget_flags p v lowervp);
     ovp \<leftarrow> tpt_hashins k p xp;
     if ovp \<noteq> NULLVP then do {
       vrele k lowervp;
       modify (upd_vnode v (\<lambda>n. n\<lparr>v_object := 0\<rparr>));
       tpt_destroy_proto k v xp;
       ret (0, ovp) }
     else ret (0, v) }"

definition nodeget_make :: "kernel \<Rightarrow> mp \<Rightarrow> vp \<Rightarrow> np \<Rightarrow> (errno \<times> vp) \<Rightarrow> (errno \<times> vp) km" where
  "nodeget_make k p lowervp xp r = (case r of (error, v) \<Rightarrow>
     if error \<noteq> 0 then do { vput k lowervp; free_node k xp; ret (error, NULLVP) }
     else do {
       modify (nodeget_fill v xp lowervp);
       error \<leftarrow> insmntque1 k v p (tpt_insmntque_dtr k v xp);
       if error \<noteq> 0 then ret (error, NULLVP) else nodeget_enter k p lowervp xp v })"

definition tpt_nodeget :: "kernel \<Rightarrow> mp \<Rightarrow> vp \<Rightarrow> (errno \<times> vp) km" where
  "tpt_nodeget k p lowervp = do {
     ovp \<leftarrow> tpt_hashget k p lowervp;
     if ovp \<noteq> NULLVP then do { vrele k lowervp; ret (0, ovp) }
     else do {
       go \<leftarrow> nodeget_upgrade k lowervp;
       if \<not> go then ret (ENOENT, NULLVP)
       else do {
         xp \<leftarrow> malloc_node k;
         r \<leftarrow> getnewvnode k p tpt_vnodeops;
         nodeget_make k p lowervp xp r } } }"

section \<open>The contract of the alias table\<close>

locale alias_table =
  fixes find :: "'s \<Rightarrow> 'q \<Rightarrow> 'n option"
    and ins :: "'n \<Rightarrow> 's \<Rightarrow> 's"
    and rem :: "'n \<Rightarrow> 's \<Rightarrow> 's"
    and key :: "'s \<Rightarrow> 'n \<Rightarrow> 'q"
    and members :: "'s \<Rightarrow> 'n set"
    and ok :: "'s \<Rightarrow> bool"
  assumes find_iff: "ok s \<Longrightarrow> find s q = Some a \<longleftrightarrow> a \<in> members s \<and> key s a = q"
    and ins_law: "ok s \<Longrightarrow> find s (key s a) = None \<Longrightarrow>
      ok (ins a s) \<and> members (ins a s) = insert a (members s) \<and> key (ins a s) = key s"
    and rem_law: "ok s \<Longrightarrow> ok (rem a s) \<and> members (rem a s) = members s - {a} \<and> key (rem a s) = key s"
begin

lemma member_unique: "ok s \<Longrightarrow> a \<in> members s \<Longrightarrow> b \<in> members s \<Longrightarrow> key s a = key s b \<Longrightarrow> a = b"
  using find_iff [of s "key s a" a] find_iff [of s "key s a" b] by simp

lemma find_ins:
  assumes "ok s" "find s (key s a) = None"
  shows "find (ins a s) q = (if q = key s a then Some a else find s q)"
proof (rule option_eqI)
  fix b
  have l: "ok (ins a s)" "members (ins a s) = insert a (members s)" "key (ins a s) = key s"
    using ins_law [OF assms] by blast+
  have none: "\<not> (b \<in> members s \<and> key s b = key s a)" using find_iff [OF assms(1), of "key s a" b] assms(2) by simp
  show "find (ins a s) q = Some b \<longleftrightarrow> (if q = key s a then Some a else find s q) = Some b"
    unfolding find_iff [OF l(1)] l(2,3) using none find_iff [OF assms(1), of q b] by (cases "q = key s a") auto
qed

lemma find_rem:
  assumes "ok s" "a \<in> members s"
  shows "find (rem a s) q = (if q = key s a then None else find s q)"
proof (rule option_eqI)
  fix b
  have l: "ok (rem a s)" "members (rem a s) = members s - {a}" "key (rem a s) = key s"
    using rem_law [OF assms(1)] by blast+
  show "find (rem a s) q = Some b \<longleftrightarrow> (if q = key s a then None else find s q) = Some b"
    unfolding find_iff [OF l(1)] l(2,3) using member_unique [OF assms, of b] find_iff [OF assms(1), of q b]
    by (cases "q = key s a") auto
qed

lemma rem_ins:
  assumes "ok s" "find s (key s a) = None"
  shows "find (rem a (ins a s)) q = find s q"
proof -
  have l: "ok (ins a s)" "a \<in> members (ins a s)" "key (ins a s) = key s" using ins_law [OF assms] by blast+
  show ?thesis unfolding find_rem [OF l(1,2)] l(3) find_ins [OF assms] using assms(2) by simp
qed

end

definition alias_key :: "world \<Rightarrow> np \<Rightarrow> mp \<times> vp" where
  "alias_key w a = (v_mount (vnodes w (NULLTOV w a)), tpt_lowervp (nodes w a))"

definition hashed :: "world \<Rightarrow> np set" where
  "hashed w = (\<Union>b. set (tpt_node_hashtbl w b))"

definition hash_ok :: "kernel \<Rightarrow> world \<Rightarrow> bool" where
  "hash_ok k w \<longleftrightarrow> (\<forall>b. distinct (tpt_node_hashtbl w b))
     \<and> (\<forall>b. \<forall>a\<in>set (tpt_node_hashtbl w b). NULL_NHASH k w (tpt_lowervp (nodes w a)) = b) \<and> inj_on (alias_key w) (hashed w)"

lemma chain_find_None: "hash_chain_find w p l as = None \<longleftrightarrow> (\<forall>a\<in>set as. alias_key w a \<noteq> (p, l))"
  by (induction as) (auto simp: alias_key_def)

lemma chain_find_Some: "hash_chain_find w p l as = Some a \<Longrightarrow> a \<in> set as \<and> alias_key w a = (p, l)"
  by (induction as) (auto simp: alias_key_def split: if_splits)

lemma hash_find_iff:
  assumes "hash_ok k w"
  shows "hash_find k w p l = Some a \<longleftrightarrow> a \<in> hashed w \<and> alias_key w a = (p, l)"
proof
  assume "hash_find k w p l = Some a"
  then show "a \<in> hashed w \<and> alias_key w a = (p, l)"
    unfolding hash_find_def by (drule_tac chain_find_Some) (auto simp: hashed_def)
next
  assume a: "a \<in> hashed w \<and> alias_key w a = (p, l)"
  then obtain b where b: "a \<in> set (tpt_node_hashtbl w b)" by (auto simp: hashed_def)
  have "b = NULL_NHASH k w l" using assms a b by (auto simp: hash_ok_def alias_key_def)
  with b a obtain c where c: "hash_find k w p l = Some c"
    unfolding hash_find_def by (metis chain_find_None not_Some_eq)
  then have "c \<in> hashed w" "alias_key w c = (p, l)"
    unfolding hash_find_def using chain_find_Some by (fastforce simp: hashed_def)+
  with a assms have "c = a" unfolding hash_ok_def inj_on_def by metis
  with c show "hash_find k w p l = Some a" by simp
qed

lemma hash_insert_sel [simp]:
  "vnodes (hash_insert k x w) = vnodes w" "nodes (hash_insert k x w) = nodes w" "mounts (hash_insert k x w) = mounts w"
  "held_nodes (hash_insert k x w) = held_nodes w" "held_vnodes (hash_insert k x w) = held_vnodes w"
  "mntdatas (hash_insert k x w) = mntdatas w" "tpt_hash_mask (hash_insert k x w) = tpt_hash_mask w"
  "alias_key (hash_insert k x w) = alias_key w" "hashed (hash_insert k x w) = insert x (hashed w)"
  by (auto simp: hash_insert_def Let_def alias_key_def NULLTOV_def hashed_def fun_eq_iff split: if_splits)

lemma hash_remove_sel [simp]:
  "vnodes (hash_remove x w) = vnodes w" "nodes (hash_remove x w) = nodes w" "mounts (hash_remove x w) = mounts w"
  "held_nodes (hash_remove x w) = held_nodes w" "held_vnodes (hash_remove x w) = held_vnodes w"
  "mntdatas (hash_remove x w) = mntdatas w" "tpt_hash_mask (hash_remove x w) = tpt_hash_mask w"
  "alias_key (hash_remove x w) = alias_key w"
  by (auto simp: hash_remove_def alias_key_def NULLTOV_def fun_eq_iff)

lemma NHASH_table: "NULL_NHASH k (hash_insert k x w) = NULL_NHASH k w" "NULL_NHASH k (hash_remove x w) = NULL_NHASH k w"
  by (simp_all add: NULL_NHASH_def fun_eq_iff)

lemma hash_insert_ok:
  assumes "hash_ok k w" "hash_find k w (fst (alias_key w a)) (snd (alias_key w a)) = None"
  shows "hash_ok k (hash_insert k a w)"
proof -
  have new: "\<forall>b\<in>hashed w. alias_key w b \<noteq> alias_key w a"
    using assms hash_find_iff [OF assms(1), of "fst (alias_key w a)" "snd (alias_key w a)"] by auto
  then have "a \<notin> hashed w" by blast
  then have "\<forall>b. a \<notin> set (tpt_node_hashtbl w b)" by (auto simp: hashed_def)
  moreover have "inj_on (alias_key w) (insert a (hashed w))"
    using assms(1) new by (auto simp: hash_ok_def)
  ultimately show ?thesis
    using assms(1) by (simp add: hash_ok_def NHASH_table) (auto simp: hash_insert_def Let_def)
qed

lemma hash_remove_ok:
  assumes "hash_ok k w"
  shows "hash_ok k (hash_remove a w)" "hashed (hash_remove a w) = hashed w - {a}"
proof -
  show h: "hashed (hash_remove a w) = hashed w - {a}"
    using assms by (auto simp: hash_ok_def hashed_def hash_remove_def set_remove1_eq)
  have "inj_on (alias_key w) (hashed w - {a})" using assms by (auto simp: hash_ok_def inj_on_def)
  then show "hash_ok k (hash_remove a w)"
    using assms h by (simp add: hash_ok_def NHASH_table) (auto simp: hash_remove_def dest: notin_set_remove1)
qed

interpretation at: alias_table "\<lambda>w q. hash_find k w (fst q) (snd q)" "hash_insert k" hash_remove alias_key hashed "hash_ok k" for k
proof unfold_locales
  fix s q a assume ok: "hash_ok k s"
  show "hash_find k s (fst q) (snd q) = Some a \<longleftrightarrow> a \<in> hashed s \<and> alias_key s a = q"
    using hash_find_iff [OF ok, of "fst q" "snd q" a] by simp
  show "hash_ok k (hash_insert k a s) \<and> hashed (hash_insert k a s) = insert a (hashed s) \<and> alias_key (hash_insert k a s) = alias_key s"
    if "hash_find k s (fst (alias_key s a)) (snd (alias_key s a)) = None"
    using hash_insert_ok [OF ok that] by simp
  show "hash_ok k (hash_remove a s) \<and> hashed (hash_remove a s) = hashed s - {a} \<and> alias_key (hash_remove a s) = alias_key s"
    using hash_remove_ok [OF ok] by simp
qed

section \<open>What the operations do\<close>

lemma tpt_hashget_run:
  assumes "vref_counts k"
  shows "run_state (tpt_hashget k p l) w = (case hash_find k w p l of None \<Rightarrow> (NULLVP, w)
    | Some a \<Rightarrow> (NULLTOV w a, add_use (NULLTOV w a) 1 w))"
  using assms by (simp add: tpt_hashget_def vref_run split: option.split)

lemma tpt_hashins_run:
  assumes "vref_counts k"
  shows "run_state (tpt_hashins k p x) w = (case hash_find k w p (tpt_lowervp (nodes w x)) of
      None \<Rightarrow> (NULLVP, hash_insert k x w) | Some a \<Rightarrow> (NULLTOV w a, add_use (NULLTOV w a) 1 w))"
  using assms by (simp add: tpt_hashins_def vref_run split: option.split)

lemma nodeget_hit:
  assumes "vref_counts k" "vrele_counts k" "hash_find k w p l = Some a" "NULLTOV w a \<noteq> NULLVP"
    "1 < v_usecount (vnodes w l)" "NULLTOV w a \<noteq> l"
  shows "run_state (tpt_nodeget k p l) w = ((0, NULLTOV w a), add_use l (- 1) (add_use (NULLTOV w a) 1 w))"
  using assms by (simp add: tpt_nodeget_def tpt_hashget_run vrele_run)

lemma nodeget_fill_sel [simp]:
  "tpt_node_hashtbl (nodeget_fill v x l w) = tpt_node_hashtbl w" "tpt_hash_mask (nodeget_fill v x l w) = tpt_hash_mask w"
  "held_nodes (nodeget_fill v x l w) = held_nodes w" "held_vnodes (nodeget_fill v x l w) = held_vnodes w"
  "mntdatas (nodeget_fill v x l w) = mntdatas w" "mounts (nodeget_fill v x l w) = mounts w"
  "nodes (nodeget_fill v x l w) = (nodes w)(x := (nodes w x)\<lparr>tpt_vnode := v, tpt_lowervp := l, tpt_flags := 0\<rparr>)"
  "u \<noteq> v \<Longrightarrow> vnodes (nodeget_fill v x l w) u = vnodes w u"
  "v_mount (vnodes (nodeget_fill v x l w) u) = v_mount (vnodes w u)"
  by (auto simp: nodeget_fill_def Let_def fun_eq_iff)

lemma nodeget_flags_sel [simp]:
  "tpt_node_hashtbl (nodeget_flags p v l w) = tpt_node_hashtbl w" "tpt_hash_mask (nodeget_flags p v l w) = tpt_hash_mask w"
  "held_nodes (nodeget_flags p v l w) = held_nodes w" "held_vnodes (nodeget_flags p v l w) = held_vnodes w"
  "mntdatas (nodeget_flags p v l w) = mntdatas w" "mounts (nodeget_flags p v l w) = mounts w"
  "nodes (nodeget_flags p v l w) = nodes w" "u \<noteq> v \<Longrightarrow> vnodes (nodeget_flags p v l w) u = vnodes w u"
  "v_mount (vnodes (nodeget_flags p v l w) u) = v_mount (vnodes w u)"
  "v_data (vnodes (nodeget_flags p v l w) u) = v_data (vnodes w u)"
  "v_vnlock (vnodes (nodeget_flags p v l w) u) = v_vnlock (vnodes w u)"
  "v_type (vnodes (nodeget_flags p v l w) u) = v_type (vnodes w u)"
  "v_op (vnodes (nodeget_flags p v l w) u) = v_op (vnodes w u)"
  "v_usecount (vnodes (nodeget_flags p v l w) u) = v_usecount (vnodes w u)"
  by (simp_all add: nodeget_flags_def Let_def)

section \<open>The table stays well formed\<close>

text \<open>Well-formedness depends on the nodes in the table and the mount points of their vnodes only.\<close>

lemma hash_ok_cong:
  assumes "tpt_node_hashtbl w' = tpt_node_hashtbl w" "tpt_hash_mask w' = tpt_hash_mask w"
    "\<And>a. a \<in> hashed w \<Longrightarrow> nodes w' a = nodes w a"
    "\<And>a. a \<in> hashed w \<Longrightarrow> v_mount (vnodes w' (NULLTOV w a)) = v_mount (vnodes w (NULLTOV w a))"
  shows "hash_ok k w' = hash_ok k w" "hashed w' = hashed w"
proof -
  show h: "hashed w' = hashed w" by (simp add: hashed_def assms(1))
  have key: "alias_key w' a = alias_key w a" if "a \<in> hashed w" for a
    using assms(3,4) [OF that] by (simp add: alias_key_def NULLTOV_def)
  have "NULL_NHASH k w' = NULL_NHASH k w" by (simp add: NULL_NHASH_def fun_eq_iff assms(2))
  moreover have "a \<in> set (tpt_node_hashtbl w b) \<Longrightarrow> nodes w' a = nodes w a" for a b
    using assms(3) [of a] by (auto simp: hashed_def)
  moreover have "inj_on (alias_key w') (hashed w) = inj_on (alias_key w) (hashed w)" by (rule inj_on_cong) (rule key)
  ultimately show "hash_ok k w' = hash_ok k w" by (simp add: hash_ok_def h assms(1))
qed

text \<open>The vnode of a node in the table points back to it.\<close>

definition linked :: "world \<Rightarrow> bool" where
  "linked w \<longleftrightarrow> (\<forall>a\<in>hashed w. VTONULL w (NULLTOV w a) = a)"

definition table_ok :: "kernel \<Rightarrow> world \<Rightarrow> bool" where
  "table_ok k w \<longleftrightarrow> hash_ok k w \<and> linked w"

definition table_vnodes :: "world \<Rightarrow> vp set" where
  "table_vnodes w = NULLTOV w ` hashed w"

lemma table_ok_cong:
  assumes "tpt_node_hashtbl w' = tpt_node_hashtbl w" "tpt_hash_mask w' = tpt_hash_mask w"
    "\<And>a. a \<in> hashed w \<Longrightarrow> nodes w' a = nodes w a"
    "\<And>a. a \<in> hashed w \<Longrightarrow> v_mount (vnodes w' (NULLTOV w a)) = v_mount (vnodes w (NULLTOV w a))"
    "\<And>a. a \<in> hashed w \<Longrightarrow> v_data (vnodes w' (NULLTOV w a)) = v_data (vnodes w (NULLTOV w a))"
  shows "table_ok k w' = table_ok k w" "hashed w' = hashed w" "\<And>a. a \<in> hashed w \<Longrightarrow> NULLTOV w' a = NULLTOV w a"
proof -
  show n: "\<And>a. a \<in> hashed w \<Longrightarrow> NULLTOV w' a = NULLTOV w a" using assms(3) by (simp add: NULLTOV_def)
  show h: "hashed w' = hashed w" by (rule hash_ok_cong(2) [OF assms(1-4)])
  have "linked w' = linked w" using n assms(5) by (auto simp: linked_def h VTONULL_def)
  then show "table_ok k w' = table_ok k w" using hash_ok_cong(1) [OF assms(1-4)] by (simp add: table_ok_def)
qed

text \<open>
  The rely condition.  While a kernel function runs it may sleep, and other threads enter and reclaim aliases, of any pair of mount
  point and lower vnode.  They keep the table well formed, and what the running thread has for itself and has not yet entered they do not
  enter, since a thread enters only the node and the vnode that it was given itself.
\<close>

definition own_nodes :: "world \<Rightarrow> np set" where
  "own_nodes w = held_nodes w - hashed w"

definition own_vnodes :: "world \<Rightarrow> vp set" where
  "own_vnodes w = held_vnodes w - table_vnodes w"

definition others :: "kernel \<Rightarrow> world \<Rightarrow> world \<Rightarrow> bool" where
  "others k w w' \<longleftrightarrow> (table_ok k w \<longrightarrow> table_ok k w') \<and> own_nodes w \<subseteq> own_nodes w' \<and> own_vnodes w \<subseteq> own_vnodes w'"

definition leaves_own :: "kernel \<Rightarrow> 'a km \<Rightarrow> bool" where
  "leaves_own k c \<longleftrightarrow> (\<forall>w. table_ok k w \<longrightarrow> others k w (snd (run_state c w)))"

text \<open>A computation that keeps the alias table well formed, whatever it does to what the thread has.\<close>

definition keeps :: "kernel \<Rightarrow> 'a km \<Rightarrow> bool" where
  "keeps k c \<longleftrightarrow> triple (table_ok k) c (\<lambda>_. table_ok k)"

text \<open>
  \<open>malloc\<close> gives the thread a node that is not in the table, \<open>getnewvnode\<close> a vnode that no node in the table has.
  \<open>insmntque1\<close> sets the mount point of a vnode of the thread and leaves the layer's data of the thread alone, or runs the destructor
  it is given last.  A reference may be taken or given back and a lock waited for without the thread losing what it has; \<open>vgone\<close> and \<open>free\<close>
  take it back.
\<close>

definition malloc_law :: "kernel \<Rightarrow> bool" where
  "malloc_law k \<longleftrightarrow> (\<forall>w x w'. table_ok k w \<and> run_state (malloc_node k) w = (x, w') \<longrightarrow> table_ok k w' \<and> x \<in> own_nodes w')"

definition getnewvnode_law :: "kernel \<Rightarrow> bool" where
  "getnewvnode_law k \<longleftrightarrow> (\<forall>p ops. leaves_own k (getnewvnode k p ops))
     \<and> (\<forall>p ops w e v w'. table_ok k w \<and> run_state (getnewvnode k p ops) w = ((e, v), w') \<and> e = 0 \<longrightarrow> v \<in> own_vnodes w')"

definition insmntque1_law :: "kernel \<Rightarrow> bool" where
  "insmntque1_law k \<longleftrightarrow> (\<forall>v p dtr w e w'. table_ok k w \<and> v \<in> own_vnodes w \<and> run_state (insmntque1 k v p dtr) w = (e, w') \<longrightarrow>
     (if e = 0 then others k w w' \<and> v_mount (vnodes w' v) = p \<and> v_data (vnodes w' v) = v_data (vnodes w v)
        \<and> (\<forall>x\<in>own_nodes w. nodes w' x = nodes w x)
      else \<exists>w1. others k w w1 \<and> w' = snd (run_state dtr w1)))"

definition calls_leave_own :: "kernel \<Rightarrow> bool" where
  "calls_leave_own k \<longleftrightarrow> (\<forall>v. leaves_own k (vref k v) \<and> leaves_own k (vrele k v) \<and> leaves_own k (vput k v) \<and> leaves_own k (lockmgr_exclusive k v))
     \<and> (\<forall>v. keeps k (vgone k v) \<and> keeps k (VOP_ISLOCKED k v) \<and> (\<forall>r. keeps k (vn_lock k v r))) \<and> (\<forall>x. keeps k (free_node k x))"

definition nodes_law :: "kernel \<Rightarrow> bool" where
  "nodes_law k \<longleftrightarrow> calls_leave_own k \<and> malloc_law k \<and> getnewvnode_law k \<and> insmntque1_law k"

subsection \<open>Computations that keep the table\<close>

named_theorems keeping \<open>computations that keep the alias table well formed\<close>

lemma keeps_bind [keeping]: "keeps k c \<Longrightarrow> (\<And>x. keeps k (f x)) \<Longrightarrow> keeps k (State_Monad.bind c f)"
  unfolding keeps_def by (rule triple_bind)

lemma keeps_ret [keeping]: "keeps k (ret x)"
  by (simp add: keeps_def triple_ret)

lemma keeps_asks [keeping]: "keeps k (asks f)"
  by (simp add: keeps_def triple_asks)

lemma keeps_if [keeping]: "keeps k c \<Longrightarrow> keeps k d \<Longrightarrow> keeps k (if b then c else d)"
  by simp

lemma keeps_option [keeping]: "keeps k c \<Longrightarrow> (\<And>x. keeps k (f x)) \<Longrightarrow> keeps k (case r of None \<Rightarrow> c | Some x \<Rightarrow> f x)"
  by (cases r) simp_all

lemma leaves_own_keeps: "leaves_own k c \<Longrightarrow> keeps k c"
  unfolding keeps_def by (rule tripleI) (force simp: leaves_own_def others_def)

lemma node_calls:
  assumes "nodes_law k"
  shows "keeps k (vref k v)" "keeps k (vrele k v)" "keeps k (vput k v)" "keeps k (lockmgr_exclusive k v)"
    "keeps k (vgone k v)" "keeps k (VOP_ISLOCKED k v)" "keeps k (vn_lock k v r)" "keeps k (free_node k x)"
    "leaves_own k (vref k v)" "leaves_own k (vrele k v)" "leaves_own k (vput k v)" "leaves_own k (lockmgr_exclusive k v)"
    "leaves_own k (getnewvnode k p ops)" "keeps k (tpt_hashget k q l)" "keeps k (nodeget_upgrade k l)"
proof -
  show kv: "keeps k (vref k v)" "keeps k (vrele k v)" "keeps k (vput k v)" "keeps k (lockmgr_exclusive k v)"
    "keeps k (vgone k v)" "keeps k (VOP_ISLOCKED k v)" "keeps k (vn_lock k v r)" "keeps k (free_node k x)" for v r x
    using assms by (simp_all add: nodes_law_def calls_leave_own_def leaves_own_keeps)
  show "keeps k (tpt_hashget k q l)" unfolding tpt_hashget_def by (intro keeping kv)
  show "keeps k (nodeget_upgrade k l)" unfolding nodeget_upgrade_def by (intro keeping kv)
qed (use assms in \<open>simp_all add: nodes_law_def calls_leave_own_def getnewvnode_law_def\<close>)

subsection \<open>What the thread has\<close>

text \<open>A node and a vnode that the thread has and the table does not, and a node that is filled in.\<close>

definition spare :: "np \<Rightarrow> vp \<Rightarrow> world \<Rightarrow> bool" where
  "spare x v w \<longleftrightarrow> x \<in> own_nodes w \<and> v \<in> own_vnodes w"

definition filled :: "np \<Rightarrow> vp \<Rightarrow> vp \<Rightarrow> world \<Rightarrow> bool" where
  "filled x v l w \<longleftrightarrow> NULLTOV w x = v \<and> tpt_lowervp (nodes w x) = l \<and> VTONULL w v = x"

lemma leaves_own_triple:
  assumes "leaves_own k c"
  shows "triple (\<lambda>w. table_ok k w \<and> x \<in> own_nodes w) c (\<lambda>_ w. table_ok k w \<and> x \<in> own_nodes w)"
    "triple (\<lambda>w. table_ok k w \<and> v \<in> own_vnodes w) c (\<lambda>_ w. table_ok k w \<and> v \<in> own_vnodes w)"
    "triple (\<lambda>w. table_ok k w \<and> spare x v w) c (\<lambda>_ w. table_ok k w \<and> spare x v w)"
  by (rule tripleI; use assms in \<open>force simp: leaves_own_def others_def spare_def\<close>)+

lemma others_refl: "others k w w"
  by (simp add: others_def)

lemma others_trans: "others k w w' \<Longrightarrow> others k w' w'' \<Longrightarrow> others k w w''"
  by (auto simp: others_def)

text \<open>A change of a vnode that is not in the table.\<close>

lemma own_update:
  assumes "v \<in> own_vnodes w"
  shows "table_ok k (upd_vnode v f w) = table_ok k w" "own_nodes (upd_vnode v f w) = own_nodes w" "own_vnodes (upd_vnode v f w) = own_vnodes w"
proof -
  have v: "v \<noteq> NULLTOV w a" if "a \<in> hashed w" for a using assms that by (auto simp: own_vnodes_def table_vnodes_def)
  show "table_ok k (upd_vnode v f w) = table_ok k w" by (rule table_ok_cong) (use v in auto)
  have "hashed (upd_vnode v f w) = hashed w" "NULLTOV (upd_vnode v f w) = NULLTOV w" by (simp_all add: hashed_def NULLTOV_def fun_eq_iff)
  then show "own_nodes (upd_vnode v f w) = own_nodes w" "own_vnodes (upd_vnode v f w) = own_vnodes w"
    by (simp_all add: own_nodes_def own_vnodes_def table_vnodes_def)
qed

lemma own_update_triple:
  "triple (\<lambda>w. table_ok k w \<and> v \<in> own_vnodes w) (modify (upd_vnode v f)) (\<lambda>_ w. table_ok k w \<and> v \<in> own_vnodes w)"
  by (rule triple_modify) (simp add: own_update)

text \<open>A vnode that was not entered is taken apart: from the moment its node is gone nothing of it is needed.\<close>

lemma destroy_triple:
  assumes "nodes_law k"
  shows "triple (\<lambda>w. table_ok k w \<and> v \<in> own_vnodes w) (tpt_destroy_proto k v x) (\<lambda>_. table_ok k)"
proof -
  note n = node_calls [OF assms]
  have "keeps k (do { vgone k v; vput k v; free_node k x })" by (intro keeping n)
  then have rest: "triple (\<lambda>w. table_ok k w \<and> v \<in> own_vnodes w) (do { vgone k v; vput k v; free_node k x }) (\<lambda>_. table_ok k)"
    unfolding keeps_def by (rule triple_conseq) auto
  show ?thesis
    unfolding tpt_destroy_proto_def
    by (rule triple_bind [OF leaves_own_triple(2) [OF n(12)] triple_bind [OF own_update_triple rest]])
qed

lemma dtr_triple:
  assumes "nodes_law k"
  shows "triple (\<lambda>w. table_ok k w \<and> v \<in> own_vnodes w) (tpt_insmntque_dtr k v x) (\<lambda>_. table_ok k)"
  unfolding tpt_insmntque_dtr_def
  by (rule triple_bind [OF triple_asks triple_bind [OF leaves_own_triple(2) [OF node_calls(11) [OF assms]] destroy_triple [OF assms]]])

subsection \<open>\<open>tpt_nodeget\<close> keeps the table\<close>

lemma hashins_triple:
  assumes "nodes_law k"
  shows "triple (\<lambda>w. table_ok k w \<and> spare x v w \<and> alias_key w x = (p, l) \<and> filled x v l w) (tpt_hashins k p x)
    (\<lambda>r w. table_ok k w \<and> (r \<noteq> NULLVP \<longrightarrow> v \<in> own_vnodes w))"
proof (rule tripleI)
  fix w r w' assume w: "table_ok k w \<and> spare x v w \<and> alias_key w x = (p, l) \<and> filled x v l w"
    and r: "run_state (tpt_hashins k p x) w = (r, w')"
  have l: "tpt_lowervp (nodes w x) = l" using w by (simp add: filled_def)
  show "table_ok k w' \<and> (r \<noteq> NULLVP \<longrightarrow> v \<in> own_vnodes w')"
  proof (cases "hash_find k w p l")
    case None
    with r l have w': "w' = hash_insert k x w" "r = NULLVP" by (simp_all add: tpt_hashins_def)
    have "linked w'" using w unfolding w' by (simp add: linked_def table_ok_def filled_def VTONULL_def NULLTOV_def)
    with w None w' show ?thesis using hash_insert_ok [of k w x] by (simp add: table_ok_def)
  next
    case (Some a)
    with r l have "w' = snd (run_state (vref k (NULLTOV w a)) w)"
      by (auto simp: tpt_hashins_def split: prod.splits)
    moreover have "v \<in> own_vnodes w" using w by (simp add: spare_def)
    ultimately show ?thesis using w tripleD [OF leaves_own_triple(2) [OF node_calls(9) [OF assms]]] by blast
  qed
qed

lemma fill_own:
  assumes "spare x v w"
  shows "table_ok k (nodeget_fill v x l w) = table_ok k w" "spare x v (nodeget_fill v x l w)"
    "hashed (nodeget_fill v x l w) = hashed w" "a \<in> hashed w \<Longrightarrow> NULLTOV (nodeget_fill v x l w) a = NULLTOV w a"
    "filled x v l (nodeget_fill v x l w)"
proof -
  let ?w = "nodeget_fill v x l w"
  have s: "x \<notin> hashed w" "\<And>a. a \<in> hashed w \<Longrightarrow> NULLTOV w a \<noteq> v" "x \<in> held_nodes w" "v \<in> held_vnodes w"
    using assms by (auto simp: spare_def own_nodes_def own_vnodes_def table_vnodes_def)
  show c: "table_ok k ?w = table_ok k w" "hashed ?w = hashed w" "a \<in> hashed w \<Longrightarrow> NULLTOV ?w a = NULLTOV w a" for a
    by (rule table_ok_cong; use s in auto)+
  show "spare x v ?w" using s c(2,3) by (auto simp: spare_def own_nodes_def own_vnodes_def table_vnodes_def)
  show "filled x v l ?w" by (simp add: filled_def NULLTOV_def VTONULL_def) (simp add: nodeget_fill_def Let_def)
qed

lemma fill_triple:
  "triple (\<lambda>w. table_ok k w \<and> spare x v w) (modify (nodeget_fill v x l)) (\<lambda>_ w. table_ok k w \<and> spare x v w \<and> filled x v l w)"
  by (rule triple_modify) (simp add: fill_own)

lemma insmntque1_triple:
  assumes "nodes_law k"
  shows "triple (\<lambda>w. table_ok k w \<and> spare x v w \<and> filled x v l w) (insmntque1 k v p (tpt_insmntque_dtr k v x))
    (\<lambda>e w. table_ok k w \<and> (e = 0 \<longrightarrow> spare x v w \<and> alias_key w x = (p, l) \<and> filled x v l w))"
proof (rule tripleI)
  fix w e w' assume w: "table_ok k w \<and> spare x v w \<and> filled x v l w"
    and r: "run_state (insmntque1 k v p (tpt_insmntque_dtr k v x)) w = (e, w')"
  have law: "if e = 0 then others k w w' \<and> v_mount (vnodes w' v) = p \<and> v_data (vnodes w' v) = v_data (vnodes w v) \<and> (\<forall>x\<in>own_nodes w. nodes w' x = nodes w x)
      else \<exists>w1. others k w w1 \<and> w' = snd (run_state (tpt_insmntque_dtr k v x) w1)"
    using assms w r unfolding nodes_law_def insmntque1_law_def spare_def by blast
  show "table_ok k w' \<and> (e = 0 \<longrightarrow> spare x v w' \<and> alias_key w' x = (p, l) \<and> filled x v l w')"
  proof (cases "e = 0")
    case True
    with law w show ?thesis by (auto simp: others_def spare_def alias_key_def filled_def NULLTOV_def VTONULL_def)
  next
    case False
    with law obtain w1 where "others k w w1" "w' = snd (run_state (tpt_insmntque_dtr k v x) w1)" by auto
    moreover from this w have "table_ok k w1 \<and> v \<in> own_vnodes w1" by (auto simp: others_def spare_def)
    ultimately show ?thesis using tripleD [OF dtr_triple [OF assms]] False by blast
  qed
qed

lemma flags_triple:
  fixes k x v l q
  defines "Q \<equiv> \<lambda>w. table_ok k w \<and> spare x v w \<and> alias_key w x = q \<and> filled x v l w"
  shows "triple Q (modify (nodeget_flags p v l)) (\<lambda>_. Q)"
proof (rule triple_modify)
  fix w assume w: "Q w"
  have "table_ok k (nodeget_flags p v l w) = table_ok k w" "hashed (nodeget_flags p v l w) = hashed w" by (rule table_ok_cong; simp)+
  with w show "Q (nodeget_flags p v l w)"
    by (auto simp: Q_def spare_def own_nodes_def own_vnodes_def table_vnodes_def filled_def alias_key_def NULLTOV_def VTONULL_def image_iff)
qed

lemma malloc_triple:
  assumes "nodes_law k"
  shows "triple (table_ok k) (malloc_node k) (\<lambda>x w. table_ok k w \<and> x \<in> own_nodes w)"
  by (rule tripleI) (use assms in \<open>simp add: nodes_law_def malloc_law_def\<close>)

lemma getnewvnode_triple:
  assumes "nodes_law k"
  shows "triple (\<lambda>w. table_ok k w \<and> x \<in> own_nodes w) (getnewvnode k p ops) (\<lambda>r w. table_ok k w \<and> (fst r = 0 \<longrightarrow> spare x (snd r) w))"
proof (rule tripleI)
  fix w r w' assume w: "table_ok k w \<and> x \<in> own_nodes w" and run: "run_state (getnewvnode k p ops) w = (r, w')"
  have "table_ok k w' \<and> x \<in> own_nodes w'"
    using tripleD [OF leaves_own_triple(1) [OF node_calls(13) [OF assms]], of w x] w run by (metis snd_conv)
  moreover have "snd r \<in> own_vnodes w'" if "fst r = 0"
    using assms w run that unfolding nodes_law_def getnewvnode_law_def by (metis prod.collapse)
  ultimately show "table_ok k w' \<and> (fst r = 0 \<longrightarrow> spare x (snd r) w')" by (simp add: spare_def)
qed

lemma nodeget_enter_triple:
  assumes "nodes_law k"
  shows "triple (\<lambda>w. table_ok k w \<and> spare x v w \<and> alias_key w x = (p, l) \<and> filled x v l w) (nodeget_enter k p l x v) (\<lambda>_. table_ok k)"
proof -
  have undo: "triple (\<lambda>w. table_ok k w \<and> v \<in> own_vnodes w)
      (do { vrele k l; modify (upd_vnode v (\<lambda>n. n\<lparr>v_object := 0\<rparr>)); tpt_destroy_proto k v x; ret r }) (\<lambda>_. table_ok k)" for r :: "errno \<times> vp"
    by (rule triple_bind [OF leaves_own_triple(2) [OF node_calls(10) [OF assms]]
          triple_bind [OF own_update_triple triple_bind [OF destroy_triple [OF assms] triple_ret]]])
  have "triple (\<lambda>w. table_ok k w \<and> (ovp \<noteq> NULLVP \<longrightarrow> v \<in> own_vnodes w))
      (if ovp \<noteq> NULLVP then do { vrele k l; modify (upd_vnode v (\<lambda>n. n\<lparr>v_object := 0\<rparr>)); tpt_destroy_proto k v x; ret (0 :: errno, ovp) }
       else ret (0, v)) (\<lambda>_. table_ok k)" for ovp
    using undo [of "(0, ovp)"] by (auto intro: triple_ret)
  then show ?thesis
    unfolding nodeget_enter_def by (intro triple_bind [OF flags_triple] triple_bind [OF hashins_triple [OF assms]])
qed

lemma nodeget_make_triple:
  assumes "nodes_law k"
  shows "triple (\<lambda>w. table_ok k w \<and> (fst r = 0 \<longrightarrow> spare x (snd r) w)) (nodeget_make k p l x r) (\<lambda>_. table_ok k)"
proof (cases "fst r = 0")
  case False
  have "keeps k (do { vput k l; free_node k x; ret (fst r, NULLVP) })" by (intro keeping node_calls [OF assms])
  then show ?thesis using False by (simp add: keeps_def nodeget_make_def case_prod_beta)
next
  case True
  have "triple (\<lambda>w. table_ok k w \<and> (e = 0 \<longrightarrow> spare x v w \<and> alias_key w x = (p, l) \<and> filled x v l w))
      (if e \<noteq> 0 then ret (e, NULLVP) else nodeget_enter k p l x v) (\<lambda>_. table_ok k)" for e v
    using nodeget_enter_triple [OF assms, of x v p l] by (auto intro: triple_ret)
  with True show ?thesis unfolding nodeget_make_def case_prod_beta
    by simp (intro triple_bind [OF fill_triple] triple_bind [OF insmntque1_triple [OF assms]]; simp)
qed

lemma nodeget_keeps:
  assumes "nodes_law k"
  shows "keeps k (tpt_nodeget k p l)"
proof -
  note n = node_calls [OF assms]
  have m: "keeps k (do { x \<leftarrow> malloc_node k; r \<leftarrow> getnewvnode k p tpt_vnodeops; nodeget_make k p l x r })"
    unfolding keeps_def by (rule triple_bind [OF malloc_triple [OF assms] triple_bind [OF getnewvnode_triple [OF assms] nodeget_make_triple [OF assms]]])
  show ?thesis
    unfolding tpt_nodeget_def
    by (intro keeps_bind [OF n(14)] keeps_if keeps_bind [OF n(15)] keeps_bind [OF n(2)] keeps_ret m)
qed

section \<open>A new alias\<close>

lemma hash_find_cong:
  assumes "hash_ok k w" "tpt_node_hashtbl w' = tpt_node_hashtbl w" "tpt_hash_mask w' = tpt_hash_mask w"
    "\<And>a. a \<in> hashed w \<Longrightarrow> nodes w' a = nodes w a"
    "\<And>a. a \<in> hashed w \<Longrightarrow> v_mount (vnodes w' (NULLTOV w a)) = v_mount (vnodes w (NULLTOV w a))"
  shows "hash_find k w' p l = hash_find k w p l"
proof (rule option_eqI)
  fix a
  have c: "hash_ok k w'" "hashed w' = hashed w"
    using hash_ok_cong [OF assms(2-5)] assms(1) by auto
  have "alias_key w' a = alias_key w a" if "a \<in> hashed w"
    using assms(4,5) [OF that] by (simp add: alias_key_def NULLTOV_def)
  then show "hash_find k w' p l = Some a \<longleftrightarrow> hash_find k w p l = Some a"
    unfolding hash_find_iff [OF c(1)] hash_find_iff [OF assms(1)] c(2) by auto
qed

text \<open>
  What the kernel does when a new alias \<open>v\<close> with the node \<open>x\<close> is made for \<open>l\<close>: the lower vnode
  is locked exclusively, the node and the vnode \<open>n\<close> handed out are not in use, and \<open>insmntque1\<close>
  enters the vnode in the list of the mount point.
\<close>

definition mnt_list_insert :: "vp \<Rightarrow> mp \<Rightarrow> world \<Rightarrow> world" where
  "mnt_list_insert v p w = upd_mount p (\<lambda>m. m\<lparr>mnt_nvnodelistsize := mnt_nvnodelistsize m + 1\<rparr>) (upd_vnode v (\<lambda>n. n\<lparr>v_mount := p\<rparr>) w)"

lemma mnt_list_insert_sel [simp]:
  "vnodes (mnt_list_insert v p w) u = (if u = v then (vnodes w v)\<lparr>v_mount := p\<rparr> else vnodes w u)"
  "nodes (mnt_list_insert v p w) = nodes w" "mntdatas (mnt_list_insert v p w) = mntdatas w"
  "MOUNTTONULLMOUNT (mnt_list_insert v p w) q = MOUNTTONULLMOUNT w q"
  "tpt_node_hashtbl (mnt_list_insert v p w) = tpt_node_hashtbl w" "tpt_hash_mask (mnt_list_insert v p w) = tpt_hash_mask w"
  "held_nodes (mnt_list_insert v p w) = held_nodes w" "held_vnodes (mnt_list_insert v p w) = held_vnodes w"
  by (simp_all add: mnt_list_insert_def MOUNTTONULLMOUNT_def)

definition makes_alias :: "kernel \<Rightarrow> world \<Rightarrow> mp \<Rightarrow> vp \<Rightarrow> np \<Rightarrow> vp \<Rightarrow> vnode \<Rightarrow> bool" where
  "makes_alias k w p l x v n \<longleftrightarrow> run_state (VOP_ISLOCKED k l) w = (LK_EXCLUSIVE, w) \<and> run_state (malloc_node k) w = (x, hold_node x w)
     \<and> run_state (getnewvnode k p tpt_vnodeops) (hold_node x w) = ((0, v), hold_vnode v (upd_vnode v (\<lambda>_. n) (hold_node x w)))
     \<and> (\<forall>dtr w'. NULLTOV w' ` hashed w' = NULLTOV w ` hashed w \<longrightarrow>
          run_state (insmntque1 k v p dtr) w' = (0, mnt_list_insert v p w'))
     \<and> x \<notin> hashed w \<and> v \<noteq> NULLVP \<and> v \<noteq> l \<and> v \<notin> NULLTOV w ` hashed w
     \<and> v_usecount n = 1 \<and> v_vflag n = 0 \<and> v_irflag n = 0 \<and> v_object n = 0"

definition nodeget_linked :: "mp \<Rightarrow> vp \<Rightarrow> np \<Rightarrow> vp \<Rightarrow> vnode \<Rightarrow> world \<Rightarrow> world" where
  "nodeget_linked p v x l n w = nodeget_flags p v l (mnt_list_insert v p (nodeget_fill v x l (hold_vnode v (upd_vnode v (\<lambda>_. n) (hold_node x w)))))"

lemma linked_sel:
  assumes "v \<noteq> l"
  shows "tpt_node_hashtbl (nodeget_linked p v x l n w) = tpt_node_hashtbl w"
    "tpt_hash_mask (nodeget_linked p v x l n w) = tpt_hash_mask w"
    "nodes (nodeget_linked p v x l n w) = (nodes w)(x := (nodes w x)\<lparr>tpt_vnode := v, tpt_lowervp := l, tpt_flags := 0\<rparr>)"
    "u \<noteq> v \<Longrightarrow> vnodes (nodeget_linked p v x l n w) u = vnodes w u"
    "v_mount (vnodes (nodeget_linked p v x l n w) v) = p" "v_data (vnodes (nodeget_linked p v x l n w) v) = x"
    "v_vnlock (vnodes (nodeget_linked p v x l n w) v) = v_vnlock (vnodes w l)"
    "v_type (vnodes (nodeget_linked p v x l n w) v) = v_type (vnodes w l)"
    "v_usecount (vnodes (nodeget_linked p v x l n w) v) = v_usecount n"
    "v_vflag n = 0 \<Longrightarrow> (v_vflag (vnodes (nodeget_linked p v x l n w) v) = VV_ROOT) \<longleftrightarrow> l = nullm_lowerrootvp (mntdatas w (MOUNTTONULLMOUNT w p))"
  using assms by (simp_all add: nodeget_linked_def) (simp_all add: nodeget_fill_def nodeget_flags_def Let_def MOUNTTONULLMOUNT_def mnt_list_insert_def VV_ROOT_def)

lemma linked_table:
  assumes "hash_ok k w" "makes_alias k w p l x v n"
  shows "hash_ok k (nodeget_linked p v x l n w)" "hashed (nodeget_linked p v x l n w) = hashed w"
    "hash_find k (nodeget_linked p v x l n w) p' l' = hash_find k w p' l'"
    "alias_key (nodeget_linked p v x l n w) x = (p, l)"
proof -
  have m: "x \<notin> hashed w" "v \<notin> NULLTOV w ` hashed w" "v \<noteq> l" using assms(2) by (simp_all add: makes_alias_def)
  note s = linked_sel [OF m(3), where p = p and x = x and n = n and w = w]
  have a: "\<And>a. a \<in> hashed w \<Longrightarrow> nodes (nodeget_linked p v x l n w) a = nodes w a"
    "\<And>a. a \<in> hashed w \<Longrightarrow> v_mount (vnodes (nodeget_linked p v x l n w) (NULLTOV w a)) = v_mount (vnodes w (NULLTOV w a))"
    using m s(3) s(4) by (auto simp: image_iff)
  show "hash_ok k (nodeget_linked p v x l n w)" "hashed (nodeget_linked p v x l n w) = hashed w"
    using hash_ok_cong [OF s(1,2) a] assms(1) by auto
  show "hash_find k (nodeget_linked p v x l n w) p' l' = hash_find k w p' l'"
    using hash_find_cong [OF assms(1) s(1,2) a] .
  show "alias_key (nodeget_linked p v x l n w) x = (p, l)" by (simp add: alias_key_def NULLTOV_def s)
qed

lemma nodeget_new:
  assumes "vref_counts k" "hash_ok k w" "hash_find k w p l = None" "makes_alias k w p l x v n"
  shows "run_state (tpt_nodeget k p l) w = ((0, v), hash_insert k x (nodeget_linked p v x l n w))"
proof -
  have m: "run_state (VOP_ISLOCKED k l) w = (LK_EXCLUSIVE, w)" "run_state (malloc_node k) w = (x, hold_node x w)"
    "run_state (getnewvnode k p tpt_vnodeops) (hold_node x w) = ((0, v), hold_vnode v (upd_vnode v (\<lambda>_. n) (hold_node x w)))"
    "\<And>dtr w'. NULLTOV w' ` hashed w' = NULLTOV w ` hashed w \<Longrightarrow> run_state (insmntque1 k v p dtr) w' = (0, mnt_list_insert v p w')"
    "x \<notin> hashed w" "v \<noteq> l"
    using assms(4) by (simp_all add: makes_alias_def)
  define w1 where "w1 = nodeget_fill v x l (hold_vnode v (upd_vnode v (\<lambda>_. n) (hold_node x w)))"
  have "hashed w1 = hashed w" by (simp add: w1_def hashed_def)
  moreover have "NULLTOV w1 a = NULLTOV w a" if "a \<in> hashed w" for a using that m(5) by (auto simp: w1_def NULLTOV_def)
  ultimately have "NULLTOV w1 ` hashed w1 = NULLTOV w ` hashed w" by (auto simp: image_iff)
  note ins = m(4) [OF this]
  have "nodeget_flags p v l (mnt_list_insert v p w1) = nodeget_linked p v x l n w"
    by (simp add: nodeget_linked_def w1_def)
  moreover have "tpt_lowervp (nodes w1 x) = l" by (simp add: w1_def)
  moreover have "hash_find k (nodeget_linked p v x l n w) p l = None" using linked_table(3) [OF assms(2,4)] assms(3) by simp
  ultimately show ?thesis
    using ins by (simp add: tpt_nodeget_def tpt_hashget_run assms(1,3) nodeget_upgrade_def m(1-3) nodeget_make_def
      nodeget_enter_def tpt_hashins_run flip: w1_def)
qed

section \<open>A kernel for the examples\<close>

text \<open>
  The simplest kernel that does what the hypotheses of the theorems say: one thread, every
  call succeeds where it can, no resource limits.
\<close>

definition blank_vnode :: vnode where
  "blank_vnode = \<lparr>v_type = VNON, v_op = other_vnodeops, v_data = 0, v_mount = 0, v_vnlock = 0, v_object = 0, v_vflag = 0,
     v_irflag = 0, v_writecount = 0, v_usecount = 0, v_holdcnt = 0, bo_private = 0, bo_ops = 0\<rparr>"

definition quiet_kernel :: kernel where
  "quiet_kernel = \<lparr>vfs_hash_index = (\<lambda>v. word_of_nat v), hashinit = ret 0xff, hashdestroy = ret (),
     vref = (\<lambda>v. modify (add_use v 1)), vrele = (\<lambda>v. modify (add_use v (- 1))), vput = (\<lambda>v. modify (add_use v (- 1))),
     vunref = (\<lambda>v. modify (add_use v (- 1))), vhold = (\<lambda>v. ret ()), vholdnz = (\<lambda>v. ret ()), vdrop = (\<lambda>v. ret ()), vgone = (\<lambda>v. ret ()),
     vrecycle = (\<lambda>v. ret ()), vget = (\<lambda>v f. do { modify (add_use v 1); ret 0 }), lockmgr_exclusive = (\<lambda>v. ret ()),
     VOP_ISLOCKED = (\<lambda>v. ret LK_EXCLUSIVE), VOP_LOCK = (\<lambda>v f. ret 0), VOP_UNLOCK = (\<lambda>v. ret 0), vop_stdlock = (\<lambda>v f. ret 0),
     vop_stdunlock = (\<lambda>v. ret 0), vn_lock = (\<lambda>v f. ret 0),
     malloc_node = State (\<lambda>w. let x = Suc (Max (insert 0 (hashed w))) in (x, hold_node x w)), free_node = (\<lambda>x. ret ()),
     getnewvnode = (\<lambda>p ops. State (\<lambda>w. if 9 \<in> NULLTOV w ` hashed w then ((23, 0), w)
        else ((0, 9), hold_vnode 9 (upd_vnode 9 (\<lambda>_. blank_vnode\<lparr>v_op := ops, v_usecount := 1\<rparr>) w)))),
     insmntque1 = (\<lambda>v p dtr. State (\<lambda>w. if v \<in> NULLTOV w ` hashed w then (EBUSY, snd (run_state dtr w))
        else (0, mnt_list_insert v p w))),
     VCALL = (\<lambda>ap. ret (0, ap)), bypass_unmapped = (\<lambda>ap. ret (EINVAL, ap)), VOP_ADD_WRITECOUNT =
        (\<lambda>v i. State (\<lambda>w. if v_writecount (vnodes w v) < 0 then (ETXTBSY, w) else (0, upd_vnode v (\<lambda>n. n\<lparr>v_writecount := v_writecount n + i\<rparr>) w))),
     VOP_LOOKUP = (\<lambda>v cn. ret (ENOENT, 0, cn)), VOP_GETWRITEMOUNT = (\<lambda>v m. asks (\<lambda>w. v_mount (vnodes w v))),
     VOP_VPTOFH = (\<lambda>v f. ret 0), vn_vptocnp = (\<lambda>v b n. ret (ENOENT, 0, b, n)), vfs_ref = (\<lambda>p. ret ()), vfs_rel = (\<lambda>p. ret ()),
     VOP_READ_PGCACHE = (\<lambda>v u f c. ret 0), VOP_VPUT_PAIR = (\<lambda>d v u. ret (0, v)),
     vfs_getopt_from = (\<lambda>p. ret (0, Some (''da0'' @ [CHR 0x00]), 4)), namei = (\<lambda>s. ret (0, 5)), NDFREE = ret (),
     vn_isdisk_error = (\<lambda>v. ret (True, 0)), vfs_mountedfrom = (\<lambda>p s. ret ()), vfs_flagopt_ro = (\<lambda>p. ret False),
     g_vfs_open = (\<lambda>v wr. ret (0, 3)), g_vfs_close = (\<lambda>c. ret ()), g_vfs_bufops = 4, bread = (\<lambda>v b n. ret (0, 6)),
     brelse = (\<lambda>b. ret ()), malloc_mount = ret 7, malloc_fs = ret 8, free_mount = (\<lambda>m. ret ()),
     vflush = (\<lambda>p f. do { modify (upd_mount p (\<lambda>m. m\<lparr>mnt_nvnodelistsize := mnt_nvnodelistsize m - 1\<rparr>)); ret 0 }),
     msleep_uppers = (\<lambda>p. modify (upd_mount p (\<lambda>m. m\<lparr>mnt_kern_flag := 0\<rparr>))),
     VFS_QUOTACTL = (\<lambda>p c u a. ret 0), VFS_STATFS = (\<lambda>p s. ret (0, s)), VFS_VGET = (\<lambda>p i f. ret (0, 5)),
     VFS_FHTOVP = (\<lambda>p f g. ret (0, 5)), VFS_EXTATTRCTL = (\<lambda>p c f n a. ret 0)\<rparr>"

lemma quiet_sel [simp]:
  "vfs_hash_index quiet_kernel v = word_of_nat v"
  "hashinit quiet_kernel = ret 0xff"
  "hashdestroy quiet_kernel = ret ()"
  "vref quiet_kernel v = modify (add_use v 1)"
  "vrele quiet_kernel v = modify (add_use v (- 1))"
  "vput quiet_kernel v = modify (add_use v (- 1))"
  "vunref quiet_kernel v = modify (add_use v (- 1))"
  "vhold quiet_kernel v = ret ()"
  "vholdnz quiet_kernel v = ret ()"
  "vdrop quiet_kernel v = ret ()"
  "vgone quiet_kernel v = ret ()"
  "vrecycle quiet_kernel v = ret ()"
  "vget quiet_kernel v f = do { modify (add_use v 1); ret 0 }"
  "lockmgr_exclusive quiet_kernel v = ret ()"
  "VOP_ISLOCKED quiet_kernel v = ret LK_EXCLUSIVE"
  "VOP_LOCK quiet_kernel v f = ret 0"
  "VOP_UNLOCK quiet_kernel v = ret 0"
  "vop_stdlock quiet_kernel v f = ret 0"
  "vop_stdunlock quiet_kernel v = ret 0"
  "vn_lock quiet_kernel v f = ret 0"
  "malloc_node quiet_kernel = State (\<lambda>w. let x = Suc (Max (insert 0 (hashed w))) in (x, hold_node x w))"
  "free_node quiet_kernel x = ret ()"
  "getnewvnode quiet_kernel p ops = State (\<lambda>w. if 9 \<in> NULLTOV w ` hashed w then ((23, 0), w) else ((0, 9), hold_vnode 9 (upd_vnode 9 (\<lambda>_. blank_vnode\<lparr>v_op := ops, v_usecount := 1\<rparr>) w)))"
  "insmntque1 quiet_kernel v p dtr = State (\<lambda>w. if v \<in> NULLTOV w ` hashed w then (EBUSY, snd (run_state dtr w)) else (0, mnt_list_insert v p w))"
  "VCALL quiet_kernel ap = ret (0, ap)"
  "bypass_unmapped quiet_kernel ap = ret (EINVAL, ap)"
  "VOP_ADD_WRITECOUNT quiet_kernel v i = State (\<lambda>w. if v_writecount (vnodes w v) < 0 then (ETXTBSY, w) else (0, upd_vnode v (\<lambda>n. n\<lparr>v_writecount := v_writecount n + i\<rparr>) w))"
  "VOP_LOOKUP quiet_kernel v cn = ret (ENOENT, 0, cn)"
  "VOP_GETWRITEMOUNT quiet_kernel v m = asks (\<lambda>w. v_mount (vnodes w v))"
  "VOP_VPTOFH quiet_kernel v h = ret 0"
  "vn_vptocnp quiet_kernel v bf bn = ret (ENOENT, 0, bf, bn)"
  "vfs_ref quiet_kernel p = ret ()"
  "vfs_rel quiet_kernel p = ret ()"
  "VOP_READ_PGCACHE quiet_kernel v uio f cr = ret 0"
  "VOP_VPUT_PAIR quiet_kernel d v un = ret (0, v)"
  "vfs_getopt_from quiet_kernel p = ret (0, Some (''da0'' @ [CHR 0x00]), 4)"
  "namei quiet_kernel s = ret (0, 5)"
  "NDFREE quiet_kernel = ret ()"
  "vn_isdisk_error quiet_kernel v = ret (True, 0)"
  "vfs_mountedfrom quiet_kernel p s = ret ()"
  "vfs_flagopt_ro quiet_kernel p = ret False"
  "g_vfs_open quiet_kernel v wr = ret (0, 3)"
  "g_vfs_close quiet_kernel cp = ret ()"
  "g_vfs_bufops quiet_kernel = 4"
  "bread quiet_kernel v bl n = ret (0, 6)"
  "brelse quiet_kernel b = ret ()"
  "malloc_mount quiet_kernel = ret 7"
  "malloc_fs quiet_kernel = ret 8"
  "free_mount quiet_kernel m = ret ()"
  "vflush quiet_kernel p f = do { modify (upd_mount p (\<lambda>m. m\<lparr>mnt_nvnodelistsize := mnt_nvnodelistsize m - 1\<rparr>)); ret 0 }"
  "msleep_uppers quiet_kernel p = modify (upd_mount p (\<lambda>m. m\<lparr>mnt_kern_flag := 0\<rparr>))"
  "VFS_QUOTACTL quiet_kernel p cm ui a = ret 0"
  "VFS_STATFS quiet_kernel p st = ret (0, st)"
  "VFS_VGET quiet_kernel p ino f = ret (0, 5)"
  "VFS_FHTOVP quiet_kernel p h f = ret (0, 5)"
  "VFS_EXTATTRCTL quiet_kernel p cm fv ns an = ret 0"
  by (simp_all add: quiet_kernel_def)

text \<open>Vnode 5 is a directory of the file system below with two references; mount point 1 is the layer's.\<close>

definition quiet_world :: world where
  "quiet_world = \<lparr>vnodes = (\<lambda>v. if v = 5 then blank_vnode\<lparr>v_type := VDIR, v_vnlock := 5, v_usecount := 2\<rparr> else blank_vnode),
     nodes = (\<lambda>_. \<lparr>tpt_lowervp = 0, tpt_vnode = 0, tpt_flags = 0\<rparr>),
     mounts = (\<lambda>_. \<lparr>mnt_op = tpt_vfsops, mnt_flag = 0, mnt_kern_flag = 0, mnt_data = 7, mnt_nvnodelistsize = 0, mnt_uppers = [], mnt_fsid = 77\<rparr>),
     mntdatas = (\<lambda>_. \<lparr>nullm_vfs = 1, nullm_lowerrootvp = 5, nullm_flags = 0, tptm_fs = 8\<rparr>),
     sbs = (\<lambda>_. \<lparr>magic = 0, nr_blocks = 0, nr_inodes = 0, nr_istore_blocks = 0, nr_ifree_blocks = 0, nr_bfree_blocks = 0,
        nr_free_inodes = 0, nr_free_blocks = 0, ifree_bitmap = 0, bfree_bitmap = 0\<rparr>),
     b_data = (\<lambda>_. \<lparr>magic = 0x10203040, nr_blocks = 64, nr_inodes = 8, nr_istore_blocks = 1, nr_ifree_blocks = 1, nr_bfree_blocks = 1,
        nr_free_inodes = 7, nr_free_blocks = 60, ifree_bitmap = 0, bfree_bitmap = 0\<rparr>),
     tpt_node_hashtbl = (\<lambda>_. []), tpt_hash_mask = 0xff, held_nodes = {}, held_vnodes = {}\<rparr>"

lemma quiet_refs [simp]: "vref_counts quiet_kernel" "vrele_counts quiet_kernel"
  by (simp_all add: vref_counts_def vrele_counts_def)

lemma quiet_table [simp]: "hashed quiet_world = {}" "hash_ok k quiet_world" "hash_find k quiet_world p l = None"
  by (simp_all add: quiet_world_def hashed_def hash_ok_def hash_find_def)

lemma hash_ok_finite:
  assumes "hash_ok k w"
  shows "finite (hashed w)"
proof -
  have "tpt_node_hashtbl w b = []" if "b \<ge> 2 ^ 32" for b
  proof (rule ccontr)
    assume "tpt_node_hashtbl w b \<noteq> []"
    then have "hd (tpt_node_hashtbl w b) \<in> set (tpt_node_hashtbl w b)" by (rule hd_in_set)
    then have "NULL_NHASH k w (tpt_lowervp (nodes w (hd (tpt_node_hashtbl w b)))) = b" using assms by (simp add: hash_ok_def)
    moreover have "NULL_NHASH k w u < 2 ^ 32" for u using unsigned_less [of "vfs_hash_index k u AND tpt_hash_mask w"] by (simp add: NULL_NHASH_def)
    ultimately show False using that by (metis not_le)
  qed
  then obtain N where N: "\<And>b. N \<le> b \<Longrightarrow> tpt_node_hashtbl w b = []" by blast
  have "hashed w \<subseteq> (\<Union>b<N. set (tpt_node_hashtbl w b))"
  proof
    fix x assume "x \<in> hashed w"
    then obtain b where b: "x \<in> set (tpt_node_hashtbl w b)" by (auto simp: hashed_def)
    with N [of b] have "b < N" by (cases "N \<le> b") auto
    with b show "x \<in> (\<Union>b<N. set (tpt_node_hashtbl w b))" by blast
  qed
  then show ?thesis by (rule finite_subset) simp
qed

lemma own_cong:
  assumes "tpt_node_hashtbl w' = tpt_node_hashtbl w" "\<And>a. a \<in> hashed w \<Longrightarrow> tpt_vnode (nodes w' a) = tpt_vnode (nodes w a)"
    "held_nodes w \<subseteq> held_nodes w'" "held_vnodes w \<subseteq> held_vnodes w'"
  shows "own_nodes w \<subseteq> own_nodes w'" "own_vnodes w \<subseteq> own_vnodes w'"
proof -
  have h: "hashed w' = hashed w" using assms(1) by (simp add: hashed_def)
  have "table_vnodes w' = table_vnodes w" unfolding table_vnodes_def h by (rule image_cong) (simp_all add: NULLTOV_def assms(2))
  with h assms(3,4) show "own_nodes w \<subseteq> own_nodes w'" "own_vnodes w \<subseteq> own_vnodes w'" by (auto simp: own_nodes_def own_vnodes_def)
qed

text \<open>The examples' kernel enters nothing while it runs.\<close>

lemma leaves_own_silent: "(\<And>w. snd (run_state c w) = w) \<Longrightarrow> leaves_own k c"
  by (simp add: leaves_own_def others_refl)

lemma others_use: "others k w (add_use v n w)"
proof -
  have "table_ok k (add_use v n w) = table_ok k w" by (rule table_ok_cong) simp_all
  then show ?thesis using own_cong [of "add_use v n w" w] by (simp add: others_def)
qed

lemma others_unused:
  assumes "v \<notin> table_vnodes w"
  shows "others k w (hold_vnode v (upd_vnode v f w))" "others k w (mnt_list_insert v p w)"
proof -
  have v: "a \<in> hashed w \<Longrightarrow> NULLTOV w a \<noteq> v" for a using assms by (auto simp: table_vnodes_def)
  have "table_ok k (hold_vnode v (upd_vnode v f w)) = table_ok k w" "table_ok k (mnt_list_insert v p w) = table_ok k w"
    by (rule table_ok_cong; use v in auto)+
  then show "others k w (hold_vnode v (upd_vnode v f w))" "others k w (mnt_list_insert v p w)"
    using own_cong [of "hold_vnode v (upd_vnode v f w)" w] own_cong [of "mnt_list_insert v p w" w] by (auto simp: others_def)
qed

lemma fresh_node:
  assumes "table_ok k w" and x: "x = Suc (Max (insert 0 (hashed w)))"
  shows "table_ok k (hold_node x w)" "x \<in> own_nodes (hold_node x w)"
proof -
  have "finite (hashed w)" using assms(1) hash_ok_finite by (auto simp: table_ok_def)
  then have "x \<notin> hashed w" using Max_ge [of "insert 0 (hashed w)"] unfolding x by (metis Suc_n_not_le_n finite_insert insertI2)
  then show "x \<in> own_nodes (hold_node x w)" by (simp add: own_nodes_def hashed_def)
  have "table_ok k (hold_node x w) = table_ok k w" by (rule table_ok_cong) simp_all
  with assms(1) show "table_ok k (hold_node x w)" by simp
qed

lemma new_vnode_own: "v \<notin> table_vnodes w \<Longrightarrow> v \<in> own_vnodes (hold_vnode v (upd_vnode v f w))"
  by (simp add: own_vnodes_def table_vnodes_def NULLTOV_def hashed_def)

lemma quiet_insmntque1:
  assumes "v \<in> own_vnodes w" "run_state (insmntque1 quiet_kernel v p dtr) w = (e, w')"
  shows "e = 0 \<and> w' = mnt_list_insert v p w"
  using assms by (auto simp: own_vnodes_def table_vnodes_def)

lemma quiet_laws [simp]: "nodes_law quiet_kernel"
  unfolding nodes_law_def
proof (intro conjI)
  have "leaves_own quiet_kernel (modify (add_use v n))" for v n by (simp add: leaves_own_def others_use)
  then show "calls_leave_own quiet_kernel" by (simp add: calls_leave_own_def keeps_ret leaves_own_silent)
  show "malloc_law quiet_kernel" using fresh_node by (auto simp: malloc_law_def Let_def)
  show "getnewvnode_law quiet_kernel"
    unfolding getnewvnode_law_def leaves_own_def
    by (auto simp: others_refl others_unused new_vnode_own simp flip: table_vnodes_def split: if_splits)
  show "insmntque1_law quiet_kernel"
    unfolding insmntque1_law_def
  proof (intro allI impI, elim conjE)
    fix v p dtr w e w' assume v: "v \<in> own_vnodes w" and r: "run_state (insmntque1 quiet_kernel v p dtr) w = (e, w')"
    have "v \<notin> table_vnodes w" using v by (simp add: own_vnodes_def)
    from others_unused(2) [OF this] quiet_insmntque1 [OF v r]
    show "if e = 0 then others quiet_kernel w w' \<and> v_mount (vnodes w' v) = p \<and> v_data (vnodes w' v) = v_data (vnodes w v) \<and> (\<forall>x\<in>own_nodes w. nodes w' x = nodes w x)
        else \<exists>w1. others quiet_kernel w w1 \<and> w' = snd (run_state dtr w1)" by simp
  qed
qed

section \<open>Properties\<close>

text \<open>C3: \<open>tpt_nodeget\<close> on a lower vnode that has no alias on the mount point makes one: the table
  maps the pair to the new node and every other pair as before, node and vnode point to each
  other and to the lower vnode, whose lock and type the alias shares and whose reference passes to
  it, and it is the root exactly when the lower vnode is the lower root.  A second call returns
  the same alias, with one reference more, and gives the caller's reference on the lower vnode back.\<close>

theorem tpt_nodeget_new_alias:
  assumes "vref_counts k" "vrele_counts k" "hash_ok k w" "hash_find k w p l = None" "makes_alias k w p l x v n"
    "1 < v_usecount (vnodes w l)"
  shows "\<exists>w'. run_state (tpt_nodeget k p l) w = ((0, v), w') \<and> hash_ok k w'
    \<and> (\<forall>q. hash_find k w' (fst q) (snd q) = (if q = (p, l) then Some x else hash_find k w (fst q) (snd q)))
    \<and> NULLTOV w' x = v \<and> VTONULL w' v = x \<and> NULLVPTOLOWERVP w' v = l \<and> v_mount (vnodes w' v) = p
    \<and> v_vnlock (vnodes w' v) = v_vnlock (vnodes w l) \<and> v_type (vnodes w' v) = v_type (vnodes w l)
    \<and> v_usecount (vnodes w' v) = 1 \<and> vnodes w' l = vnodes w l
    \<and> (v_vflag (vnodes w' v) = VV_ROOT \<longleftrightarrow> l = nullm_lowerrootvp (mntdatas w (MOUNTTONULLMOUNT w p)))
    \<and> run_state (tpt_nodeget k p l) w' = ((0, v), add_use l (- 1) (add_use v 1 w'))"
proof -
  define u where "u = nodeget_linked p v x l n w"
  have m: "v \<noteq> NULLVP" "v \<noteq> l" "v_usecount n = 1" "v_vflag n = 0" using assms(5) by (simp_all add: makes_alias_def)
  note s = linked_sel [OF m(2), where p = p and x = x and n = n and w = w, folded u_def]
  note t = linked_table [OF assms(3,5), folded u_def]
  have find: "hash_find k (hash_insert k x u) (fst q) (snd q) = (if q = (p, l) then Some x else hash_find k w (fst q) (snd q))" for q
    using at.find_ins [of k u x q] t assms(4) by simp
  have al: "hash_find k (hash_insert k x u) p l = Some x" "NULLTOV (hash_insert k x u) x = v"
    using find [of "(p, l)"] by (simp_all add: NULLTOV_def s)
  then have again: "run_state (tpt_nodeget k p l) (hash_insert k x u) = ((0, v), add_use l (- 1) (add_use v 1 (hash_insert k x u)))"
    using nodeget_hit [OF assms(1,2) al(1)] m assms(6) s(4) [of l] by simp
  show ?thesis
    using nodeget_new [OF assms(1,3-5)] hash_insert_ok [OF t(1), of x] find al(2) again t assms(4) m s
    by (intro exI [of _ "hash_insert k x u"]) (simp add: u_def [symmetric] VTONULL_def NULLVPTOLOWERVP_def)
qed

theorem tpt_nodeget_new_alias_witness:
  "\<exists>w'. run_state (tpt_nodeget quiet_kernel 1 5) quiet_world = ((0, 9), w') \<and> v_vflag (vnodes w' 9) = VV_ROOT
     \<and> run_state (tpt_nodeget quiet_kernel 1 5) w' = ((0, 9), add_use 5 (- 1) (add_use 9 1 w'))"
proof -
  have "hashed (hold_node x quiet_world) = {}" for x by (simp add: hashed_def quiet_world_def hold_node_def)
  then have "makes_alias quiet_kernel quiet_world 1 5 1 9 (blank_vnode\<lparr>v_op := tpt_vnodeops, v_usecount := 1\<rparr>)"
    by (simp add: makes_alias_def blank_vnode_def Let_def)
  moreover have "1 < v_usecount (vnodes quiet_world 5)" "5 = nullm_lowerrootvp (mntdatas quiet_world (MOUNTTONULLMOUNT quiet_world 1))"
    by (simp_all add: quiet_world_def)
  ultimately show ?thesis
    using tpt_nodeget_new_alias [of quiet_kernel quiet_world 1 5 1 9 "blank_vnode\<lparr>v_op := tpt_vnodeops, v_usecount := 1\<rparr>"] by auto
qed

end
