(* ===== verification/Tpt_Vnops.thy ===== *)
theory Tpt_Vnops
  imports Tpt_Node
begin

text \<open>
  \<open>tptfs/tpt_vnops.c\<close>: the vnode operations of the layer.  An argument structure is a value
  that an operation takes and returns, with the vnode arguments in the order of its
  description (\<open>vp_arg\<close>); an operation that has its own few arguments takes them one by one.
  An \<open>out\<close> pointer is passed with what it points to and returned with what was written.
\<close>

section \<open>The bypass routine\<close>

definition vp_arg :: "vop_args \<Rightarrow> nat \<Rightarrow> vp" where
  "vp_arg ap i = a_vps ap (vdesc_vp_offsets (a_desc ap) i)"

definition set_vp :: "vnodeop_desc \<Rightarrow> nat \<Rightarrow> vp \<Rightarrow> vop_args \<Rightarrow> vop_args" where
  "set_vp d i v ap = ap\<lparr>a_vps := (a_vps ap)(vdesc_vp_offsets d i := v)\<rparr>"

text \<open>
  The loop that maps the vnodes going in; \<open>n\<close> is \<open>VDESC_MAX_VPS - i\<close>.  The result lists the
  \<open>old_vps\<close> that were set.  The reference is taken on the lower vnode: \<open>this_vp_p\<close> points to
  the argument that has just been replaced.
\<close>

primrec bypass_in :: "kernel \<Rightarrow> vnodeop_desc \<Rightarrow> nat \<Rightarrow> nat \<Rightarrow> u32 \<Rightarrow> vop_args \<Rightarrow> (vp list \<times> vop_args) km" where
  "bypass_in k d 0 i reles ap = ret ([], ap)"
| "bypass_in k d (Suc n) i reles ap =
     (if vdesc_vp_offsets d i = VDESC_NO_OFFSET then ret ([], ap)
      else do {
        this \<leftarrow> ret (a_vps ap (vdesc_vp_offsets d i));
        ours \<leftarrow> asks (\<lambda>w. this \<noteq> NULLVP \<and> v_op (vnodes w this) = tpt_vnodeops);
        if i \<noteq> 0 \<and> \<not> ours then do {
          (olds, ap) \<leftarrow> bypass_in k d n (Suc i) (drop_bit 1 reles) ap;
          ret (NULLVP # olds, ap) }
        else do {
          lower \<leftarrow> asks (\<lambda>w. NULLVPTOLOWERVP w this);
          whenM (reles AND VDESC_VP0_WILLRELE \<noteq> 0) (vref k lower);
          (olds, ap) \<leftarrow> bypass_in k d n (Suc i) (drop_bit 1 reles) (set_vp d i lower ap);
          ret (this # olds, ap) } })"

text \<open>The test for a lock that has to move from the lower vnode to a reclaimed upper one.\<close>

definition lock_split :: "kernel \<Rightarrow> vp \<Rightarrow> vp \<Rightarrow> bool km" where
  "lock_split k old lvp =
     (if lvp = NULLVP then ret False
      else do {
        st \<leftarrow> VOP_ISLOCKED k lvp;
        if st = LK_EXCLUSIVE then asks (\<lambda>w. v_vnlock (vnodes w old) \<noteq> v_vnlock (vnodes w lvp)) else ret False })"

primrec bypass_out :: "kernel \<Rightarrow> vnodeop_desc \<Rightarrow> vp list \<Rightarrow> nat \<Rightarrow> u32 \<Rightarrow> vop_args \<Rightarrow> vop_args km" where
  "bypass_out k d [] i reles ap = ret ap"
| "bypass_out k d (old # olds) i reles ap =
     (if old = NULLVP then bypass_out k d olds (Suc i) (drop_bit 1 reles) ap
      else do {
        lvp \<leftarrow> ret (a_vps ap (vdesc_vp_offsets d i));
        split \<leftarrow> lock_split k old lvp;
        whenM split (do { VOP_UNLOCK k lvp; VOP_LOCK k old (LK_EXCLUSIVE OR LK_RETRY); ret () });
        whenM (reles AND VDESC_VP0_WILLRELE \<noteq> 0) (vrele k old);
        bypass_out k d olds (Suc i) (drop_bit 1 reles) (set_vp d i old ap) })"

definition bypass_vpp :: "kernel \<Rightarrow> vnodeop_desc \<Rightarrow> vp \<Rightarrow> errno \<Rightarrow> vop_args \<Rightarrow> (errno \<times> vop_args) km" where
  "bypass_vpp k d old0 error ap =
     (if vdesc_vpp_offset d \<noteq> VDESC_NO_OFFSET \<and> error = 0 then
        (case a_vpps ap (vdesc_vpp_offset d) of
           None \<Rightarrow> ret (error, ap)
         | Some lvp \<Rightarrow> do {
             p \<leftarrow> asks (\<lambda>w. v_mount (vnodes w old0));
             (error, v) \<leftarrow> tpt_nodeget k p lvp;
             ret (error, ap\<lparr>a_vpps := (a_vpps ap)(vdesc_vpp_offset d := Some v)\<rparr>) })
      else ret (error, ap))"

text \<open>
  Without a vnode in its map the routine reads \<open>vps_p[0]\<close> uninitialised (with \<open>DIAGNOSTIC\<close> it
  panics): what happens then is the parameter \<open>bypass_unmapped\<close>.
\<close>

definition tpt_bypass :: "kernel \<Rightarrow> vop_args \<Rightarrow> (errno \<times> vop_args) km" where
  "tpt_bypass k ap = (let d = a_desc ap in do {
     (olds, ap) \<leftarrow> bypass_in k d VDESC_MAX_VPS 0 (vdesc_flags d) ap;
     if olds = [] then bypass_unmapped k ap
     else do {
       (error, ap) \<leftarrow> (if a_vps ap (vdesc_vp_offsets d 0) \<noteq> NULLVP then VCALL k ap else ret (EINVAL, ap));
       ap \<leftarrow> bypass_out k d olds 0 (vdesc_flags d) ap;
       bypass_vpp k d (hd olds) error ap } })"

section \<open>Operations with arguments of their own\<close>

definition tpt_add_writecount :: "kernel \<Rightarrow> vp \<Rightarrow> int \<Rightarrow> errno km" where
  "tpt_add_writecount k v inc = do {
     lvp \<leftarrow> asks (\<lambda>w. NULLVPTOLOWERVP w v);
     error \<leftarrow> VOP_ADD_WRITECOUNT k lvp inc;
     whenM (error = 0) (modify (upd_vnode v (\<lambda>n. n\<lparr>v_writecount := v_writecount n + inc\<rparr>)));
     ret error }"

definition readonly :: "world \<Rightarrow> mp \<Rightarrow> bool" where
  "readonly w p \<longleftrightarrow> mnt_flag (mounts w p) AND MNT_RDONLY \<noteq> 0"

text \<open>The part of \<open>tpt_lookup\<close> after the lookup below: a reclaimed directory.\<close>

definition lookup_doomed :: "kernel \<Rightarrow> vp \<Rightarrow> vp \<Rightarrow> vp \<Rightarrow> errno \<Rightarrow> errno km" where
  "lookup_doomed k dvp ldvp lvp error = do {
     doomed \<leftarrow> asks (\<lambda>w. VN_IS_DOOMED w dvp);
     if (error = 0 \<or> error = EJUSTRETURN) \<and> doomed then do {
       whenM (lvp \<noteq> NULLVP) (vput k lvp);
       VOP_UNLOCK k ldvp;
       vn_lock k dvp (LK_EXCLUSIVE OR LK_RETRY);
       ret ENOENT }
     else ret error }"

definition tpt_lookup :: "kernel \<Rightarrow> vp \<Rightarrow> vp \<Rightarrow> componentname \<Rightarrow> (errno \<times> vp \<times> componentname) km" where
  "tpt_lookup k dvp vpp cnp = (let flags = cn_flags cnp in do {
     p \<leftarrow> asks (\<lambda>w. v_mount (vnodes w dvp));
     ro \<leftarrow> asks (\<lambda>w. readonly w p);
     if flags AND ISLASTCN \<noteq> 0 \<and> ro \<and> (cn_nameiop cnp = DELETE \<or> cn_nameiop cnp = RENAME) then ret (EROFS, vpp, cnp)
     else do {
       ldvp \<leftarrow> asks (\<lambda>w. NULLVPTOLOWERVP w dvp);
       vhold k ldvp;
       (error, lvp, cnp) \<leftarrow> VOP_LOOKUP k ldvp cnp;
       error \<leftarrow> lookup_doomed k dvp ldvp lvp error;
       vdrop k ldvp;
       ro \<leftarrow> asks (\<lambda>w. readonly w p);
       error \<leftarrow> ret (if error = EJUSTRETURN \<and> flags AND ISLASTCN \<noteq> 0 \<and> ro
                       \<and> (cn_nameiop cnp = CREATE \<or> cn_nameiop cnp = RENAME) then EROFS else error);
       if (error = 0 \<or> error = EJUSTRETURN) \<and> lvp \<noteq> NULLVP then
         (if ldvp = lvp then do { vref k dvp; vrele k lvp; ret (error, dvp, cnp) }
          else do {
            (error, v) \<leftarrow> tpt_nodeget k p lvp;
            ret (error, if error = 0 then v else vpp, cnp) })
       else ret (error, vpp, cnp) } })"

definition open_object :: "vp \<Rightarrow> vp \<Rightarrow> world \<Rightarrow> world" where
  "open_object v ldvp w = upd_vnode v (\<lambda>n. n\<lparr>v_object := v_object (vnodes w ldvp),
      v_irflag := (if v_irflag (vnodes w ldvp) AND VIRF_PGREAD \<noteq> 0 then v_irflag n OR VIRF_PGREAD else v_irflag n)\<rparr>) w"

definition tpt_open :: "kernel \<Rightarrow> vop_args \<Rightarrow> (errno \<times> vop_args) km" where
  "tpt_open k ap = do {
     v \<leftarrow> ret (vp_arg ap 0);
     ldvp \<leftarrow> asks (\<lambda>w. NULLVPTOLOWERVP w v);
     (retval, ap) \<leftarrow> tpt_bypass k ap;
     whenM (retval = 0) (modify (open_object v ldvp));
     ret (retval, ap) }"

text \<open>\<open>VNOVAL\<close> is -1, converted to the type of the member it is compared with.\<close>

definition vattr_set :: "vattr \<Rightarrow> bool" where
  "vattr_set va \<longleftrightarrow> va_flags va \<noteq> - 1 \<or> va_uid va \<noteq> - 1 \<or> va_gid va \<noteq> - 1 \<or> va_atime_sec va \<noteq> - 1
     \<or> va_mtime_sec va \<noteq> - 1 \<or> va_mode va \<noteq> - 1"

definition tpt_setattr :: "kernel \<Rightarrow> vop_args \<Rightarrow> (errno \<times> vop_args) km" where
  "tpt_setattr k ap = (let va = a_vap ap in do {
     v \<leftarrow> ret (vp_arg ap 0);
     ro \<leftarrow> asks (\<lambda>w. readonly w (v_mount (vnodes w v)));
     ty \<leftarrow> asks (\<lambda>w. v_type (vnodes w v));
     if vattr_set va \<and> ro then ret (EROFS, ap)
     else if va_size va \<noteq> - 1 then
       (if ty = VDIR then ret (EISDIR, ap)
        else if ty \<in> {VCHR, VBLK, VSOCK, VFIFO} then ret (if va_flags va \<noteq> - 1 then EOPNOTSUPP else 0, ap)
        else if ro then ret (EROFS, ap)
        else tpt_bypass k ap)
     else tpt_bypass k ap })"

text \<open>\<open>f_fsid.val[0]\<close> is an \<open>int32_t\<close>, which the assignments to \<open>dev_t\<close> extend with its sign.\<close>

definition fsid_dev :: "world \<Rightarrow> vp \<Rightarrow> u64" where
  "fsid_dev w v = scast (mnt_fsid (mounts w (v_mount (vnodes w v))))"

definition tpt_stat :: "kernel \<Rightarrow> vop_args \<Rightarrow> (errno \<times> vop_args) km" where
  "tpt_stat k ap = do {
     (error, ap) \<leftarrow> tpt_bypass k ap;
     if error \<noteq> 0 then ret (error, ap)
     else do {
       dev \<leftarrow> asks (\<lambda>w. fsid_dev w (vp_arg ap 0));
       ret (0, ap\<lparr>a_st_dev := dev\<rparr>) } }"

definition tpt_getattr :: "kernel \<Rightarrow> vop_args \<Rightarrow> (errno \<times> vop_args) km" where
  "tpt_getattr k ap = do {
     (error, ap) \<leftarrow> tpt_bypass k ap;
     if error \<noteq> 0 then ret (error, ap)
     else do {
       dev \<leftarrow> asks (\<lambda>w. fsid_dev w (vp_arg ap 0));
       ret (0, ap\<lparr>a_vap := (a_vap ap)\<lparr>va_fsid := dev\<rparr>\<rparr>) } }"

definition tpt_access :: "kernel \<Rightarrow> vop_args \<Rightarrow> (errno \<times> vop_args) km" where
  "tpt_access k ap = do {
     v \<leftarrow> ret (vp_arg ap 0);
     ro \<leftarrow> asks (\<lambda>w. readonly w (v_mount (vnodes w v)));
     ty \<leftarrow> asks (\<lambda>w. v_type (vnodes w v));
     if a_accmode ap AND VWRITE \<noteq> 0 \<and> ty \<in> {VDIR, VLNK, VREG} \<and> ro then ret (EROFS, ap)
     else tpt_bypass k ap }"

definition tpt_accessx :: "kernel \<Rightarrow> vop_args \<Rightarrow> (errno \<times> vop_args) km" where
  "tpt_accessx k ap = do {
     v \<leftarrow> ret (vp_arg ap 0);
     ro \<leftarrow> asks (\<lambda>w. readonly w (v_mount (vnodes w v)));
     ty \<leftarrow> asks (\<lambda>w. v_type (vnodes w v));
     if a_accmode ap AND VWRITE \<noteq> 0 \<and> ty \<in> {VDIR, VLNK, VREG} \<and> ro then ret (EROFS, ap)
     else tpt_bypass k ap }"

definition mark_flags :: "u32 \<Rightarrow> vp \<Rightarrow> world \<Rightarrow> world" where
  "mark_flags fl v w = upd_node (VTONULL w v) (\<lambda>x. x\<lparr>tpt_flags := tpt_flags x OR fl\<rparr>) w"

definition tpt_remove :: "kernel \<Rightarrow> vop_args \<Rightarrow> (errno \<times> vop_args) km" where
  "tpt_remove k ap = do {
     v \<leftarrow> ret (vp_arg ap 1);
     vreleit \<leftarrow> asks (\<lambda>w. v_usecount (vnodes w v) > 1);
     lvp \<leftarrow> asks (\<lambda>w. NULLVPTOLOWERVP w v);
     whenM vreleit (vref k lvp);
     modify (mark_flags NULLV_DROP v);
     (retval, ap) \<leftarrow> tpt_bypass k ap;
     whenM vreleit (vrele k lvp);
     ret (retval, ap) }"

definition tpt_rename :: "kernel \<Rightarrow> vop_args \<Rightarrow> (errno \<times> vop_args) km" where
  "tpt_rename k ap = (let fdvp = vp_arg ap 0; fvp = vp_arg ap 1; tdvp = vp_arg ap 2; tvp = vp_arg ap 3 in do {
     cross \<leftarrow> asks (\<lambda>w. v_mount (vnodes w fvp) \<noteq> v_mount (vnodes w tdvp)
                \<or> tvp \<noteq> NULLVP \<and> v_mount (vnodes w fvp) \<noteq> v_mount (vnodes w tvp));
     if cross then do {
       (if tdvp = tvp then vrele k tdvp else vput k tdvp);
       whenM (tvp \<noteq> NULLVP) (vput k tvp);
       vrele k fdvp;
       vrele k fvp;
       ret (EXDEV, ap) }
     else do {
       whenM (tvp \<noteq> NULLVP) (modify (mark_flags NULLV_DROP tvp));
       tpt_bypass k ap } })"

definition tpt_rmdir :: "kernel \<Rightarrow> vop_args \<Rightarrow> (errno \<times> vop_args) km" where
  "tpt_rmdir k ap = do {
     modify (mark_flags NULLV_DROP (vp_arg ap 1));
     tpt_bypass k ap }"

section \<open>Locks\<close>

text \<open>The lock request after the vnode was reclaimed; \<open>None\<close> is the panic on an unsupported one.\<close>

definition relock_flags :: "u32 \<Rightarrow> u32 option" where
  "relock_flags flags =
     (let rest = flags AND NOT LK_TYPE_MASK; ty = flags AND LK_TYPE_MASK in
      if ty = LK_SHARED then Some (rest OR LK_SHARED)
      else if ty = LK_UPGRADE \<or> ty = LK_EXCLUSIVE then Some (rest OR LK_EXCLUSIVE)
      else None)"

definition tpt_lock :: "kernel \<Rightarrow> vp \<Rightarrow> u32 \<Rightarrow> errno option km" where
  "tpt_lock k v a_flags = (let flags = a_flags AND NOT LK_INTERLOCK in do {
     nn \<leftarrow> asks (\<lambda>w. VTONULL w v);
     lvp \<leftarrow> asks (\<lambda>w. NULLVPTOLOWERVP w v);
     if nn \<noteq> 0 \<and> lvp \<noteq> NULLVP then do {
       vholdnz k lvp;
       error \<leftarrow> VOP_LOCK k lvp flags;
       gone \<leftarrow> asks (\<lambda>w. VTONULL w v = 0);
       if gone \<and> error = 0 then
         (case relock_flags flags of
            None \<Rightarrow> ret None
          | Some flags' \<Rightarrow> do {
              VOP_UNLOCK k lvp;
              error \<leftarrow> vop_stdlock k v flags';
              vdrop k lvp;
              ret (Some error) })
       else do { vdrop k lvp; ret (Some error) } }
     else do {
       error \<leftarrow> vop_stdlock k v flags;
       ret (Some error) } })"

definition tpt_unlock :: "kernel \<Rightarrow> vp \<Rightarrow> errno km" where
  "tpt_unlock k v = do {
     nn \<leftarrow> asks (\<lambda>w. VTONULL w v);
     lvp \<leftarrow> asks (\<lambda>w. NULLVPTOLOWERVP w v);
     if nn \<noteq> 0 \<and> lvp \<noteq> NULLVP then do {
       vholdnz k lvp;
       error \<leftarrow> VOP_UNLOCK k lvp;
       vdrop k lvp;
       ret error }
     else vop_stdunlock k v }"

section \<open>The end of a vnode\<close>

definition tpt_want_recycle :: "world \<Rightarrow> vp \<Rightarrow> bool" where
  "tpt_want_recycle w v \<longleftrightarrow>
     nullm_flags (mntdatas w (MOUNTTONULLMOUNT w (v_mount (vnodes w v)))) AND NULLM_CACHE = 0
     \<or> tpt_flags (nodes w (VTONULL w v)) AND NULLV_DROP \<noteq> 0
     \<or> v_vflag (vnodes w (NULLVPTOLOWERVP w v)) AND VV_NOSYNC \<noteq> 0"

definition tpt_inactive :: "kernel \<Rightarrow> vp \<Rightarrow> errno km" where
  "tpt_inactive k v = do {
     want \<leftarrow> asks (\<lambda>w. tpt_want_recycle w v);
     whenM want (do { modify (upd_vnode v (\<lambda>n. n\<lparr>v_object := 0\<rparr>)); vrecycle k v });
     ret 0 }"

definition tpt_need_inactive :: "vp \<Rightarrow> errno km" where
  "tpt_need_inactive v = asks (\<lambda>w. if tpt_want_recycle w v then 1 else 0)"

definition tpt_reclaim :: "kernel \<Rightarrow> vp \<Rightarrow> errno km" where
  "tpt_reclaim k v = do {
     xp \<leftarrow> asks (\<lambda>w. VTONULL w v);
     lowervp \<leftarrow> asks (\<lambda>w. tpt_lowervp (nodes w xp));
     tpt_hashrem xp;
     lockmgr_exclusive k v;
     modify (upd_vnode v (\<lambda>n. n\<lparr>v_data := 0, v_object := 0, v_vnlock := v\<rparr>));
     wc \<leftarrow> asks (\<lambda>w. v_writecount (vnodes w v));
     (if wc > 0 then do { VOP_ADD_WRITECOUNT k lowervp (- wc); ret () }
      else whenM (wc < 0) (modify (upd_vnode v (\<lambda>n. n\<lparr>v_writecount := 0\<rparr>))));
     nounlock \<leftarrow> asks (\<lambda>w. tpt_flags (nodes w xp) AND NULLV_NOUNLOCK \<noteq> 0);
     (if nounlock then vunref k lowervp else vput k lowervp);
     free_node k xp;
     ret 0 }"

section \<open>Other operations\<close>

definition tpt_getwritemount :: "kernel \<Rightarrow> vp \<Rightarrow> mp \<Rightarrow> (errno \<times> mp) km" where
  "tpt_getwritemount k v mpp = do {
     xp \<leftarrow> asks (\<lambda>w. VTONULL w v);
     lowervp \<leftarrow> asks (\<lambda>w. tpt_lowervp (nodes w xp));
     if xp \<noteq> 0 \<and> lowervp \<noteq> NULLVP then do {
       vholdnz k lowervp;
       mpp \<leftarrow> VOP_GETWRITEMOUNT k lowervp mpp;
       vdrop k lowervp;
       ret (0, mpp) }
     else ret (0, 0) }"

definition tpt_vptofh :: "kernel \<Rightarrow> vp \<Rightarrow> nat \<Rightarrow> errno km" where
  "tpt_vptofh k v fhp = do {
     lvp \<leftarrow> asks (\<lambda>w. NULLVPTOLOWERVP w v);
     VOP_VPTOFH k lvp fhp }"

definition tpt_vptocnp :: "kernel \<Rightarrow> vp \<Rightarrow> vp \<Rightarrow> string \<Rightarrow> nat \<Rightarrow> (errno \<times> vp \<times> string \<times> nat) km" where
  "tpt_vptocnp k v dvp buf buflen = do {
     locked \<leftarrow> VOP_ISLOCKED k v;
     lvp \<leftarrow> asks (\<lambda>w. NULLVPTOLOWERVP w v);
     vhold k lvp;
     p \<leftarrow> asks (\<lambda>w. v_mount (vnodes w v));
     vfs_ref k p;
     VOP_UNLOCK k v;
     vref k lvp;
     (error, ldvp, buf, buflen) \<leftarrow> vn_vptocnp k lvp buf buflen;
     vdrop k lvp;
     if error \<noteq> 0 then do {
       vn_lock k v (locked OR LK_RETRY);
       vfs_rel k p;
       ret (ENOENT, dvp, buf, buflen) }
     else do {
       error \<leftarrow> vn_lock k ldvp LK_SHARED;
       if error \<noteq> 0 then do {
         vrele k ldvp;
         vn_lock k v (locked OR LK_RETRY);
         vfs_rel k p;
         ret (ENOENT, dvp, buf, buflen) }
       else do {
         (error, dvp) \<leftarrow> tpt_nodeget k p ldvp;
         whenM (error = 0) (do { VOP_UNLOCK k dvp; ret () });
         vn_lock k v (locked OR LK_RETRY);
         vfs_rel k p;
         ret (error, dvp, buf, buflen) } } }"

definition tpt_read_pgcache :: "kernel \<Rightarrow> vp \<Rightarrow> nat \<Rightarrow> u32 \<Rightarrow> nat \<Rightarrow> errno km" where
  "tpt_read_pgcache k v uio ioflag cred = do {
     xp \<leftarrow> asks (\<lambda>w. VTONULL w v);
     if xp = 0 then ret EJUSTRETURN
     else do {
       lvp \<leftarrow> asks (\<lambda>w. tpt_lowervp (nodes w xp));
       vref k lvp;
       error \<leftarrow> VOP_READ_PGCACHE k lvp uio ioflag cred;
       vrele k lvp;
       ret error } }"

text \<open>\<open>vpp\<close> is \<open>None\<close> when the pointer is \<open>NULL\<close>.\<close>

definition vput_pair_after :: "kernel \<Rightarrow> vp \<Rightarrow> mp \<Rightarrow> vp \<Rightarrow> bool \<Rightarrow> vp option \<Rightarrow> vp option km" where
  "vput_pair_after k v p lvp unlock vpp = do {
     split \<leftarrow> asks (\<lambda>w. \<not> unlock \<and> v_vnlock (vnodes w v) \<noteq> v_vnlock (vnodes w lvp));
     vpp \<leftarrow> (if split then do {
         (error, vp1) \<leftarrow> tpt_nodeget k p lvp;
         if error = 0 then do { vput k v; ret (Some vp1) } else ret vpp }
       else ret vpp);
     whenM unlock (vrele k v);
     vdrop k v;
     ret vpp }"

definition tpt_vput_pair :: "kernel \<Rightarrow> vp \<Rightarrow> vp option \<Rightarrow> bool \<Rightarrow> (errno \<times> vp option) km" where
  "tpt_vput_pair k dvp vpp unlock = do {
     ldvp \<leftarrow> asks (\<lambda>w. NULLVPTOLOWERVP w dvp);
     vref k ldvp;
     (case vpp of
        Some v \<Rightarrow>
          (if v \<noteq> NULLVP then do {
             vhold k v;
             p \<leftarrow> asks (\<lambda>w. v_mount (vnodes w v));
             lvp \<leftarrow> asks (\<lambda>w. NULLVPTOLOWERVP w v);
             whenM unlock (vref k lvp);
             (res, lvp) \<leftarrow> VOP_VPUT_PAIR k ldvp lvp unlock;
             vpp \<leftarrow> vput_pair_after k v p lvp unlock vpp;
             vrele k dvp;
             ret (res, vpp) }
           else do {
             (res, lvp) \<leftarrow> VOP_VPUT_PAIR k ldvp NULLVP unlock;
             vrele k dvp;
             ret (res, vpp) })
      | None \<Rightarrow> do {
          (res, lvp) \<leftarrow> VOP_VPUT_PAIR k ldvp NULLVP unlock;
          vrele k dvp;
          ret (res, vpp) }) }"

section \<open>What the bypass routine passes down\<close>

text \<open>A description with \<open>c\<close> vnode arguments, at different offsets.\<close>

definition vp_args :: "vnodeop_desc \<Rightarrow> nat \<Rightarrow> bool" where
  "vp_args d c \<longleftrightarrow> 0 < c \<and> c \<le> VDESC_MAX_VPS \<and> (\<forall>i<c. vdesc_vp_offsets d i \<noteq> VDESC_NO_OFFSET)
     \<and> (c = VDESC_MAX_VPS \<or> vdesc_vp_offsets d c = VDESC_NO_OFFSET) \<and> inj_on (vdesc_vp_offsets d) {..<c}"

definition is_mapped :: "world \<Rightarrow> nat \<Rightarrow> vp \<Rightarrow> bool" where
  "is_mapped w i v \<longleftrightarrow> i = 0 \<or> v \<noteq> NULLVP \<and> v_op (vnodes w v) = tpt_vnodeops"

text \<open>Two worlds that differ in use counts only.\<close>

definition same_but_uses :: "world \<Rightarrow> world \<Rightarrow> bool" where
  "same_but_uses w w' \<longleftrightarrow> (\<exists>g. w' = w\<lparr>vnodes := (\<lambda>v. (vnodes w v)\<lparr>v_usecount := g v\<rparr>)\<rparr>)"

lemma same_but_uses_refl [simp]: "same_but_uses w w"
  by (auto simp: same_but_uses_def intro!: exI [of _ "\<lambda>v. v_usecount (vnodes w v)"])

lemma same_but_uses_add [simp]: "same_but_uses w (add_use v n w)"
  by (auto simp: same_but_uses_def add_use_def upd_vnode_def fun_eq_iff
      intro!: exI [of _ "\<lambda>u. v_usecount (vnodes w u) + (if u = v then n else 0)"] world.equality)

lemma same_but_uses_trans: "same_but_uses w w' \<Longrightarrow> same_but_uses w' w'' \<Longrightarrow> same_but_uses w w''"
  by (auto simp: same_but_uses_def)

lemma same_but_uses_more: "same_but_uses w w' \<Longrightarrow> same_but_uses w (add_use v n w')"
  by (rule same_but_uses_trans [OF _ same_but_uses_add])

lemma same_but_uses_reads:
  assumes "same_but_uses w w'"
  shows "is_mapped w' = is_mapped w" "NULLVPTOLOWERVP w' = NULLVPTOLOWERVP w" "v_mount (vnodes w' v) = v_mount (vnodes w v)"
    "tpt_node_hashtbl w' = tpt_node_hashtbl w" "nodes w' = nodes w" "v_vnlock (vnodes w' v) = v_vnlock (vnodes w v)"
  using assms by (auto simp: same_but_uses_def is_mapped_def NULLVPTOLOWERVP_def VTONULL_def fun_eq_iff)

lemma rele_bit: "drop_bit i f AND VDESC_VP0_WILLRELE \<noteq> 0 \<longleftrightarrow> bit f i" for f :: u32
  by (simp add: VDESC_VP0_WILLRELE_def and_one_eq bit_iff_odd_drop_bit odd_iff_mod_2_eq_one)

text \<open>The references that the loop takes for the arguments from the i-th on.\<close>

definition taken :: "world \<Rightarrow> vnodeop_desc \<Rightarrow> nat \<Rightarrow> nat \<Rightarrow> vop_args \<Rightarrow> vp \<Rightarrow> nat set" where
  "taken w d i c ap u = {j. i \<le> j \<and> j < c \<and> is_mapped w j (a_vps ap (vdesc_vp_offsets d j)) \<and> bit (vdesc_flags d) j
     \<and> NULLVPTOLOWERVP w (a_vps ap (vdesc_vp_offsets d j)) = u}"

lemma taken_step:
  assumes "i < c"
  shows "taken w d i c ap u = (if is_mapped w i (a_vps ap (vdesc_vp_offsets d i)) \<and> bit (vdesc_flags d) i
      \<and> NULLVPTOLOWERVP w (a_vps ap (vdesc_vp_offsets d i)) = u then {i} else {}) \<union> taken w d (Suc i) c ap u"
proof -
  have split: "i \<le> j \<and> j < c \<longleftrightarrow> j = i \<or> Suc i \<le> j \<and> j < c" for j using assms by auto
  have "{j. i \<le> j \<and> j < c \<and> P j} = (if P i then {i} else {}) \<union> {j. Suc i \<le> j \<and> j < c \<and> P j}" for P
    using split by (simp add: conj_assoc [symmetric] del: conj_assoc) blast
  then show ?thesis by (simp add: taken_def)
qed

lemma taken_card:
  assumes "i < c"
  shows "card (taken w d i c ap u) = (if is_mapped w i (a_vps ap (vdesc_vp_offsets d i)) \<and> bit (vdesc_flags d) i
      \<and> NULLVPTOLOWERVP w (a_vps ap (vdesc_vp_offsets d i)) = u then 1 else 0) + card (taken w d (Suc i) c ap u)"
proof -
  have "finite (taken w d (Suc i) c ap u)" "i \<notin> taken w d (Suc i) c ap u" by (simp_all add: taken_def)
  then show ?thesis by (subst taken_step [OF assms]) simp
qed

text \<open>What the loop yields when it starts at the i-th argument.\<close>

definition mapped_in :: "vnodeop_desc \<Rightarrow> nat \<Rightarrow> nat \<Rightarrow> vop_args \<Rightarrow> world \<Rightarrow> vp list \<Rightarrow> vop_args \<Rightarrow> world \<Rightarrow> bool" where
  "mapped_in d c i ap w olds ap' w' \<longleftrightarrow>
     olds = map (\<lambda>j. let v = a_vps ap (vdesc_vp_offsets d j) in if is_mapped w j v then v else NULLVP) [i..<c]
     \<and> ap' = ap\<lparr>a_vps := a_vps ap'\<rparr> \<and> (\<forall>o'. o' \<notin> vdesc_vp_offsets d ` {i..<c} \<longrightarrow> a_vps ap' o' = a_vps ap o')
     \<and> (\<forall>j. i \<le> j \<and> j < c \<longrightarrow> a_vps ap' (vdesc_vp_offsets d j) = (let v = a_vps ap (vdesc_vp_offsets d j) in
              if is_mapped w j v then NULLVPTOLOWERVP w v else v))
     \<and> same_but_uses w w' \<and> (\<forall>u. v_usecount (vnodes w' u) = v_usecount (vnodes w u) + int (card (taken w d i c ap u)))"

lemma mapped_in_end: "mapped_in d c c ap w [] ap w"
  by (simp add: mapped_in_def taken_def)

lemma bypass_in_step:
  assumes "vref_counts k" "vdesc_vp_offsets d i \<noteq> VDESC_NO_OFFSET"
  shows "run_state (bypass_in k d (Suc n) i (drop_bit i (vdesc_flags d)) ap) w =
    (let v = a_vps ap (vdesc_vp_offsets d i); m = is_mapped w i v;
         ap1 = (if m then set_vp d i (NULLVPTOLOWERVP w v) ap else ap);
         w1 = (if m \<and> bit (vdesc_flags d) i then add_use (NULLVPTOLOWERVP w v) 1 w else w)
     in case run_state (bypass_in k d n (Suc i) (drop_bit (Suc i) (vdesc_flags d)) ap1) w1 of
       ((olds, ap'), w') \<Rightarrow> (((if m then v else NULLVP) # olds, ap'), w'))"
  using assms by (auto simp: Let_def is_mapped_def rele_bit vref_run split: prod.split)

lemma mapped_in_step:
  assumes "vp_args d c" "i < c"
    and v_def: "v = a_vps ap (vdesc_vp_offsets d i)" and m_def: "m = is_mapped w i v"
    and rest: "mapped_in d c (Suc i) (if m then set_vp d i (NULLVPTOLOWERVP w v) ap else ap)
     (if m \<and> bit (vdesc_flags d) i then add_use (NULLVPTOLOWERVP w v) 1 w else w) olds ap' w'"
  shows "mapped_in d c i ap w ((if m then v else NULLVP) # olds) ap' w'"
proof -
  define ap1 where "ap1 = (if m then set_vp d i (NULLVPTOLOWERVP w v) ap else ap)"
  define w1 where "w1 = (if m \<and> bit (vdesc_flags d) i then add_use (NULLVPTOLOWERVP w v) 1 w else w)"
  have s: "same_but_uses w w1" by (simp add: w1_def)
  have inj: "inj_on (vdesc_vp_offsets d) {..<c}" using assms(1) by (simp add: vp_args_def)
  have off: "vdesc_vp_offsets d j \<noteq> vdesc_vp_offsets d i" if "Suc i \<le> j" "j < c" for j
    using inj_onD [OF inj, of j i] assms(2) that by auto
  have arg: "a_vps ap1 (vdesc_vp_offsets d j) = a_vps ap (vdesc_vp_offsets d j)" if "Suc i \<le> j" "j < c" for j
    using off [OF that] by (simp add: ap1_def set_vp_def)
  have ap1: "ap1\<lparr>a_vps := f\<rparr> = ap\<lparr>a_vps := f\<rparr>" for f by (simp add: ap1_def set_vp_def)
  have "taken w1 d (Suc i) c ap1 u = taken w d (Suc i) c ap u" for u
    unfolding taken_def same_but_uses_reads(1,2) [OF s] using arg by auto
  moreover have "v_usecount (vnodes w1 u) = v_usecount (vnodes w u) + (if m \<and> bit (vdesc_flags d) i \<and> NULLVPTOLOWERVP w v = u then 1 else 0)" for u
    by (simp add: w1_def)
  moreover note M = rest [folded ap1_def w1_def, unfolded mapped_in_def same_but_uses_reads(1,2) [OF s]]
  ultimately have "\<forall>u. v_usecount (vnodes w' u) = v_usecount (vnodes w u) + int (card (taken w d i c ap u))"
    using taken_card [OF assms(2), of w d ap] by (simp add: v_def m_def)
  moreover have "same_but_uses w w'" using s M same_but_uses_trans by blast
  moreover have "(if m then v else NULLVP) # olds = map (\<lambda>j. let v = a_vps ap (vdesc_vp_offsets d j) in if is_mapped w j v then v else NULLVP) [i..<c]"
    using M assms(2) arg by (simp add: upt_conv_Cons v_def m_def Let_def)
  moreover have "a_vps ap' o' = a_vps ap o'" if "o' \<notin> vdesc_vp_offsets d ` {i..<c}" for o'
  proof -
    have "o' \<notin> vdesc_vp_offsets d ` {Suc i..<c}" "o' \<noteq> vdesc_vp_offsets d i" using that assms(2) by force+
    then show ?thesis using M by (simp add: ap1_def set_vp_def)
  qed
  moreover have "a_vps ap' (vdesc_vp_offsets d j) = (let v = a_vps ap (vdesc_vp_offsets d j) in if is_mapped w j v then NULLVPTOLOWERVP w v else v)"
    if "i \<le> j" "j < c" for j
  proof (cases "j = i")
    case True
    have "vdesc_vp_offsets d i \<notin> vdesc_vp_offsets d ` {Suc i..<c}" using off by force
    then have "a_vps ap' (vdesc_vp_offsets d i) = a_vps ap1 (vdesc_vp_offsets d i)" using M by blast
    then show ?thesis using True by (simp add: ap1_def set_vp_def v_def m_def Let_def)
  qed (use M that arg in \<open>simp add: Let_def\<close>)
  moreover have "ap' = ap\<lparr>a_vps := a_vps ap'\<rparr>" using M ap1 by metis
  ultimately show ?thesis unfolding mapped_in_def by blast
qed

lemma bypass_in_run:
  assumes "vref_counts k" "vp_args d c" "i \<le> c" "n = VDESC_MAX_VPS - i"
  shows "\<exists>olds ap' w'. run_state (bypass_in k d n i (drop_bit i (vdesc_flags d)) ap) w = ((olds, ap'), w') \<and> mapped_in d c i ap w olds ap' w'"
  using assms(3,4)
proof (induction n arbitrary: i ap w)
  case 0
  then have "i = c" using assms(2) by (simp add: vp_args_def)
  then show ?case using mapped_in_end by auto
next
  case (Suc n)
  show ?case
  proof (cases "i = c")
    case True
    then have "vdesc_vp_offsets d i = VDESC_NO_OFFSET" using assms(2) Suc.prems by (auto simp: vp_args_def)
    then show ?thesis using True mapped_in_end by auto
  next
    case False
    then have i: "i < c" "vdesc_vp_offsets d i \<noteq> VDESC_NO_OFFSET" using Suc.prems assms(2) by (simp_all add: vp_args_def)
    have "Suc i \<le> c" "n = VDESC_MAX_VPS - Suc i" using i Suc.prems by simp_all
    note IH = Suc.IH [OF this]
    define v where "v = a_vps ap (vdesc_vp_offsets d i)"
    define m where "m = is_mapped w i v"
    from IH [of "if m then set_vp d i (NULLVPTOLOWERVP w v) ap else ap"
        "if m \<and> bit (vdesc_flags d) i then add_use (NULLVPTOLOWERVP w v) 1 w else w"]
    show ?thesis
      using bypass_in_step [OF assms(1) i(2), of n ap w, folded v_def, unfolded Let_def, folded m_def]
        mapped_in_step [OF assms(2) i(1) v_def m_def] by fastforce
  qed
qed

text \<open>What the second loop does to the arguments does not depend on the world.\<close>

primrec restore :: "vnodeop_desc \<Rightarrow> vp list \<Rightarrow> nat \<Rightarrow> vop_args \<Rightarrow> vop_args" where
  "restore d [] i ap = ap"
| "restore d (old # olds) i ap = restore d olds (Suc i) (if old = NULLVP then ap else set_vp d i old ap)"

lemma bypass_out_args: "fst (run_state (bypass_out k d olds i r ap) w) = restore d olds i ap"
  by (induction olds arbitrary: i r ap w) (simp_all add: case_prod_beta)

lemma restore_args:
  assumes "inj_on (vdesc_vp_offsets d) {..<c}" "i \<le> c"
  shows "(\<forall>j. i \<le> j \<and> j < c \<longrightarrow> a_vps (restore d (map g [i..<c]) i ap) (vdesc_vp_offsets d j) =
       (if g j = NULLVP then a_vps ap (vdesc_vp_offsets d j) else g j))
     \<and> (\<forall>o'. o' \<notin> vdesc_vp_offsets d ` {i..<c} \<longrightarrow> a_vps (restore d (map g [i..<c]) i ap) o' = a_vps ap o')"
  using assms(2)
proof (induction "c - i" arbitrary: i ap)
  case 0
  then show ?case by simp
next
  case (Suc n)
  define ap1 where "ap1 = (if g i = NULLVP then ap else set_vp d i (g i) ap)"
  have i: "i < c" "n = c - Suc i" "Suc i \<le> c" using Suc by simp_all
  have r: "restore d (map g [i..<c]) i ap = restore d (map g [Suc i..<c]) (Suc i) ap1"
    using i by (simp add: upt_conv_Cons ap1_def)
  have off: "vdesc_vp_offsets d j \<noteq> vdesc_vp_offsets d i" if "Suc i \<le> j" "j < c" for j
    using inj_onD [OF assms(1), of j i] i that by auto
  have IH: "\<And>j. Suc i \<le> j \<Longrightarrow> j < c \<Longrightarrow> a_vps (restore d (map g [Suc i..<c]) (Suc i) ap1) (vdesc_vp_offsets d j) =
       (if g j = NULLVP then a_vps ap1 (vdesc_vp_offsets d j) else g j)"
    "\<And>o'. o' \<notin> vdesc_vp_offsets d ` {Suc i..<c} \<Longrightarrow> a_vps (restore d (map g [Suc i..<c]) (Suc i) ap1) o' = a_vps ap1 o'"
    using Suc.hyps(1) [OF i(2,3), of ap1] by blast+
  have "vdesc_vp_offsets d i \<notin> vdesc_vp_offsets d ` {Suc i..<c}" using off by force
  then have first: "a_vps (restore d (map g [i..<c]) i ap) (vdesc_vp_offsets d i) = (if g i = NULLVP then a_vps ap (vdesc_vp_offsets d i) else g i)"
    unfolding r using IH(2) by (simp add: ap1_def set_vp_def)
  have "a_vps (restore d (map g [i..<c]) i ap) (vdesc_vp_offsets d j) = (if g j = NULLVP then a_vps ap (vdesc_vp_offsets d j) else g j)"
    if "i \<le> j" "j < c" for j
  proof (cases "j = i")
    case False
    then have "Suc i \<le> j" using that by simp
    then show ?thesis unfolding r using IH(1) [OF _ that(2)] off [OF _ that(2)] by (simp add: ap1_def set_vp_def)
  qed (simp add: first)
  moreover have "a_vps (restore d (map g [i..<c]) i ap) o' = a_vps ap o'" if "o' \<notin> vdesc_vp_offsets d ` {i..<c}" for o'
  proof -
    have "o' \<notin> vdesc_vp_offsets d ` {Suc i..<c}" "o' \<noteq> vdesc_vp_offsets d i" using that i by force+
    then show ?thesis unfolding r using IH(2) by (simp add: ap1_def set_vp_def)
  qed
  ultimately show ?case by blast
qed

lemma restore_in:
  assumes "vp_args d c" "mapped_in d c 0 ap w olds ap1 w1" "a_vps ap2 = a_vps ap1" "a_vps ap (vdesc_vp_offsets d 0) \<noteq> NULLVP"
  shows "a_vps (restore d olds 0 ap2) = a_vps ap"
proof
  fix off
  define g where "g = (\<lambda>j. let v = a_vps ap (vdesc_vp_offsets d j) in if is_mapped w j v then v else NULLVP)"
  have olds: "olds = map g [0..<c]" using assms(2) by (simp add: mapped_in_def g_def)
  have inj: "inj_on (vdesc_vp_offsets d) {..<c}" using assms(1) by (simp add: vp_args_def)
  note R = restore_args [OF inj, of 0 g ap2, simplified, folded olds [simplified]]
  show "a_vps (restore d olds 0 ap2) off = a_vps ap off"
  proof (cases "off \<in> vdesc_vp_offsets d ` {0..<c}")
    case True
    then obtain j where j: "j < c" "off = vdesc_vp_offsets d j" by auto
    have m: "is_mapped w j (a_vps ap off) \<Longrightarrow> a_vps ap off \<noteq> NULLVP" using assms(4) j by (auto simp: is_mapped_def)
    have "a_vps ap1 off = (if is_mapped w j (a_vps ap off) then NULLVPTOLOWERVP w (a_vps ap off) else a_vps ap off)"
      using assms(2) j by (simp add: mapped_in_def Let_def)
    moreover have "a_vps (restore d olds 0 ap2) off = (if g j = NULLVP then a_vps ap1 off else g j)" using R j assms(3) by simp
    ultimately show ?thesis using m j by (cases "is_mapped w j (a_vps ap off)") (simp_all add: g_def Let_def)
  next
    case False
    then have "a_vps ap1 off = a_vps ap off" using assms(2) by (simp add: mapped_in_def)
    then show ?thesis using R False assms(3) by simp
  qed
qed

section \<open>Properties\<close>

text \<open>C4: \<open>tpt_bypass\<close>, for an operation that returns no vnode, calls the operation below with the
  lower vnode in the place of every argument that is the layer's (the first always), every other argument as it is, and
  with one reference more on the lower vnode for each such argument the operation will release.
  It returns the error of the operation below, and the caller's argument structure has its own
  vnodes again.\<close>

theorem tpt_bypass_lower:
  assumes "vref_counts k" "d = a_desc ap" "vp_args d c" "vdesc_vpp_offset d = VDESC_NO_OFFSET"
    "vp_arg ap 0 \<noteq> NULLVP" "NULLVPTOLOWERVP w (vp_arg ap 0) \<noteq> NULLVP"
    "\<forall>a w. a_vps (snd (fst (run_state (VCALL k a) w))) = a_vps a"
  shows "\<exists>ap1 w1. ap1 = ap\<lparr>a_vps := a_vps ap1\<rparr>
    \<and> (\<forall>i<c. vp_arg ap1 i = (if is_mapped w i (vp_arg ap i) then NULLVPTOLOWERVP w (vp_arg ap i) else vp_arg ap i))
    \<and> same_but_uses w w1
    \<and> (\<forall>u. v_usecount (vnodes w1 u) = v_usecount (vnodes w u) + int (card {i. i < c \<and> is_mapped w i (vp_arg ap i)
          \<and> bit (vdesc_flags d) i \<and> NULLVPTOLOWERVP w (vp_arg ap i) = u}))
    \<and> fst (fst (run_state (tpt_bypass k ap) w)) = fst (fst (run_state (VCALL k ap1) w1))
    \<and> a_vps (snd (fst (run_state (tpt_bypass k ap) w))) = a_vps ap"
proof -
  from bypass_in_run [OF assms(1,3), of 0 VDESC_MAX_VPS ap w]
  obtain olds ap1 w1 where r: "run_state (bypass_in k d VDESC_MAX_VPS 0 (vdesc_flags d) ap) w = ((olds, ap1), w1)"
    and M: "mapped_in d c 0 ap w olds ap1 w1" by auto
  have c: "0 < c" using assms(3) by (simp add: vp_args_def)
  have olds: "olds \<noteq> []" using M c by (auto simp: mapped_in_def)
  have desc: "a_desc ap1 = d" using M assms(2) by (metis mapped_in_def vop_args.select_convs(1) vop_args.surjective vop_args.update_convs(2))
  have args: "\<forall>i<c. vp_arg ap1 i = (if is_mapped w i (vp_arg ap i) then NULLVPTOLOWERVP w (vp_arg ap i) else vp_arg ap i)"
    using M desc assms(2) by (simp add: mapped_in_def vp_arg_def Let_def)
  then have low: "a_vps ap1 (vdesc_vp_offsets d 0) \<noteq> NULLVP" using c assms(6) desc by (simp add: is_mapped_def vp_arg_def)
  obtain e ap2 w2 where v: "run_state (VCALL k ap1) w1 = ((e, ap2), w2)" by (metis prod.exhaust)
  have ap2: "a_vps ap2 = a_vps ap1" using assms(7) v by (metis fst_conv snd_conv)
  obtain w3 where o: "run_state (bypass_out k d olds 0 (vdesc_flags d) ap2) w2 = (restore d olds 0 ap2, w3)"
    using bypass_out_args by (metis prod.collapse)
  have run: "run_state (tpt_bypass k ap) w = ((e, restore d olds 0 ap2), w3)"
    using r olds low v o by (simp add: tpt_bypass_def Let_def bypass_vpp_def assms(4) flip: assms(2))
  have "a_vps (restore d olds 0 ap2) = a_vps ap"
    using restore_in [OF assms(3) M ap2] assms(2,5) by (simp add: vp_arg_def)
  with run v args M assms(2) show ?thesis
    by (intro exI [of _ ap1] exI [of _ w1]) (simp add: mapped_in_def taken_def vp_arg_def)
qed

text \<open>An alias, vnode 9 with the node 1, of vnode 5 on the mount point 1, opened for writing twice.\<close>

definition alias_world :: world where
  "alias_world = quiet_world\<lparr>
     vnodes := (vnodes quiet_world)(9 := blank_vnode\<lparr>v_type := VREG, v_op := tpt_vnodeops, v_data := 1, v_mount := 1, v_vnlock := 5,
        v_usecount := 2, v_writecount := 2\<rparr>, 5 := blank_vnode\<lparr>v_type := VREG, v_vnlock := 5, v_usecount := 3, v_writecount := 2\<rparr>),
     nodes := (nodes quiet_world)(1 := \<lparr>tpt_lowervp = 5, tpt_vnode = 9, tpt_flags = 0\<rparr>),
     tpt_node_hashtbl := (\<lambda>b. if b = 5 then [1] else [])\<rparr>"

definition sample_args :: vop_args where
  "sample_args = \<lparr>a_desc = \<lparr>vdesc_flags = 1, vdesc_vp_offsets = (\<lambda>i. if i = 0 then 8 else - 1), vdesc_vpp_offset = - 1\<rparr>,
     a_vps = (\<lambda>_. 9), a_vpps = (\<lambda>_. None), a_vap = \<lparr>va_mode = 0, va_uid = - 1, va_gid = - 1, va_fsid = 0, va_size = 0, va_flags = - 1,
       va_atime_sec = - 1, va_mtime_sec = - 1\<rparr>, a_st_dev = 0, a_accmode = VWRITE\<rparr>"

lemma sample_args_sel [simp]: "vp_arg sample_args 0 = 9" "vp_args (a_desc sample_args) 1" "vdesc_vpp_offset (a_desc sample_args) = VDESC_NO_OFFSET"
  by (simp_all add: sample_args_def vp_arg_def vp_args_def VDESC_NO_OFFSET_def VDESC_MAX_VPS_def lessThan_Suc)

lemma alias_world_sel [simp]: "VTONULL alias_world 9 = 1" "NULLVPTOLOWERVP alias_world 9 = 5" "hashed alias_world = {1}"
  "NULLTOV alias_world 1 = 9" "alias_key alias_world 1 = (1, 5)" "v_mount (vnodes alias_world 9) = 1"
  by (auto simp: alias_world_def VTONULL_def NULLVPTOLOWERVP_def hashed_def NULLTOV_def alias_key_def split: if_splits)

lemma alias_world_ok [simp]: "hash_ok quiet_kernel alias_world"
  by (auto simp: hash_ok_def) (simp_all add: alias_world_def quiet_world_def NULL_NHASH_def split: if_splits)

theorem tpt_bypass_lower_witness:
  "\<exists>ap1 w1. vp_arg ap1 0 = 5 \<and> v_usecount (vnodes w1 5) = 4
    \<and> fst (fst (run_state (tpt_bypass quiet_kernel sample_args) alias_world)) = fst (fst (run_state (VCALL quiet_kernel ap1) w1))"
proof -
  have bit: "bit (vdesc_flags (a_desc sample_args)) 0" by (simp add: sample_args_def)
  have "{i. i < 1 \<and> is_mapped alias_world i (vp_arg sample_args i) \<and> bit (vdesc_flags (a_desc sample_args)) i
      \<and> NULLVPTOLOWERVP alias_world (vp_arg sample_args i) = 5} = {0}" using bit by (auto simp: is_mapped_def)
  then have card: "card {i. i < 1 \<and> is_mapped alias_world i (vp_arg sample_args i) \<and> bit (vdesc_flags (a_desc sample_args)) i
      \<and> NULLVPTOLOWERVP alias_world (vp_arg sample_args i) = 5} = 1" by simp
  have "v_usecount (vnodes alias_world 5) = 3" by (simp add: alias_world_def)
  moreover have "is_mapped alias_world 0 (vp_arg sample_args 0)" by (simp add: is_mapped_def)
  moreover have p: "vp_arg sample_args 0 \<noteq> NULLVP" "NULLVPTOLOWERVP alias_world (vp_arg sample_args 0) \<noteq> NULLVP"
    "\<forall>a w. a_vps (snd (fst (run_state (VCALL quiet_kernel a) w))) = a_vps a" by simp_all
  from tpt_bypass_lower [OF quiet_refs(1) refl sample_args_sel(2,3) p]
  obtain ap1 w1 where "\<forall>i<1. vp_arg ap1 i = (if is_mapped alias_world i (vp_arg sample_args i)
        then NULLVPTOLOWERVP alias_world (vp_arg sample_args i) else vp_arg sample_args i)"
    and u: "\<forall>u. v_usecount (vnodes w1 u) = v_usecount (vnodes alias_world u) + int (card {i. i < 1 \<and> is_mapped alias_world i (vp_arg sample_args i)
          \<and> bit (vdesc_flags (a_desc sample_args)) i \<and> NULLVPTOLOWERVP alias_world (vp_arg sample_args i) = u})"
    and "fst (fst (run_state (tpt_bypass quiet_kernel sample_args) alias_world)) = fst (fst (run_state (VCALL quiet_kernel ap1) w1))"
    by (elim exE conjE)
  moreover have "v_usecount (vnodes w1 5) = v_usecount (vnodes alias_world 5) + 1" using u [rule_format, of 5] unfolding card by simp
  ultimately show ?thesis by (intro exI [of _ ap1] exI [of _ w1]) simp
qed

text \<open>C30: a layer that is mounted read-only refuses, before anything is asked of the file system below
  and with the world unchanged: to set an attribute, or the size of a file or a symbolic link; write access to a
  directory, a file or a symbolic link, by both access checks; the lookup of a last component that is to be deleted or renamed.\<close>

theorem readonly_layer_refuses:
  assumes "readonly w (v_mount (vnodes w v))" "vp_arg ap 0 = v"
  shows "(vattr_set (a_vap ap) \<or> va_size (a_vap ap) \<noteq> - 1 \<and> v_type (vnodes w v) \<in> {VREG, VLNK}
            \<longrightarrow> run_state (tpt_setattr k ap) w = ((EROFS, ap), w))
    \<and> (a_accmode ap AND VWRITE \<noteq> 0 \<and> v_type (vnodes w v) \<in> {VDIR, VREG, VLNK}
            \<longrightarrow> run_state (tpt_access k ap) w = ((EROFS, ap), w) \<and> run_state (tpt_accessx k ap) w = ((EROFS, ap), w))
    \<and> (cn_flags cnp AND ISLASTCN \<noteq> 0 \<and> cn_nameiop cnp \<in> {DELETE, RENAME}
            \<longrightarrow> run_state (tpt_lookup k v vpp cnp) w = ((EROFS, vpp, cnp), w))"
  using assms by (auto simp: tpt_setattr_def tpt_access_def tpt_accessx_def tpt_lookup_def Let_def)

definition readonly_world :: world where
  "readonly_world = upd_mount 1 (\<lambda>m. m\<lparr>mnt_flag := MNT_RDONLY\<rparr>) alias_world"

theorem readonly_layer_refuses_witness:
  "run_state (tpt_setattr quiet_kernel sample_args) readonly_world = ((EROFS, sample_args), readonly_world)
    \<and> run_state (tpt_access quiet_kernel sample_args) readonly_world = ((EROFS, sample_args), readonly_world)
    \<and> run_state (tpt_lookup quiet_kernel 9 0 \<lparr>cn_nameiop = DELETE, cn_flags = ISLASTCN, cn_nameptr = ''f''\<rparr>) readonly_world
        = ((EROFS, 0, \<lparr>cn_nameiop = DELETE, cn_flags = ISLASTCN, cn_nameptr = ''f''\<rparr>), readonly_world)"
proof -
  have "readonly readonly_world (v_mount (vnodes readonly_world 9))" "v_type (vnodes readonly_world 9) = VREG"
    by (simp_all add: readonly_def readonly_world_def MNT_RDONLY_def) (simp add: alias_world_def)
  moreover have "va_size (a_vap sample_args) \<noteq> - 1" "a_accmode sample_args AND VWRITE \<noteq> 0"
    by (simp_all add: sample_args_def VWRITE_def)
  ultimately show ?thesis
    using readonly_layer_refuses [of readonly_world 9 sample_args quiet_kernel
        "\<lparr>cn_nameiop = DELETE, cn_flags = ISLASTCN, cn_nameptr = ''f''\<rparr>" 0] by (simp add: ISLASTCN_def)
qed

section \<open>Releases\<close>

text \<open>
  \<open>vput(9)\<close> and \<open>vunref(9)\<close> take a use reference like \<open>vrele(9)\<close>; \<open>lockmgr(9)\<close> and \<open>free(9)\<close> change no
  field of the world; \<open>VOP_ADD_WRITECOUNT(9)\<close> adds to the write count, unless it is negative, which
  means that the file is executed: then it is \<open>ETXTBSY\<close>.
\<close>

definition release_counts :: "kernel \<Rightarrow> bool" where
  "release_counts k \<longleftrightarrow> vrele_counts k
     \<and> (\<forall>v w. 1 < v_usecount (vnodes w v) \<longrightarrow> run_state (vput k v) w = ((), add_use v (- 1) w) \<and> run_state (vunref k v) w = ((), add_use v (- 1) w))
     \<and> (\<forall>v w. run_state (lockmgr_exclusive k v) w = ((), w)) \<and> (\<forall>x w. run_state (free_node k x) w = ((), w))
     \<and> (\<forall>v i w. run_state (VOP_ADD_WRITECOUNT k v i) w =
          (if v_writecount (vnodes w v) < 0 then (ETXTBSY, w) else (0, upd_vnode v (\<lambda>n. n\<lparr>v_writecount := v_writecount n + i\<rparr>) w)))"

lemma quiet_release [simp]: "release_counts quiet_kernel"
  by (simp add: release_counts_def)

lemma release_run:
  assumes "release_counts k" "1 < v_usecount (vnodes w v)"
  shows "run_state (vput k v) w = ((), add_use v (- 1) w)" "run_state (vunref k v) w = ((), add_use v (- 1) w)"
    "run_state (vrele k v) w = ((), add_use v (- 1) w)"
  using assms by (simp_all add: release_counts_def vrele_counts_def)

lemma reclaim_run:
  assumes "release_counts k" "VTONULL w v = x" "tpt_lowervp (nodes w x) = l" "v \<noteq> l" "1 < v_usecount (vnodes w l)"
  shows "run_state (tpt_reclaim k v) w = (0, add_use l (- 1)
    (let w' = upd_vnode v (\<lambda>n. n\<lparr>v_data := 0, v_object := 0, v_vnlock := v\<rparr>) (hash_remove x w); wc = v_writecount (vnodes w v) in
     if wc > 0 then (if v_writecount (vnodes w l) < 0 then w' else upd_vnode l (\<lambda>n. n\<lparr>v_writecount := v_writecount n - wc\<rparr>) w')
     else if wc < 0 then upd_vnode v (\<lambda>n. n\<lparr>v_writecount := 0\<rparr>) w' else w'))"
proof -
  have l: "run_state (lockmgr_exclusive k u) w' = ((), w')" "run_state (free_node k y) w' = ((), w')"
    "run_state (VOP_ADD_WRITECOUNT k u i) w' =
      (if v_writecount (vnodes w' u) < 0 then (ETXTBSY, w') else (0, upd_vnode u (\<lambda>n. n\<lparr>v_writecount := v_writecount n + i\<rparr>) w'))" for u y i w'
    using assms(1) by (simp_all add: release_counts_def)
  show ?thesis
    using assms(2-5) by (simp add: tpt_reclaim_def tpt_hashrem_def l Let_def release_run [OF assms(1)])
qed

text \<open>C8: \<open>tpt_reclaim\<close> of the alias of a lower vnode takes it out of the table and leaves the other
  aliases there; the vnode has no node and its own lock again, and the lower vnode loses the
  reference of the alias and the write counts that were taken through it, unless the lower vnode refuses since it is
  executed, with a negative write count.\<close>

theorem tpt_reclaim_alias:
  assumes "release_counts k" "hash_ok k w" "VTONULL w v = x" "x \<in> hashed w" "alias_key w x = (p, l)" "v \<noteq> l"
    "1 < v_usecount (vnodes w l)"
  shows "\<exists>w'. run_state (tpt_reclaim k v) w = (0, w') \<and> hash_ok k w'
    \<and> (\<forall>q. hash_find k w' (fst q) (snd q) = (if q = (p, l) then None else hash_find k w (fst q) (snd q)))
    \<and> VTONULL w' v = 0 \<and> v_vnlock (vnodes w' v) = v \<and> v_usecount (vnodes w' l) = v_usecount (vnodes w l) - 1
    \<and> v_writecount (vnodes w' l) = v_writecount (vnodes w l) - (if v_writecount (vnodes w l) < 0 then 0 else max 0 (v_writecount (vnodes w v)))"
proof -
  have low: "tpt_lowervp (nodes w x) = l" using assms(5) by (simp add: alias_key_def)
  define u where "u = hash_remove x w"
  define w' where "w' = snd (run_state (tpt_reclaim k v) w)"
  note run = reclaim_run [OF assms(1,3) low assms(6,7)]
  then have r: "run_state (tpt_reclaim k v) w = (0, w')" by (simp add: w'_def)
  have same: "tpt_node_hashtbl w' = tpt_node_hashtbl u" "tpt_hash_mask w' = tpt_hash_mask u" "nodes w' = nodes u"
    "v_mount (vnodes w' a) = v_mount (vnodes u a)" for a
    unfolding w'_def run u_def by (simp_all add: Let_def)
  have u: "hash_ok k u" using hash_remove_ok [OF assms(2)] by (simp add: u_def)
  have "hash_find k w' (fst q) (snd q) = hash_find k u (fst q) (snd q)" for q
    by (rule hash_find_cong [OF u]) (simp_all add: same)
  moreover have "hash_ok k w'" using hash_ok_cong(1) [of w' u k] u same by simp
  moreover have "hash_find k u (fst q) (snd q) = (if q = (p, l) then None else hash_find k w (fst q) (snd q))" for q
    using at.find_rem [OF assms(2,4), of q] assms(5) by (simp add: u_def)
  moreover have "VTONULL w' v = 0" "v_vnlock (vnodes w' v) = v" "v_usecount (vnodes w' l) = v_usecount (vnodes w l) - 1"
    "v_writecount (vnodes w' l) = v_writecount (vnodes w l) - (if v_writecount (vnodes w l) < 0 then 0 else max 0 (v_writecount (vnodes w v)))"
    unfolding w'_def run using assms(6) by (simp_all add: Let_def VTONULL_def)
  ultimately show ?thesis using r by (intro exI [of _ w']) simp
qed

theorem tpt_reclaim_alias_witness:
  "\<exists>w'. run_state (tpt_reclaim quiet_kernel 9) alias_world = (0, w') \<and> hash_find quiet_kernel w' 1 5 = None
    \<and> v_usecount (vnodes w' 5) = 2 \<and> v_writecount (vnodes w' 5) = 0"
proof -
  have "1 < v_usecount (vnodes alias_world 5)" "v_usecount (vnodes alias_world 5) = 3" "v_writecount (vnodes alias_world 5) = 2"
    "v_writecount (vnodes alias_world 9) = 2" by (simp_all add: alias_world_def)
  moreover have "1 \<in> hashed alias_world" "9 \<noteq> (5::nat)" by simp_all
  ultimately obtain w' where "run_state (tpt_reclaim quiet_kernel 9) alias_world = (0, w')"
    "\<forall>q. hash_find quiet_kernel w' (fst q) (snd q) = (if q = (1, 5) then None else hash_find quiet_kernel alias_world (fst q) (snd q))"
    "v_usecount (vnodes w' 5) = 3 - 1" "v_writecount (vnodes w' 5) = 2 - (if (2 :: int) < 0 then 0 else max 0 2)"
    using tpt_reclaim_alias [OF quiet_release alias_world_ok alias_world_sel(1) _ alias_world_sel(5)] by metis
  then show ?thesis by (intro exI [of _ w']) (auto dest!: spec [of _ "(1, 5)"])
qed

text \<open>C31: \<open>tpt_rename\<close> across mount points returns \<open>EXDEV\<close> without calling the file system below, and
  has released each of the vnodes it was given once, the target only when there is one.\<close>

theorem tpt_rename_cross_device:
  assumes "release_counts k" "[fdvp, fvp, tdvp, tvp] = map (vp_arg ap) [0, 1, 2, 3]"
    "v_mount (vnodes w fvp) \<noteq> v_mount (vnodes w tdvp) \<or> tvp \<noteq> NULLVP \<and> v_mount (vnodes w fvp) \<noteq> v_mount (vnodes w tvp)"
    "\<forall>u\<in>set ([fdvp, fvp, tdvp] @ (if tvp = NULLVP then [] else [tvp])). 4 < v_usecount (vnodes w u)"
  shows "\<exists>w'. run_state (tpt_rename k ap) w = ((EXDEV, ap), w') \<and> same_but_uses w w'
    \<and> (\<forall>u. v_usecount (vnodes w' u) = v_usecount (vnodes w u)
          - int (count_list ([fdvp, fvp, tdvp] @ (if tvp = NULLVP then [] else [tvp])) u))"
proof -
  have args: "vp_arg ap 0 = fdvp" "vp_arg ap (Suc 0) = fvp" "vp_arg ap 2 = tdvp" "vp_arg ap 3 = tvp" using assms(2) by simp_all
  define w1 where "w1 = add_use tdvp (- 1) w"
  define w2 where "w2 = (if tvp = NULLVP then w1 else add_use tvp (- 1) w1)"
  define w3 where "w3 = add_use fvp (- 1) (add_use fdvp (- 1) w2)"
  have r: "run_state (vput k tdvp) w = ((), w1)" "run_state (vrele k tdvp) w = ((), w1)"
    "tvp \<noteq> NULLVP \<Longrightarrow> run_state (vput k tvp) w1 = ((), w2)"
    "run_state (vrele k fdvp) w2 = ((), add_use fdvp (- 1) w2)" "run_state (vrele k fvp) (add_use fdvp (- 1) w2) = ((), w3)"
    using assms(4) by (simp_all add: w1_def w2_def w3_def release_run [OF assms(1)] split: if_splits)
  have "tvp = NULLVP \<Longrightarrow> w2 = w1" by (simp add: w2_def)
  then have "run_state (tpt_rename k ap) w = ((EXDEV, ap), w3)"
    using assms(3) r by (cases "tvp = NULLVP") (auto simp: tpt_rename_def Let_def args)
  moreover have "same_but_uses w w3"
    unfolding w3_def w2_def w1_def by (simp add: same_but_uses_more)
  ultimately show ?thesis by (intro exI [of _ w3]) (simp add: w3_def w2_def w1_def)
qed

definition rename_world :: world where
  "rename_world = quiet_world\<lparr>vnodes := (\<lambda>v. blank_vnode\<lparr>v_mount := (if v \<le> 2 then 1 else 2), v_usecount := 6\<rparr>)\<rparr>"

definition rename_args :: vop_args where
  "rename_args = sample_args\<lparr>a_desc := \<lparr>vdesc_flags = 15, vdesc_vp_offsets = (\<lambda>i. if i < 4 then int i else - 1), vdesc_vpp_offset = - 1\<rparr>,
     a_vps := (\<lambda>i. nat i + 1)\<rparr>"

theorem tpt_rename_cross_device_witness:
  "\<exists>w'. run_state (tpt_rename quiet_kernel rename_args) rename_world = ((EXDEV, rename_args), w') \<and> v_usecount (vnodes w' 4) = 5"
proof -
  have a: "[1, 2, 3, 4] = map (vp_arg rename_args) [0, 1, 2, 3]" by (simp add: rename_args_def vp_arg_def)
  have "v_usecount (vnodes rename_world u) = 6" "v_mount (vnodes rename_world u) = (if u \<le> 2 then 1 else 2)" for u
    by (simp_all add: rename_world_def)
  then show ?thesis
    using tpt_rename_cross_device [OF quiet_release a, of rename_world] by (auto dest!: spec [of _ 4])
qed

end
