(* ===== verification/Tpt_Vfsops.thy ===== *)
theory Tpt_Vfsops
  imports Tpt_Vnops
begin

text \<open>
  \<open>tptfs/tpt_vfsops.c\<close>: the file system operations of the layer.  A loop that may not end
  is a \<open>partial_function\<close>, so that \<open>tptfs_unmount\<close> is a function of the world with the value \<open>None\<close>
  when it does not return; in \<open>tptfs_mount\<close> \<open>None\<close> is a read outside the option's value.
\<close>

section \<open>Mounting\<close>

definition tpt_compute_sb_data :: "vp \<Rightarrow> nat \<Rightarrow> errno km" where
  "tpt_compute_sb_data devvp fs = ret 0"

text \<open>The code at the label \<open>out\<close>.\<close>

definition mountfs_out :: "kernel \<Rightarrow> nat \<Rightarrow> nat \<Rightarrow> errno km" where
  "mountfs_out k bp cp = do {
     whenM (bp \<noteq> 0) (brelse k bp);
     whenM (cp \<noteq> 0) (g_vfs_close k cp);
     ret (- 1) }"

text \<open>\<open>malloc\<close> clears the two structures; \<open>bcopy\<close> copies the whole super block, its two pointers included.\<close>

definition mountfs_fill :: "nat \<Rightarrow> nat \<Rightarrow> nat \<Rightarrow> world \<Rightarrow> world" where
  "mountfs_fill tptmp fs bp w = w\<lparr>
     mntdatas := (mntdatas w)(tptmp := \<lparr>nullm_vfs = 0, nullm_lowerrootvp = NULLVP, nullm_flags = 0, tptm_fs = fs\<rparr>),
     sbs := (sbs w)(fs := b_data w bp)\<rparr>"

definition mountfs_link :: "nat \<Rightarrow> vp \<Rightarrow> mp \<Rightarrow> world \<Rightarrow> world" where
  "mountfs_link tptmp devvp p w =
     upd_mntdata tptmp (\<lambda>m. m\<lparr>nullm_vfs := p, nullm_lowerrootvp := devvp\<rparr>) (upd_mount p (\<lambda>m. m\<lparr>mnt_data := tptmp\<rparr>) w)"

definition tpt_mountfs :: "kernel \<Rightarrow> vp \<Rightarrow> mp \<Rightarrow> errno km" where
  "tpt_mountfs k devvp p = do {
     ronly \<leftarrow> vfs_flagopt_ro k p;
     (error, cp) \<leftarrow> g_vfs_open k devvp (\<not> ronly);
     VOP_UNLOCK k devvp;
     if error \<noteq> 0 then ret error
     else do {
       modify (upd_vnode devvp (\<lambda>n. n\<lparr>bo_private := cp, bo_ops := g_vfs_bufops k\<rparr>));
       (error, bp) \<leftarrow> bread k devvp 0 1024;
       if error \<noteq> 0 then mountfs_out k bp cp
       else do {
         tptmp \<leftarrow> malloc_mount k;
         fs \<leftarrow> malloc_fs k;
         modify (mountfs_fill tptmp fs bp);
         error \<leftarrow> tpt_compute_sb_data devvp fs;
         if error \<noteq> 0 then mountfs_out k bp cp
         else do {
           modify (mountfs_link tptmp devvp p);
           ret 0 } } } }"

text \<open>
  The test of the last character of the option: \<open>None\<close> when there is no value or the character
  lies outside of it.
\<close>

definition fspec_terminated :: "string option \<Rightarrow> nat \<Rightarrow> bool option" where
  "fspec_terminated fspec len = (case fspec of
     None \<Rightarrow> None
   | Some s \<Rightarrow> if len = 0 \<or> length s < len then None else Some (s ! (len - 1) = CHR 0x00))"

definition mount_device :: "kernel \<Rightarrow> mp \<Rightarrow> string \<Rightarrow> errno km" where
  "mount_device k p fspec = do {
     (error, devvp) \<leftarrow> namei k fspec;
     if error \<noteq> 0 then ret error
     else do {
       NDFREE k;
       (isdisk, error) \<leftarrow> vn_isdisk_error k devvp;
       if \<not> isdisk then do { vput k devvp; ret error }
       else do {
         error \<leftarrow> tpt_mountfs k devvp p;
         if error \<noteq> 0 then do { vrele k devvp; ret error }
         else do { vfs_mountedfrom k p fspec; ret 0 } } } }"

definition tptfs_mount :: "kernel \<Rightarrow> mp \<Rightarrow> errno option km" where
  "tptfs_mount k p = do {
     rootfs \<leftarrow> asks (\<lambda>w. mnt_flag (mounts w p) AND MNT_ROOTFS \<noteq> 0);
     if rootfs then ret (Some EOPNOTSUPP)
     else do {
       (error, fspec, len) \<leftarrow> vfs_getopt_from k p;
       if error \<noteq> 0 then ret (Some EINVAL)
       else (case fspec_terminated fspec len of
           None \<Rightarrow> ret None
         | Some False \<Rightarrow> ret (Some EINVAL)
         | Some True \<Rightarrow> do { error \<leftarrow> mount_device k p (the fspec); ret (Some error) }) } }"

section \<open>Unmounting\<close>

text \<open>The loop that flushes the vnodes; the value 0 is the \<open>break\<close>.\<close>

partial_function (option) unmount_flush :: "kernel \<Rightarrow> mp \<Rightarrow> u64 \<Rightarrow> u32 \<Rightarrow> world \<Rightarrow> (errno \<times> world) option" where
  "unmount_flush k p mntflags flags w = (case run_state (vflush k p flags) w of (error, w) \<Rightarrow>
     if error \<noteq> 0 then Some (error, w)
     else if mnt_nvnodelistsize (mounts w p) = 0 then Some (0, w)
     else if mntflags AND MNT_FORCE = 0 then Some (EBUSY, w)
     else unmount_flush k p mntflags flags w)"

partial_function (option) upper_wait :: "kernel \<Rightarrow> mp \<Rightarrow> world \<Rightarrow> world option" where
  "upper_wait k ump w =
     (if mnt_kern_flag (mounts w ump) AND MNTK_VGONE_UPPER = 0 then Some w
      else upper_wait k ump (snd (run_state (msleep_uppers k ump)
             (upd_mount ump (\<lambda>m. m\<lparr>mnt_kern_flag := mnt_kern_flag m OR MNTK_VGONE_WAITER\<rparr>) w))))"

definition unmount_detach :: "kernel \<Rightarrow> mp \<Rightarrow> world \<Rightarrow> world option" where
  "unmount_detach k p w = (let mntdata = mntdatas w (MOUNTTONULLMOUNT w p); ump = nullm_vfs mntdata in
     if nullm_flags mntdata AND NULLM_CACHE \<noteq> 0 then
       map_option (upd_mount ump (\<lambda>m. m\<lparr>mnt_uppers := remove1 p (mnt_uppers m)\<rparr>)) (upper_wait k ump w)
     else Some w)"

definition unmount_free :: "kernel \<Rightarrow> mp \<Rightarrow> nat \<Rightarrow> errno km" where
  "unmount_free k p mntdata = do {
     root \<leftarrow> asks (\<lambda>w. nullm_lowerrootvp (mntdatas w mntdata));
     vrele k root;
     modify (upd_mount p (\<lambda>m. m\<lparr>mnt_data := 0\<rparr>));
     free_mount k mntdata;
     ret 0 }"

definition tptfs_unmount :: "kernel \<Rightarrow> mp \<Rightarrow> u64 \<Rightarrow> world \<Rightarrow> (errno \<times> world) option" where
  "tptfs_unmount k p mntflags w =
     (case unmount_flush k p mntflags (if mntflags AND MNT_FORCE \<noteq> 0 then FORCECLOSE else 0) w of
        None \<Rightarrow> None
      | Some (error, w) \<Rightarrow>
          if error \<noteq> 0 then Some (error, w)
          else (case unmount_detach k p w of
              None \<Rightarrow> None
            | Some w' \<Rightarrow> Some (run_state (unmount_free k p (MOUNTTONULLMOUNT w p)) w')))"

section \<open>The other operations\<close>

definition tptfs_root :: "kernel \<Rightarrow> mp \<Rightarrow> u32 \<Rightarrow> vp \<Rightarrow> (errno \<times> vp) km" where
  "tptfs_root k p flags vpp = do {
     root \<leftarrow> asks (\<lambda>w. nullm_lowerrootvp (mntdatas w (MOUNTTONULLMOUNT w p)));
     error \<leftarrow> vget k root flags;
     if error = 0 then do {
       (error, v) \<leftarrow> tpt_nodeget k p root;
       ret (error, if error = 0 then v else vpp) }
     else ret (error, vpp) }"

definition lower_vfs :: "world \<Rightarrow> mp \<Rightarrow> mp" where
  "lower_vfs w p = nullm_vfs (mntdatas w (MOUNTTONULLMOUNT w p))"

definition tptfs_quotactl :: "kernel \<Rightarrow> mp \<Rightarrow> int \<Rightarrow> u32 \<Rightarrow> nat \<Rightarrow> errno km" where
  "tptfs_quotactl k p cmd uid arg = do {
     vfs \<leftarrow> asks (\<lambda>w. lower_vfs w p);
     VFS_QUOTACTL k vfs cmd uid arg }"

definition zero_statfs :: statfs where
  "zero_statfs = \<lparr>f_type = 0, f_flags = 0, f_bsize = 0, f_iosize = 0, f_blocks = 0, f_bfree = 0, f_bavail = 0, f_files = 0, f_ffree = 0\<rparr>"

definition statfs_flags :: "u64 \<Rightarrow> u64 \<Rightarrow> u64" where
  "statfs_flags own lower =
     own AND (MNT_RDONLY OR MNT_NOEXEC OR MNT_NOSUID OR MNT_UNION OR MNT_NOSYMFOLLOW OR MNT_AUTOMOUNTED)
     OR lower AND NOT (MNT_ROOTFS OR MNT_AUTOMOUNTED)"

definition statfs_result :: "statfs \<Rightarrow> errno \<Rightarrow> statfs \<Rightarrow> errno \<times> statfs" where
  "statfs_result sbp error mstat =
     (if error \<noteq> 0 then (error, sbp)
      else (0, sbp\<lparr>f_type := f_type mstat, f_flags := statfs_flags (f_flags sbp) (f_flags mstat), f_bsize := f_bsize mstat,
              f_iosize := f_iosize mstat, f_blocks := f_blocks mstat, f_bfree := f_bfree mstat, f_bavail := f_bavail mstat,
              f_files := f_files mstat, f_ffree := f_ffree mstat\<rparr>))"

definition tptfs_statfs :: "kernel \<Rightarrow> mp \<Rightarrow> statfs \<Rightarrow> (errno \<times> statfs) km" where
  "tptfs_statfs k p sbp = do {
     vfs \<leftarrow> asks (\<lambda>w. lower_vfs w p);
     (error, mstat) \<leftarrow> VFS_STATFS k vfs zero_statfs;
     ret (statfs_result sbp error mstat) }"

definition tptfs_sync :: "mp \<Rightarrow> int \<Rightarrow> errno km" where
  "tptfs_sync p waitfor = ret 0"

definition tptfs_vget :: "kernel \<Rightarrow> mp \<Rightarrow> u64 \<Rightarrow> u32 \<Rightarrow> (errno \<times> vp) km" where
  "tptfs_vget k p ino flags = do {
     vfs \<leftarrow> asks (\<lambda>w. lower_vfs w p);
     (error, v) \<leftarrow> VFS_VGET k vfs ino flags;
     if error \<noteq> 0 then ret (error, v) else tpt_nodeget k p v }"

definition tptfs_fhtovp :: "kernel \<Rightarrow> mp \<Rightarrow> nat \<Rightarrow> u32 \<Rightarrow> (errno \<times> vp) km" where
  "tptfs_fhtovp k p fidp flags = do {
     vfs \<leftarrow> asks (\<lambda>w. lower_vfs w p);
     (error, v) \<leftarrow> VFS_FHTOVP k vfs fidp flags;
     if error \<noteq> 0 then ret (error, v) else tpt_nodeget k p v }"

definition tptfs_extattrctl :: "kernel \<Rightarrow> mp \<Rightarrow> int \<Rightarrow> vp \<Rightarrow> int \<Rightarrow> string \<Rightarrow> errno km" where
  "tptfs_extattrctl k p cmd filename_vp ns attrname = do {
     vfs \<leftarrow> asks (\<lambda>w. lower_vfs w p);
     VFS_EXTATTRCTL k vfs cmd filename_vp ns attrname }"

definition tptfs_reclaim_lowervp :: "kernel \<Rightarrow> mp \<Rightarrow> vp \<Rightarrow> unit km" where
  "tptfs_reclaim_lowervp k p lowervp = do {
     v \<leftarrow> tpt_hashget k p lowervp;
     whenM (v \<noteq> NULLVP) (do {
       modify (mark_flags NULLV_NOUNLOCK v);
       vgone k v;
       vput k v }) }"

definition tptfs_unlink_lowervp :: "kernel \<Rightarrow> mp \<Rightarrow> vp \<Rightarrow> unit km" where
  "tptfs_unlink_lowervp k p lowervp = do {
     v \<leftarrow> tpt_hashget k p lowervp;
     whenM (v \<noteq> NULLVP) (do {
       xp \<leftarrow> asks (\<lambda>w. VTONULL w v);
       modify (mark_flags (NULLV_DROP OR NULLV_NOUNLOCK) v);
       vhold k v;
       vunref k v;
       last \<leftarrow> asks (\<lambda>w. v_usecount (vnodes w v) = 0);
       (if last then do { VOP_UNLOCK k v; ret () }
        else modify (upd_node xp (\<lambda>x. x\<lparr>tpt_flags := tpt_flags x AND NOT NULLV_NOUNLOCK\<rparr>)));
       vdrop k v }) }"

section \<open>What mounting leaves behind\<close>

lemma mountfs_links:
  assumes "run_state (tpt_mountfs k devvp p) w = (0, w')"
  shows "lower_vfs w' p = p \<and> nullm_lowerrootvp (mntdatas w' (MOUNTTONULLMOUNT w' p)) = devvp
     \<and> nullm_flags (mntdatas w' (MOUNTTONULLMOUNT w' p)) = 0"
  using assms
  by (auto simp: tpt_mountfs_def tpt_compute_sb_data_def mountfs_out_def case_prod_beta lower_vfs_def MOUNTTONULLMOUNT_def
      mountfs_link_def mountfs_fill_def split: if_splits)

section \<open>Calls of the file system below\<close>

text \<open>
  \<open>VFS_STATFS\<close> dispatches to the operation of the mount point it is given.  The relation holds when the
  call returns: on a mount point of another file system what the kernel's \<open>VFS_STATFS\<close> returns,
  on one of the layer what \<open>tptfs_statfs\<close> makes of the call it makes itself.
\<close>

inductive vfs_statfs :: "kernel \<Rightarrow> mp \<Rightarrow> statfs \<Rightarrow> world \<Rightarrow> errno \<times> statfs \<Rightarrow> world \<Rightarrow> bool" for k where
  other: "mnt_op (mounts w p) = other_vfsops \<Longrightarrow> run_state (VFS_STATFS k p sbp) w = (r, w') \<Longrightarrow> vfs_statfs k p sbp w r w'"
| layer: "mnt_op (mounts w p) = tpt_vfsops \<Longrightarrow> vfs_statfs k (lower_vfs w p) zero_statfs w (error, mstat) w'
    \<Longrightarrow> vfs_statfs k p sbp w (statfs_result sbp error mstat) w'"

inductive_cases vfs_statfs_layerE: "vfs_statfs k p sbp w r w'"

lemma vfs_statfs_loop:
  assumes "vfs_statfs k q sbp w r w'" "q = p" "mnt_op (mounts w p) = tpt_vfsops" "lower_vfs w p = p"
  shows False
  using assms by (induction rule: vfs_statfs.induct) auto

text \<open>On a layer over a mount point of another file system the call returns what \<open>tptfs_statfs\<close> returns.\<close>

lemma vfs_statfs_stacked:
  assumes "mnt_op (mounts w p) = tpt_vfsops" "mnt_op (mounts w (lower_vfs w p)) = other_vfsops"
  shows "vfs_statfs k p sbp w (fst (run_state (tptfs_statfs k p sbp) w)) (snd (run_state (tptfs_statfs k p sbp) w))"
proof -
  obtain e m w' where r: "run_state (VFS_STATFS k (lower_vfs w p) zero_statfs) w = ((e, m), w')" by (metis prod.exhaust)
  show ?thesis
    using vfs_statfs.layer [OF assms(1) vfs_statfs.other [OF assms(2) r]] by (simp add: tptfs_statfs_def r)
qed

section \<open>Unmounting ends\<close>

text \<open>A flush that succeeds leaves fewer vnodes on the list of the mount point, or none.\<close>

definition vflush_progress :: "kernel \<Rightarrow> mp \<Rightarrow> bool" where
  "vflush_progress k p \<longleftrightarrow> (\<forall>flags w. case run_state (vflush k p flags) w of (error, w') \<Rightarrow> error = 0 \<longrightarrow>
     mnt_nvnodelistsize (mounts w' p) = 0 \<or> mnt_nvnodelistsize (mounts w' p) < mnt_nvnodelistsize (mounts w p))"

text \<open>The sleeper is woken when the reclamation it waits for is over.\<close>

definition msleep_progress :: "kernel \<Rightarrow> bool" where
  "msleep_progress k \<longleftrightarrow> (\<forall>p w. mnt_kern_flag (mounts (snd (run_state (msleep_uppers k p) w)) p) AND MNTK_VGONE_UPPER = 0)"

lemma unmount_flush_ends:
  assumes "vflush_progress k p"
  shows "\<exists>e w'. unmount_flush k p mntflags flags w = Some (e, w') \<and> (e = 0 \<longrightarrow> mnt_nvnodelistsize (mounts w' p) = 0)"
proof (induction "mnt_nvnodelistsize (mounts w p)" arbitrary: w rule: less_induct)
  case less
  obtain e w1 where r: "run_state (vflush k p flags) w = (e, w1)" by fastforce
  have "e = 0 \<Longrightarrow> mnt_nvnodelistsize (mounts w1 p) = 0 \<or> mnt_nvnodelistsize (mounts w1 p) < mnt_nvnodelistsize (mounts w p)"
    using assms r unfolding vflush_progress_def by (metis (mono_tags, lifting) case_prod_conv)
  then show ?case
    using less [of w1] by (subst (1) unmount_flush.simps) (auto simp: r EBUSY_def)
qed

lemma upper_wait_ends:
  assumes "msleep_progress k"
  shows "\<exists>w'. upper_wait k p w = Some w'"
proof -
  have "\<exists>w'. upper_wait k p (snd (run_state (msleep_uppers k p) u)) = Some w'" for u
    using assms by (subst upper_wait.simps) (simp add: msleep_progress_def)
  then show ?thesis by (subst upper_wait.simps) simp
qed

lemma quiet_progress [simp]: "vflush_progress quiet_kernel p" "msleep_progress quiet_kernel"
  by (auto simp: vflush_progress_def msleep_progress_def)

section \<open>Mounting a device\<close>

text \<open>
  Mounting the device \<open>d\<close> that the option names, with the super block \<open>sb\<close> on it, as the manual pages and the sources of the kernel describe
  the calls, when no other thread interferes.  \<open>namei(9)\<close> returns the device with a use reference, or an error.
  \<open>g_vfs_open\<close> fails, with \<open>EBUSY\<close> if the buffer object of the device is in use (its \<open>bo_private\<close> is then not the device itself) or with another error, or
  makes a consumer the \<open>bo_private\<close> and sets the operations and the VM object; \<open>g_vfs_close\<close> makes the device its
  \<open>bo_private\<close> again.  \<open>bread\<close> fails or returns a buffer with the super block.  \<open>malloc\<close> returns any pointer.
\<close>

definition dev_set :: "vp \<Rightarrow> nat \<Rightarrow> world \<Rightarrow> world \<Rightarrow> bool" where
  "dev_set d c w w' \<longleftrightarrow> (\<exists>ob ops b. w' = w\<lparr>vnodes := (vnodes w)(d := (vnodes w d)\<lparr>v_object := ob, bo_private := c, bo_ops := ops\<rparr>), b_data := b\<rparr>)"

definition opens_device :: "kernel \<Rightarrow> vp \<Rightarrow> bool" where
  "opens_device k d \<longleftrightarrow> (\<forall>wr w e cp w'. run_state (g_vfs_open k d wr) w = ((e, cp), w') \<longrightarrow>
       (if e = 0 then bo_private (vnodes w d) = d \<and> cp \<noteq> d \<and> cp \<noteq> 0 \<and> dev_set d cp w w' else w' = w))
     \<and> (\<forall>cp w. dev_set d d w (snd (run_state (g_vfs_close k cp) w)))"

definition reads_super :: "kernel \<Rightarrow> vp \<Rightarrow> tptfs \<Rightarrow> bool" where
  "reads_super k d sb \<longleftrightarrow> (\<forall>w e bp w'. run_state (bread k d 0 1024) w = ((e, bp), w') \<longrightarrow>
       (\<exists>b. w' = w\<lparr>b_data := b\<rparr>) \<and> (e = 0 \<longrightarrow> b_data w' bp = sb))
     \<and> (\<forall>w bp. \<exists>b. snd (run_state (brelse k bp) w) = w\<lparr>b_data := b\<rparr>)"

definition finds_device :: "kernel \<Rightarrow> mp \<Rightarrow> string \<Rightarrow> vp \<Rightarrow> bool" where
  "finds_device k p s d \<longleftrightarrow> s \<noteq> [] \<and> last s = CHR 0x00 \<and> (\<forall>w. run_state (vfs_getopt_from k p) w = ((0, Some s, length s), w))
     \<and> (\<forall>w e v w'. run_state (namei k s) w = ((e, v), w') \<longrightarrow> (if e = 0 then v = d \<and> w' = add_use d 1 w else w' = w))
     \<and> (\<forall>w b e w'. run_state (vn_isdisk_error k d) w = ((b, e), w') \<longrightarrow> w' = w \<and> (b \<or> e \<noteq> 0))
     \<and> (\<forall>w. 1 < v_usecount (vnodes w d) \<longrightarrow> run_state (vput k d) w = ((), add_use d (- 1) w))"

definition mounts_device :: "kernel \<Rightarrow> mp \<Rightarrow> string \<Rightarrow> vp \<Rightarrow> tptfs \<Rightarrow> bool" where
  "mounts_device k p s d sb \<longleftrightarrow> finds_device k p s d \<and> opens_device k d \<and> reads_super k d sb
     \<and> (\<forall>w. snd (run_state (NDFREE k) w) = w \<and> snd (run_state (vfs_flagopt_ro k p) w) = w \<and> snd (run_state (VOP_UNLOCK k d) w) = w
          \<and> snd (run_state (malloc_mount k) w) = w \<and> snd (run_state (malloc_fs k) w) = w \<and> snd (run_state (vfs_mountedfrom k p s) w) = w)
     \<and> (\<forall>m w. \<exists>x. snd (run_state (free_mount k m) w) = w\<lparr>mntdatas := (mntdatas w)(m := x)\<rparr>)"

lemma dev_set_sel:
  assumes "dev_set d c w w'"
  shows "nodes w' = nodes w" "mounts w' = mounts w" "mntdatas w' = mntdatas w" "sbs w' = sbs w" "tpt_node_hashtbl w' = tpt_node_hashtbl w"
    "v_usecount (vnodes w' v) = v_usecount (vnodes w v)" "bo_private (vnodes w' d) = c"
  using assms by (auto simp: dev_set_def)

lemma dev_setI:
  "w' = w\<lparr>vnodes := (vnodes w)(d := (vnodes w d)\<lparr>v_object := ob, bo_private := c, bo_ops := ops\<rparr>), b_data := b\<rparr> \<Longrightarrow> dev_set d c w w'"
  unfolding dev_set_def by blast

lemma dev_setE:
  assumes "dev_set d c w w'"
  obtains ob ops b where "w' = w\<lparr>vnodes := (vnodes w)(d := (vnodes w d)\<lparr>v_object := ob, bo_private := c, bo_ops := ops\<rparr>), b_data := b\<rparr>"
  using assms unfolding dev_set_def by blast

lemma dev_set_trans: "dev_set d c w u \<Longrightarrow> dev_set d c' u w' \<Longrightarrow> dev_set d c' w w'"
  by (elim dev_setE, rule dev_setI) simp

lemma dev_set_data: "dev_set d c w u \<Longrightarrow> dev_set d c w (u\<lparr>b_data := b\<rparr>)"
  by (elim dev_setE, rule dev_setI) simp

lemma dev_set_bo: "dev_set d c w u \<Longrightarrow> dev_set d c' w (upd_vnode d (\<lambda>n. n\<lparr>bo_private := c', bo_ops := ops\<rparr>) u)"
  by (elim dev_setE, rule dev_setI, rule world.equality) (simp_all add: upd_vnode_def)

lemma dev_set_refl: "dev_set d (bo_private (vnodes w d)) w w"
proof -
  have "w = w\<lparr>vnodes := (vnodes w)(d := (vnodes w d)\<lparr>v_object := v_object (vnodes w d), bo_private := bo_private (vnodes w d), bo_ops := bo_ops (vnodes w d)\<rparr>), b_data := b_data w\<rparr>"
    by simp
  then show ?thesis unfolding dev_set_def by blast
qed

text \<open>The reference that \<open>namei\<close> took is given back.\<close>

lemma dev_set_use:
  assumes "dev_set d c (add_use d 1 w) u"
  shows "dev_set d c w (add_use d (- 1) u)"
  using assms by (elim dev_setE, intro dev_setI world.equality) (simp_all add: add_use_def upd_vnode_def)

section \<open>The outcomes of a mount\<close>

text \<open>The data structures that a mount sets up.\<close>

definition mount_made :: "mp \<Rightarrow> vp \<Rightarrow> tptfs \<Rightarrow> nat \<Rightarrow> nat \<Rightarrow> nat \<Rightarrow> world \<Rightarrow> world \<Rightarrow> bool" where
  "mount_made p d sb cp m fs w w' \<longleftrightarrow> (\<exists>u. dev_set d cp w u \<and> w' = u\<lparr>sbs := (sbs u)(fs := sb), mounts := (mounts u)(p := (mounts u p)\<lparr>mnt_data := m\<rparr>),
     mntdatas := (mntdatas u)(m := \<lparr>nullm_vfs = p, nullm_lowerrootvp = d, nullm_flags = 0, tptm_fs = fs\<rparr>)\<rparr>)"

lemma link_fill: "mountfs_link m d p (mountfs_fill m fs bp u) = u\<lparr>sbs := (sbs u)(fs := b_data u bp), mounts := (mounts u)(p := (mounts u p)\<lparr>mnt_data := m\<rparr>),
     mntdatas := (mntdatas u)(m := \<lparr>nullm_vfs = p, nullm_lowerrootvp = d, nullm_flags = 0, tptm_fs = fs\<rparr>)\<rparr>"
  by (simp add: mountfs_link_def mountfs_fill_def upd_mntdata_def upd_mount_def)

lemma mountfs_out_run:
  assumes "opens_device k d" "reads_super k d sb" "cp \<noteq> 0" "dev_set d c w u" "bo_private (vnodes w d) = d"
  shows "\<exists>w'. run_state (mountfs_out k bp cp) u = (- 1, w') \<and> dev_set d (bo_private (vnodes w d)) w w'"
proof -
  obtain b where b: "snd (run_state (whenM (bp \<noteq> 0) (brelse k bp)) u) = u\<lparr>b_data := b\<rparr>"
  proof (cases "bp = 0")
    case True
    then show ?thesis using that [of "b_data u"] by simp
  next
    case False
    have "\<exists>b. snd (run_state (brelse k bp) u) = u\<lparr>b_data := b\<rparr>" using assms(2) by (simp add: reads_super_def)
    with False that show ?thesis by auto
  qed
  have "dev_set d d w (snd (run_state (g_vfs_close k cp) (u\<lparr>b_data := b\<rparr>)))"
    by (rule dev_set_trans [OF dev_set_data [OF assms(4)]]) (use assms(1) in \<open>auto simp: opens_device_def\<close>)
  then show ?thesis using b assms(3,5) by (simp add: mountfs_out_def case_prod_beta)
qed

text \<open>After \<open>g_vfs_open\<close>: the read fails, and the consumer is closed, or the structures are made.\<close>

definition mountfs_read :: "kernel \<Rightarrow> vp \<Rightarrow> mp \<Rightarrow> nat \<Rightarrow> errno km" where
  "mountfs_read k d p cp = do {
     modify (upd_vnode d (\<lambda>n. n\<lparr>bo_private := cp, bo_ops := g_vfs_bufops k\<rparr>));
     (error, bp) \<leftarrow> bread k d 0 1024;
     if error \<noteq> 0 then mountfs_out k bp cp
     else do {
       m \<leftarrow> malloc_mount k;
       fs \<leftarrow> malloc_fs k;
       modify (mountfs_fill m fs bp);
       modify (mountfs_link m d p);
       ret 0 } }"

lemma mountfs_read_run:
  assumes "mounts_device k p s d sb" "dev_set d c w u" "bo_private (vnodes w d) = d" "cp \<noteq> 0"
  shows "(\<exists>w'. run_state (mountfs_read k d p cp) u = (- 1, w') \<and> dev_set d (bo_private (vnodes w d)) w w')
    \<or> (\<exists>m fs w'. run_state (mountfs_read k d p cp) u = (0, w') \<and> mount_made p d sb cp m fs w w')"
proof -
  define u1 where "u1 = upd_vnode d (\<lambda>n. n\<lparr>bo_private := cp, bo_ops := g_vfs_bufops k\<rparr>) u"
  have l: "opens_device k d" "reads_super k d sb" "snd (run_state (malloc_mount k) v) = v" "snd (run_state (malloc_fs k) v) = v" for v
    using assms(1) by (simp_all add: mounts_device_def)
  obtain e bp u2 where r: "run_state (bread k d 0 1024) u1 = ((e, bp), u2)" by (metis prod.exhaust)
  have u1: "dev_set d cp w u1" unfolding u1_def by (rule dev_set_bo [OF assms(2)])
  have u2: "dev_set d cp w u2" "e = 0 \<Longrightarrow> b_data u2 bp = sb" using dev_set_data [OF u1] l(2) r unfolding reads_super_def by blast+
  show ?thesis
  proof (cases "e = 0")
    case False
    then show ?thesis using mountfs_out_run [OF l(1,2) assms(4) u2(1) assms(3), of bp] r by (simp add: mountfs_read_def u1_def)
  next
    case True
    obtain m fs where m: "run_state (malloc_mount k) u2 = (m, u2)" "run_state (malloc_fs k) u2 = (fs, u2)" using l(3,4) by (metis prod.collapse)
    have "run_state (mountfs_read k d p cp) u = (0, mountfs_link m d p (mountfs_fill m fs bp u2))"
      using r True m by (simp add: mountfs_read_def u1_def)
    moreover have "mount_made p d sb cp m fs w (mountfs_link m d p (mountfs_fill m fs bp u2))"
      unfolding mount_made_def link_fill using u2 True by blast
    ultimately show ?thesis by blast
  qed
qed

lemma mountfs_outcome:
  assumes "mounts_device k p s d sb"
  shows "\<exists>e w'. run_state (tpt_mountfs k d p) w = (e, w')
    \<and> (if e \<noteq> 0 then (e = - 1 \<or> (\<exists>wr. e = fst (fst (run_state (g_vfs_open k d wr) w)))) \<and> dev_set d (bo_private (vnodes w d)) w w'
       else bo_private (vnodes w d) = d \<and> (\<exists>cp m fs. cp \<noteq> d \<and> mount_made p d sb cp m fs w w'))"
proof -
  have l: "opens_device k d" "snd (run_state (vfs_flagopt_ro k p) v) = v" "snd (run_state (VOP_UNLOCK k d) v) = v" for v
    using assms by (simp_all add: mounts_device_def)
  define wr where "wr = (\<not> fst (run_state (vfs_flagopt_ro k p) w))"
  obtain e cp u where op: "run_state (g_vfs_open k d wr) w = ((e, cp), u)" by (metis prod.exhaust)
  have law: "if e = 0 then bo_private (vnodes w d) = d \<and> cp \<noteq> d \<and> cp \<noteq> 0 \<and> dev_set d cp w u else u = w"
    using l(1) op unfolding opens_device_def by blast
  have run: "run_state (tpt_mountfs k d p) w = (if e \<noteq> 0 then (e, u) else run_state (mountfs_read k d p cp) u)"
    using op by (simp add: tpt_mountfs_def mountfs_read_def tpt_compute_sb_data_def case_prod_beta l(2,3) wr_def)
  show ?thesis
  proof (cases "e = 0")
    case False
    moreover have "e = fst (fst (run_state (g_vfs_open k d wr) w))" by (simp add: op)
    ultimately show ?thesis using run law dev_set_refl [of d w] by auto
  next
    case True
    with law have "bo_private (vnodes w d) = d" "cp \<noteq> d" "cp \<noteq> 0" "dev_set d cp w u" by simp_all
    note c = this
    from mountfs_read_run [OF assms c(4,1,3)] show ?thesis
    proof (elim disjE exE conjE)
      fix w' assume "run_state (mountfs_read k d p cp) u = (- 1, w')" "dev_set d (bo_private (vnodes w d)) w w'"
      with run True show ?thesis by (intro exI [of _ "- 1"] exI [of _ w']) simp
    next
      fix m fs w' assume "run_state (mountfs_read k d p cp) u = (0, w')" "mount_made p d sb cp m fs w w'"
      with run True c show ?thesis by (intro exI [of _ 0] exI [of _ w']) auto
    qed
  qed
qed

text \<open>The error is that of \<open>namei\<close>, of \<open>vn_isdisk_error\<close>, of \<open>g_vfs_open\<close>, or -1.\<close>

definition mount_errors :: "kernel \<Rightarrow> string \<Rightarrow> vp \<Rightarrow> world \<Rightarrow> errno set" where
  "mount_errors k s d w = {- 1, fst (fst (run_state (namei k s) w)), snd (fst (run_state (vn_isdisk_error k d) (add_use d 1 w)))}
     \<union> (\<Union>wr. {fst (fst (run_state (g_vfs_open k d wr) (add_use d 1 w)))})"

lemma mount_device_outcome:
  assumes "mounts_device k p s d sb" "vrele_counts k" "0 < v_usecount (vnodes w d)"
  shows "\<exists>e w'. run_state (mount_device k p s) w = (e, w')
    \<and> (if e \<noteq> 0 then e \<in> mount_errors k s d w \<and> dev_set d (bo_private (vnodes w d)) w w'
       else bo_private (vnodes w d) = d \<and> (\<exists>cp m fs. cp \<noteq> d \<and> mount_made p d sb cp m fs (add_use d 1 w) w'))"
proof -
  have f: "finds_device k p s d" and q: "snd (run_state (NDFREE k) v) = v" "snd (run_state (vfs_mountedfrom k p s) v) = v" for v
    using assms(1) by (simp_all add: mounts_device_def)
  let ?w = "add_use d 1 w"
  have undo: "add_use d (- 1) ?w = w" by (simp add: add_use_def upd_vnode_def)
  obtain e1 v1 w1 where n: "run_state (namei k s) w = ((e1, v1), w1)" by (metis prod.exhaust)
  obtain b e2 w2 where i: "run_state (vn_isdisk_error k d) ?w = ((b, e2), w2)" by (metis prod.exhaust)
  have n1: "if e1 = 0 then v1 = d \<and> w1 = ?w else w1 = w" and i1: "w2 = ?w" "b \<or> e2 \<noteq> 0"
    using f n i unfolding finds_device_def by blast+
  obtain e w' where m: "run_state (tpt_mountfs k d p) ?w = (e, w')" and out: "if e \<noteq> 0
      then (e = - 1 \<or> (\<exists>wr. e = fst (fst (run_state (g_vfs_open k d wr) ?w)))) \<and> dev_set d (bo_private (vnodes ?w d)) ?w w'
      else bo_private (vnodes ?w d) = d \<and> (\<exists>cp m fs. cp \<noteq> d \<and> mount_made p d sb cp m fs ?w w')"
    using mountfs_outcome [OF assms(1)] by blast
  consider "e1 \<noteq> 0" | "e1 = 0" "\<not> b" | "e1 = 0" "b" "e \<noteq> 0" | "e1 = 0" "b" "e = 0" by blast
  then show ?thesis
  proof cases
    case 1
    then show ?thesis using n n1 dev_set_refl [of d w] by (simp add: mount_device_def mount_errors_def)
  next
    case 2
    have "run_state (vput k d) ?w = ((), w)" using f assms(3) undo by (simp add: finds_device_def)
    with 2 n n1 i i1 show ?thesis using dev_set_refl [of d w] by (simp add: mount_device_def mount_errors_def case_prod_beta q)
  next
    case 3
    with out have d: "dev_set d (bo_private (vnodes w d)) ?w w'" "e \<in> mount_errors k s d w" by (auto simp: mount_errors_def)
    have "run_state (vrele k d) w' = ((), add_use d (- 1) w')" using assms(2,3) dev_set_sel(6) [OF d(1), of d] by (intro vrele_run) simp_all
    with 3 n n1 i i1 m d dev_set_use [OF d(1)] show ?thesis by (simp add: mount_device_def case_prod_beta q)
  next
    case 4
    with n n1 i i1 m out show ?thesis by (simp add: mount_device_def case_prod_beta q)
  qed
qed

lemma mount_outcome:
  assumes "mounts_device k p s d sb" "vrele_counts k" "0 < v_usecount (vnodes w d)" "mnt_flag (mounts w p) AND MNT_ROOTFS = 0"
  shows "\<exists>e w'. run_state (tptfs_mount k p) w = (Some e, w')
    \<and> (if e \<noteq> 0 then e \<in> mount_errors k s d w \<and> dev_set d (bo_private (vnodes w d)) w w'
       else bo_private (vnodes w d) = d \<and> (\<exists>cp m fs. cp \<noteq> d \<and> mount_made p d sb cp m fs (add_use d 1 w) w'))"
proof -
  have f: "s \<noteq> []" "last s = CHR 0x00" "run_state (vfs_getopt_from k p) w = ((0, Some s, length s), w)"
    using assms(1) by (simp_all add: mounts_device_def finds_device_def)
  have "fspec_terminated (Some s) (length s) = Some True" using f(1,2) by (simp add: fspec_terminated_def last_conv_nth)
  with f(3) assms(4) have "run_state (tptfs_mount k p) w = (case run_state (mount_device k p s) w of (e, w') \<Rightarrow> (Some e, w'))"
    by (simp add: tptfs_mount_def case_prod_beta)
  with mount_device_outcome [OF assms(1-3)] show ?thesis by (metis (no_types, lifting) case_prod_conv)
qed

text \<open>An unmount of what a mount has made, without vnodes of the layer.\<close>

lemma unmount_made:
  assumes "mounts_device k p s d sb" "vrele_counts k" "0 < v_usecount (vnodes w d)" "mount_made p d sb cp m fs (add_use d 1 w) w1"
    "\<forall>fl w. mnt_nvnodelistsize (mounts w p) = 0 \<longrightarrow> run_state (vflush k p fl) w = (0, w)" "mnt_nvnodelistsize (mounts w p) = 0"
  shows "\<exists>x. tptfs_unmount k p mntflags w1 =
    Some (0, (upd_mount p (\<lambda>m. m\<lparr>mnt_data := 0\<rparr>) (add_use d (- 1) w1))\<lparr>mntdatas := (mntdatas w1)(m := x)\<rparr>)"
proof -
  obtain u where u: "dev_set d cp (add_use d 1 w) u" and w1: "w1 = u\<lparr>sbs := (sbs u)(fs := sb), mounts := (mounts u)(p := (mounts u p)\<lparr>mnt_data := m\<rparr>),
     mntdatas := (mntdatas u)(m := \<lparr>nullm_vfs = p, nullm_lowerrootvp = d, nullm_flags = 0, tptm_fs = fs\<rparr>)\<rparr>"
    using assms(4) unfolding mount_made_def by blast
  have s: "mnt_data (mounts w1 p) = m" "mnt_nvnodelistsize (mounts w1 p) = 0" "v_usecount (vnodes w1 d) = v_usecount (vnodes w d) + 1"
    "mntdatas w1 m = \<lparr>nullm_vfs = p, nullm_lowerrootvp = d, nullm_flags = 0, tptm_fs = fs\<rparr>"
    using dev_set_sel(2,6) [OF u] assms(6) by (simp_all add: w1)
  have f: "unmount_flush k p mntflags fl w1 = Some (0, w1)" for fl
    using s(2) assms(5) by (subst unmount_flush.simps) simp
  have v: "run_state (vrele k d) w1 = ((), add_use d (- 1) w1)" using assms(2,3) s(3) by (intro vrele_run) simp_all
  let ?u = "upd_mount p (\<lambda>m. m\<lparr>mnt_data := 0\<rparr>) (add_use d (- 1) w1)"
  obtain x where x: "snd (run_state (free_mount k m) ?u) = ?u\<lparr>mntdatas := (mntdatas ?u)(m := x)\<rparr>"
    using assms(1) unfolding mounts_device_def by blast
  have "tptfs_unmount k p mntflags w1 = Some (0, ?u\<lparr>mntdatas := (mntdatas ?u)(m := x)\<rparr>)"
    using s v x by (simp add: tptfs_unmount_def f unmount_detach_def unmount_free_def MOUNTTONULLMOUNT_def Let_def case_prod_beta)
  then show ?thesis by auto
qed

section \<open>Properties\<close>

text \<open>C27: \<open>tpt_mountfs\<close> records the mount point itself as the file system below, and \<open>VFS_STATFS\<close> on a
  mount point of the layer calls \<open>VFS_STATFS\<close> on that: after a successful mount the call never returns.\<close>

theorem statfs_never_returns:
  assumes "run_state (tpt_mountfs k devvp p) w = (0, w')" "mnt_op (mounts w' p) = tpt_vfsops"
  shows "\<not> vfs_statfs k p sbp w' r w''"
  using vfs_statfs_loop [OF _ refl assms(2)] mountfs_links [OF assms(1)] by blast

lemma quiet_mountfs: "run_state (tpt_mountfs quiet_kernel 5 2) quiet_world =
  (0, mountfs_link 7 5 2 (mountfs_fill 7 8 6 (upd_vnode 5 (\<lambda>n. n\<lparr>bo_private := 3, bo_ops := 4\<rparr>) quiet_world)))"
  by (simp add: tpt_mountfs_def tpt_compute_sb_data_def)

theorem statfs_never_returns_witness:
  "\<forall>r w''. \<not> vfs_statfs quiet_kernel 2 zero_statfs (snd (run_state (tpt_mountfs quiet_kernel 5 2) quiet_world)) r w''"
proof -
  have "mnt_op (mounts (snd (run_state (tpt_mountfs quiet_kernel 5 2) quiet_world)) 2) = tpt_vfsops"
    by (simp add: quiet_mountfs mountfs_link_def mountfs_fill_def) (simp add: quiet_world_def)
  then show ?thesis using statfs_never_returns [of quiet_kernel 5 2 quiet_world] by (simp add: quiet_mountfs)
qed

text \<open>C28: \<open>tptfs_unmount\<close> returns, forced or not, if every flush makes progress and a reclamation that is waited for ends;
  without \<open>MNT_FORCE\<close> it returns \<open>EBUSY\<close> after one flush that leaves a vnode, and the mount point is not touched.\<close>

theorem tptfs_unmount_returns:
  assumes "vflush_progress k p" "msleep_progress k"
  shows "(\<exists>e w'. tptfs_unmount k p mntflags w = Some (e, w'))
    \<and> (mntflags AND MNT_FORCE = 0 \<and> run_state (vflush k p 0) w = (0, w1) \<and> mnt_nvnodelistsize (mounts w1 p) \<noteq> 0
        \<longrightarrow> tptfs_unmount k p mntflags w = Some (EBUSY, w1))"
proof -
  obtain e u where "unmount_flush k p mntflags (if mntflags AND MNT_FORCE \<noteq> 0 then FORCECLOSE else 0) w = Some (e, u)"
    using unmount_flush_ends [OF assms(1)] by blast
  moreover have "\<exists>w'. unmount_detach k p u = Some w'"
    using upper_wait_ends [OF assms(2)] by (auto simp: unmount_detach_def Let_def)
  ultimately have "\<exists>e w'. tptfs_unmount k p mntflags w = Some (e, w')" by (auto simp: tptfs_unmount_def)
  then show ?thesis by (auto simp: tptfs_unmount_def unmount_flush.simps EBUSY_def)
qed

definition busy_world :: world where
  "busy_world = upd_mount 1 (\<lambda>m. m\<lparr>mnt_nvnodelistsize := 3\<rparr>) quiet_world"

theorem tptfs_unmount_returns_witness:
  "(\<exists>e w'. tptfs_unmount quiet_kernel 1 MNT_FORCE busy_world = Some (e, w'))
    \<and> (\<exists>w1. tptfs_unmount quiet_kernel 1 0 busy_world = Some (EBUSY, w1))"
  using tptfs_unmount_returns [OF quiet_progress, of 1 MNT_FORCE busy_world]
    tptfs_unmount_returns [OF quiet_progress, of 1 0 busy_world "snd (run_state (vflush quiet_kernel 1 0) busy_world)"]
  by (simp add: busy_world_def)


text \<open>The kernel of the examples, with the reference that \<open>namei\<close> takes, the consumer that \<open>g_vfs_open\<close> makes, and no vnode to flush.\<close>

definition device_kernel :: kernel where
  "device_kernel = quiet_kernel\<lparr>namei := (\<lambda>s. do { modify (add_use 5 1); ret (0, 5) }), vflush := (\<lambda>p f. ret 0),
     g_vfs_open := (\<lambda>v wr. State (\<lambda>w. if bo_private (vnodes w v) \<noteq> v then ((EBUSY, 0), w)
       else ((0, 3), upd_vnode v (\<lambda>n. n\<lparr>v_object := 1, bo_private := 3, bo_ops := 4\<rparr>) w))),
     g_vfs_close := (\<lambda>cp. modify (upd_vnode 5 (\<lambda>n. n\<lparr>bo_private := 5\<rparr>))),
     bread := (\<lambda>v b n. do { modify (\<lambda>w. w\<lparr>b_data := (\<lambda>_. b_data quiet_world 6)\<rparr>); ret (0, 6) })\<rparr>"

definition device_world :: world where
  "device_world = upd_vnode 5 (\<lambda>n. n\<lparr>bo_private := 5\<rparr>) quiet_world"

lemma device_sets:
  "dev_set d 3 w (upd_vnode d (\<lambda>n. n\<lparr>v_object := 1, bo_private := 3, bo_ops := 4\<rparr>) w)" "dev_set d d w (upd_vnode d (\<lambda>n. n\<lparr>bo_private := d\<rparr>) w)"
  by (rule dev_setI [where ob = 1 and ops = 4 and b = "b_data w"] dev_setI [where ob = "v_object (vnodes w d)" and ops = "bo_ops (vnodes w d)" and b = "b_data w"],
      rule world.equality, simp_all add: upd_vnode_def)+


text \<open>C26: the root of a mounted layer, as \<open>tptfs_root\<close> returns it the first time, is an alias of the device that was
  mounted: it is marked as the root, and it has the type of the device, not that of a directory.\<close>

theorem tptfs_root_of_device:
  assumes "vref_counts k" "run_state (tpt_mountfs k devvp p) w = (0, w1)" "run_state (vget k devvp flags) w1 = (0, w2)" "same_but_uses w1 w2"
    "hash_ok k w2" "hash_find k w2 p devvp = None" "makes_alias k w2 p devvp x v n"
  shows "\<exists>w'. run_state (tptfs_root k p flags vpp) w1 = ((0, v), w') \<and> v_vflag (vnodes w' v) = VV_ROOT
    \<and> v_type (vnodes w' v) = v_type (vnodes w1 devvp) \<and> NULLVPTOLOWERVP w' v = devvp"
proof -
  have root: "nullm_lowerrootvp (mntdatas w1 (MOUNTTONULLMOUNT w1 p)) = devvp" using mountfs_links [OF assms(2)] by simp
  with assms(4) have root2: "nullm_lowerrootvp (mntdatas w2 (MOUNTTONULLMOUNT w2 p)) = devvp" "v_type (vnodes w2 devvp) = v_type (vnodes w1 devvp)"
    by (auto simp: same_but_uses_def MOUNTTONULLMOUNT_def)
  have m: "v \<noteq> devvp" "v_vflag n = 0" using assms(7) by (simp_all add: makes_alias_def)
  note s = linked_sel [OF m(1), where p = p and x = x and n = n and w = w2]
  have "run_state (tptfs_root k p flags vpp) w1 = ((0, v), hash_insert k x (nodeget_linked p v x devvp n w2))"
    using nodeget_new [OF assms(1,5-7)] by (simp add: tptfs_root_def root assms(3))
  then show ?thesis using s m root2 by (simp add: NULLVPTOLOWERVP_def VTONULL_def)
qed

theorem tptfs_root_of_device_witness:
  "\<exists>w'. run_state (tptfs_root quiet_kernel 2 LK_EXCLUSIVE 0) (snd (run_state (tpt_mountfs quiet_kernel 5 2) quiet_world)) = ((0, 9), w')
    \<and> v_vflag (vnodes w' 9) = VV_ROOT"
proof -
  define w1 where "w1 = snd (run_state (tpt_mountfs quiet_kernel 5 2) quiet_world)"
  have t: "tpt_node_hashtbl (add_use 5 1 w1) = (\<lambda>_. [])"
    by (simp add: w1_def quiet_mountfs mountfs_link_def mountfs_fill_def) (simp add: quiet_world_def)
  then have h: "hashed (add_use 5 1 w1) = {}" "hash_ok quiet_kernel (add_use 5 1 w1)" "hash_find quiet_kernel (add_use 5 1 w1) 2 5 = None"
    by (simp_all add: hashed_def hash_ok_def hash_find_def)
  have "makes_alias quiet_kernel (add_use 5 1 w1) 2 5 1 9 (blank_vnode\<lparr>v_op := tpt_vnodeops, v_usecount := 1\<rparr>)"
    using h by (simp add: makes_alias_def blank_vnode_def Let_def hashed_def)
  with h show ?thesis
    using tptfs_root_of_device [of quiet_kernel 5 2 quiet_world w1 LK_EXCLUSIVE "add_use 5 1 w1" 1 9 _ 0]
    by (auto simp: w1_def quiet_mountfs)
qed

end
