(* ===== verification/Tpt_Dispatch.thy ===== *)
theory Tpt_Dispatch
  imports Tpt_Vfsops
begin

text \<open>
  The operation vector \<open>tpt_vnodeops\<close> of \<open>tptfs/tpt_vnops.c\<close>, and \<open>tpt_print\<close>.  The kernel calls an operation of a vnode through
  the vector of the vnode; an operation without an entry goes to the entry \<open>vop_bypass\<close>.  \<open>VOP_generic\<close> is that
  call for the operations whose model takes an argument structure; the others take their own
  arguments and are called directly.
\<close>

datatype vop =
    vop_access | vop_accessx | vop_advlockpurge | vop_bmap | vop_stat | vop_getattr | vop_getwritemount | vop_inactive
  | vop_need_inactive | vop_islocked | vop_lock1 | vop_lookup | vop_open | vop_print | vop_read_pgcache | vop_reclaim
  | vop_remove | vop_rename | vop_rmdir | vop_setattr | vop_strategy | vop_unlock | vop_vptocnp | vop_vptofh
  | vop_add_writecount | vop_vput_pair | vop_unlisted string

text \<open>An entry: an operation of the layer on an argument structure, one with its own arguments (by its C name), a
  standard operation of the kernel (by its C name), or the one that refuses.\<close>

datatype vop_entry =
    Layer "kernel \<Rightarrow> vop_args \<Rightarrow> (errno \<times> vop_args) km"
  | Layer_own string
  | Kernel_std string
  | VOP_EOPNOTSUPP

definition tpt_print :: "vp \<Rightarrow> (errno \<times> string \<times> vp \<times> vp) km" where
  "tpt_print v = do {
     lowervp \<leftarrow> asks (\<lambda>w. tpt_lowervp (nodes w (VTONULL w v)));
     ret (0, ''vp=%p, lowervp=%p'', v, lowervp) }"

fun tpt_vnodeops_entry :: "vop \<Rightarrow> vop_entry" where
  "tpt_vnodeops_entry vop_access = Layer tpt_access"
| "tpt_vnodeops_entry vop_accessx = Layer tpt_accessx"
| "tpt_vnodeops_entry vop_advlockpurge = Kernel_std ''vop_stdadvlockpurge''"
| "tpt_vnodeops_entry vop_bmap = VOP_EOPNOTSUPP"
| "tpt_vnodeops_entry vop_stat = Layer tpt_stat"
| "tpt_vnodeops_entry vop_getattr = Layer tpt_getattr"
| "tpt_vnodeops_entry vop_getwritemount = Layer_own ''tpt_getwritemount''"
| "tpt_vnodeops_entry vop_inactive = Layer_own ''tpt_inactive''"
| "tpt_vnodeops_entry vop_need_inactive = Layer_own ''tpt_need_inactive''"
| "tpt_vnodeops_entry vop_islocked = Kernel_std ''vop_stdislocked''"
| "tpt_vnodeops_entry vop_lock1 = Layer_own ''tpt_lock''"
| "tpt_vnodeops_entry vop_lookup = Layer_own ''tpt_lookup''"
| "tpt_vnodeops_entry vop_open = Layer tpt_open"
| "tpt_vnodeops_entry vop_print = Layer_own ''tpt_print''"
| "tpt_vnodeops_entry vop_read_pgcache = Layer_own ''tpt_read_pgcache''"
| "tpt_vnodeops_entry vop_reclaim = Layer_own ''tpt_reclaim''"
| "tpt_vnodeops_entry vop_remove = Layer tpt_remove"
| "tpt_vnodeops_entry vop_rename = Layer tpt_rename"
| "tpt_vnodeops_entry vop_rmdir = Layer tpt_rmdir"
| "tpt_vnodeops_entry vop_setattr = Layer tpt_setattr"
| "tpt_vnodeops_entry vop_strategy = VOP_EOPNOTSUPP"
| "tpt_vnodeops_entry vop_unlock = Layer_own ''tpt_unlock''"
| "tpt_vnodeops_entry vop_vptocnp = Layer_own ''tpt_vptocnp''"
| "tpt_vnodeops_entry vop_vptofh = Layer_own ''tpt_vptofh''"
| "tpt_vnodeops_entry vop_add_writecount = Layer_own ''tpt_add_writecount''"
| "tpt_vnodeops_entry vop_vput_pair = Layer_own ''tpt_vput_pair''"
| "tpt_vnodeops_entry (vop_unlisted _) = Layer tpt_bypass"

definition VOP_generic :: "kernel \<Rightarrow> vop \<Rightarrow> vop_args \<Rightarrow> (errno \<times> vop_args) km option" where
  "VOP_generic k op ap = (case tpt_vnodeops_entry op of
     Layer f \<Rightarrow> Some (f k ap)
   | VOP_EOPNOTSUPP \<Rightarrow> Some (ret (EOPNOTSUPP, ap))
   | _ \<Rightarrow> None)"

text \<open>Operations on the blocks of a file are refused without an effect: the layer has none of its own.\<close>

lemma block_operations_refused:
  "op = vop_bmap \<or> op = vop_strategy \<Longrightarrow> map_option (\<lambda>f. run_state f w) (VOP_generic k op ap) = Some ((EOPNOTSUPP, ap), w)"
  by (auto simp: VOP_generic_def)

end
