(* ===== verification/Tpt_Layer.thy ===== *)
theory Tpt_Layer
  imports Tpt_Dispatch
begin

text \<open>
  The layer as a whole: the table \<open>tpt_vfsops\<close> of \<open>tptfs/tpt_vfsops.c\<close>, the calls the kernel makes through both tables, and the
  worlds that are reachable by them from the load of the module (\<open>tptfs_init\<close>).  What holds in all of
  them is proved once for every operation, under a rely condition: a kernel function that runs meanwhile, and
  what other threads do while it sleeps, keeps the alias table well formed too.  The last part is what \<open>tpt_lookup\<close> answers.
\<close>

section \<open>The tables\<close>

record vfsops =
  vfs_extattrctl :: "kernel \<Rightarrow> mp \<Rightarrow> int \<Rightarrow> vp \<Rightarrow> int \<Rightarrow> string \<Rightarrow> errno km"
  vfs_fhtovp :: "kernel \<Rightarrow> mp \<Rightarrow> nat \<Rightarrow> u32 \<Rightarrow> (errno \<times> vp) km"
  vfs_init :: "kernel \<Rightarrow> errno km"
  vfs_mount :: "kernel \<Rightarrow> mp \<Rightarrow> errno option km"
  vfs_quotactl :: "kernel \<Rightarrow> mp \<Rightarrow> int \<Rightarrow> u32 \<Rightarrow> nat \<Rightarrow> errno km"
  vfs_root :: "kernel \<Rightarrow> mp \<Rightarrow> u32 \<Rightarrow> vp \<Rightarrow> (errno \<times> vp) km"
  vfs_statfs_op :: "kernel \<Rightarrow> mp \<Rightarrow> statfs \<Rightarrow> (errno \<times> statfs) km"
  vfs_sync :: "mp \<Rightarrow> int \<Rightarrow> errno km"
  vfs_uninit :: "kernel \<Rightarrow> errno km"
  vfs_unmount :: "kernel \<Rightarrow> mp \<Rightarrow> u64 \<Rightarrow> world \<Rightarrow> (errno \<times> world) option"
  vfs_vget :: "kernel \<Rightarrow> mp \<Rightarrow> u64 \<Rightarrow> u32 \<Rightarrow> (errno \<times> vp) km"
  vfs_reclaim_lowervp :: "kernel \<Rightarrow> mp \<Rightarrow> vp \<Rightarrow> unit km"
  vfs_unlink_lowervp :: "kernel \<Rightarrow> mp \<Rightarrow> vp \<Rightarrow> unit km"

definition tpt_vfsops_table :: vfsops where
  "tpt_vfsops_table = \<lparr>
     vfs_extattrctl = tptfs_extattrctl,
     vfs_fhtovp = tptfs_fhtovp,
     vfs_init = tptfs_init,
     vfs_mount = tptfs_mount,
     vfs_quotactl = tptfs_quotactl,
     vfs_root = tptfs_root,
     vfs_statfs_op = tptfs_statfs,
     vfs_sync = tptfs_sync,
     vfs_uninit = tptfs_uninit,
     vfs_unmount = tptfs_unmount,
     vfs_vget = tptfs_vget,
     vfs_reclaim_lowervp = tptfs_reclaim_lowervp,
     vfs_unlink_lowervp = tptfs_unlink_lowervp\<rparr>"

text \<open>
  The calls of the kernel, with their arguments.  \<open>Generic\<close> is an operation on an argument structure; a structure describes at
  least one vnode, and the caller of \<open>VOP_RECLAIM\<close> has the vnode for itself, locked exclusively and doomed.
  The result is the world afterwards, \<open>None\<close> when the call does not return or is not made.
\<close>

datatype call =
    Generic vop vop_args | Lookup vp vp componentname | Add_writecount vp int | Lock vp u32 | Unlock vp | Inactive vp
  | Need_inactive vp | Reclaim vp | Getwritemount vp mp | Vptofh vp nat | Vptocnp vp vp string nat
  | Read_pgcache vp nat u32 nat | Vput_pair vp "vp option" bool | Print vp
  | Mount mp | Unmount mp u64 | Root mp u32 vp | Quotactl mp int u32 nat | Statfs mp statfs | Sync mp int
  | Vget mp u64 u32 | Fhtovp mp nat u32 | Extattrctl mp int vp int string | Reclaim_lowervp mp vp | Unlink_lowervp mp vp

abbreviation after :: "'a km \<Rightarrow> world \<Rightarrow> world" where
  "after c w \<equiv> snd (run_state c w)"

fun perform :: "kernel \<Rightarrow> call \<Rightarrow> world \<Rightarrow> world option" where
  "perform k (Generic op ap) w =
     (if vdesc_vp_offsets (a_desc ap) 0 = VDESC_NO_OFFSET then None else map_option (\<lambda>c. after c w) (VOP_generic k op ap))"
| "perform k (Lookup dvp vpp cnp) w = Some (after (tpt_lookup k dvp vpp cnp) w)"
| "perform k (Add_writecount v i) w = Some (after (tpt_add_writecount k v i) w)"
| "perform k (Lock v fl) w = (case run_state (tpt_lock k v fl) w of (None, _) \<Rightarrow> None | (Some _, w') \<Rightarrow> Some w')"
| "perform k (Unlock v) w = Some (after (tpt_unlock k v) w)"
| "perform k (Inactive v) w = Some (after (tpt_inactive k v) w)"
| "perform k (Need_inactive v) w = Some (after (tpt_need_inactive v) w)"
| "perform k (Reclaim v) w = (if v \<in> held_vnodes w then Some (after (tpt_reclaim k v) w) else None)"
| "perform k (Getwritemount v m) w = Some (after (tpt_getwritemount k v m) w)"
| "perform k (Vptofh v fh) w = Some (after (tpt_vptofh k v fh) w)"
| "perform k (Vptocnp v dvp buf n) w = Some (after (tpt_vptocnp k v dvp buf n) w)"
| "perform k (Read_pgcache v u fl cr) w = Some (after (tpt_read_pgcache k v u fl cr) w)"
| "perform k (Vput_pair dvp vpp un) w = Some (after (tpt_vput_pair k dvp vpp un) w)"
| "perform k (Print v) w = Some (after (tpt_print v) w)"
| "perform k (Mount p) w = (case run_state (vfs_mount tpt_vfsops_table k p) w of (None, _) \<Rightarrow> None | (Some _, w') \<Rightarrow> Some w')"
| "perform k (Unmount p fl) w = map_option snd (vfs_unmount tpt_vfsops_table k p fl w)"
| "perform k (Root p fl vpp) w = Some (after (vfs_root tpt_vfsops_table k p fl vpp) w)"
| "perform k (Quotactl p cmd uid arg) w = Some (after (vfs_quotactl tpt_vfsops_table k p cmd uid arg) w)"
| "perform k (Statfs p sbp) w = Some (after (vfs_statfs_op tpt_vfsops_table k p sbp) w)"
| "perform k (Sync p waitfor) w = Some (after (vfs_sync tpt_vfsops_table p waitfor) w)"
| "perform k (Vget p ino fl) w = Some (after (vfs_vget tpt_vfsops_table k p ino fl) w)"
| "perform k (Fhtovp p fid fl) w = Some (after (vfs_fhtovp tpt_vfsops_table k p fid fl) w)"
| "perform k (Extattrctl p cmd v ns nm) w = Some (after (vfs_extattrctl tpt_vfsops_table k p cmd v ns nm) w)"
| "perform k (Reclaim_lowervp p l) w = Some (after (vfs_reclaim_lowervp tpt_vfsops_table k p l) w)"
| "perform k (Unlink_lowervp p l) w = Some (after (vfs_unlink_lowervp tpt_vfsops_table k p l) w)"

text \<open>Between two calls another thread may come to run, with what it has for itself.\<close>

inductive reachable :: "kernel \<Rightarrow> world \<Rightarrow> bool" for k where
  load: "reachable k (after (vfs_init tpt_vfsops_table k) w)"
| call: "reachable k w \<Longrightarrow> perform k c w = Some w' \<Longrightarrow> reachable k w'"
| switch: "reachable k w \<Longrightarrow> reachable k (w\<lparr>held_nodes := xs, held_vnodes := vs\<rparr>)"

section \<open>The rely condition\<close>

text \<open>
  The functions that make and take apart an alias satisfy \<open>nodes_law\<close>; every other kernel function, and what other threads do while it sleeps, keeps
  the table well formed, and may enter and reclaim any alias.
\<close>

definition calls_keep :: "kernel \<Rightarrow> bool" where
  "calls_keep k \<longleftrightarrow> (\<forall>v. keeps k (vhold k v) \<and> keeps k (vholdnz k v) \<and> keeps k (vdrop k v) \<and> keeps k (vunref k v) \<and> keeps k (vrecycle k v)
       \<and> keeps k (VOP_UNLOCK k v) \<and> keeps k (vop_stdunlock k v) \<and> keeps k (vn_isdisk_error k v)
       \<and> (\<forall>f. keeps k (vget k v f) \<and> keeps k (VOP_LOCK k v f) \<and> keeps k (vop_stdlock k v f)))
     \<and> (\<forall>ap. keeps k (VCALL k ap)) \<and> (\<forall>v i. keeps k (VOP_ADD_WRITECOUNT k v i)) \<and> (\<forall>v cn. keeps k (VOP_LOOKUP k v cn))
     \<and> (\<forall>v m. keeps k (VOP_GETWRITEMOUNT k v m)) \<and> (\<forall>v fh. keeps k (VOP_VPTOFH k v fh)) \<and> (\<forall>v b n. keeps k (vn_vptocnp k v b n))
     \<and> (\<forall>v u f c. keeps k (VOP_READ_PGCACHE k v u f c)) \<and> (\<forall>d v u. keeps k (VOP_VPUT_PAIR k d v u))
     \<and> (\<forall>p. keeps k (vfs_ref k p) \<and> keeps k (vfs_rel k p) \<and> keeps k (vfs_getopt_from k p) \<and> keeps k (vfs_flagopt_ro k p)
          \<and> keeps k (msleep_uppers k p) \<and> (\<forall>s. keeps k (vfs_mountedfrom k p s)) \<and> (\<forall>f. keeps k (vflush k p f)))
     \<and> (\<forall>s. keeps k (namei k s)) \<and> keeps k (NDFREE k) \<and> (\<forall>v wr. keeps k (g_vfs_open k v wr)) \<and> (\<forall>c. keeps k (g_vfs_close k c))
     \<and> (\<forall>v b n. keeps k (bread k v b n)) \<and> (\<forall>b. keeps k (brelse k b)) \<and> keeps k (malloc_mount k) \<and> keeps k (malloc_fs k)
     \<and> (\<forall>m. keeps k (free_mount k m)) \<and> (\<forall>p c u a. keeps k (VFS_QUOTACTL k p c u a)) \<and> (\<forall>p s. keeps k (VFS_STATFS k p s))
     \<and> (\<forall>p i f. keeps k (VFS_VGET k p i f)) \<and> (\<forall>p h f. keeps k (VFS_FHTOVP k p h f)) \<and> (\<forall>p c v n a. keeps k (VFS_EXTATTRCTL k p c v n a))"

definition rely :: "kernel \<Rightarrow> bool" where
  "rely k \<longleftrightarrow> nodes_law k \<and> calls_keep k"

lemma keepsD: "keeps k c \<Longrightarrow> table_ok k w \<Longrightarrow> table_ok k (after c w)"
  unfolding keeps_def by (drule tripleD) auto

lemma keeps_whenM [keeping]: "keeps k c \<Longrightarrow> keeps k (whenM b c)"
  by (simp add: whenM_def keeps_ret)

lemma keeps_prod [keeping]: "(\<And>a b. keeps k (f a b)) \<Longrightarrow> keeps k (case p of (a, b) \<Rightarrow> f a b)"
  by (cases p) simp

lemma keeps_bool [keeping]: "keeps k c \<Longrightarrow> keeps k d \<Longrightarrow> keeps k (case b of True \<Rightarrow> c | False \<Rightarrow> d)"
  by (cases b) simp_all

text \<open>Well-formedness depends on the keys and the links of the nodes only.\<close>

lemma table_ok_keys:
  assumes "tpt_node_hashtbl w' = tpt_node_hashtbl w" "tpt_hash_mask w' = tpt_hash_mask w"
    "\<And>a. tpt_lowervp (nodes w' a) = tpt_lowervp (nodes w a)" "\<And>a. tpt_vnode (nodes w' a) = tpt_vnode (nodes w a)"
    "\<And>v. v_mount (vnodes w' v) = v_mount (vnodes w v)" "\<And>v. v_data (vnodes w' v) = v_data (vnodes w v)"
  shows "table_ok k w' = table_ok k w"
proof -
  have "alias_key w' = alias_key w" "hashed w' = hashed w" "NULL_NHASH k w' = NULL_NHASH k w" "linked w' = linked w"
    by (simp_all add: fun_eq_iff alias_key_def NULLTOV_def VTONULL_def hashed_def NULL_NHASH_def linked_def assms)
  then show ?thesis by (simp add: table_ok_def hash_ok_def assms)
qed

lemma keeps_modify:
  assumes "\<And>w. tpt_node_hashtbl (f w) = tpt_node_hashtbl w" "\<And>w. tpt_hash_mask (f w) = tpt_hash_mask w"
    "\<And>w a. tpt_lowervp (nodes (f w) a) = tpt_lowervp (nodes w a)" "\<And>w a. tpt_vnode (nodes (f w) a) = tpt_vnode (nodes w a)"
    "\<And>w v. v_mount (vnodes (f w) v) = v_mount (vnodes w v)" "\<And>w v. v_data (vnodes (f w) v) = v_data (vnodes w v)"
  shows "keeps k (modify f)"
  using table_ok_keys [of "f w" w k for w, OF assms] by (simp add: keeps_def triple_modify)

lemma keeps_upd_vnode [keeping]: "(\<And>n. v_mount (f n) = v_mount n) \<Longrightarrow> (\<And>n. v_data (f n) = v_data n) \<Longrightarrow> keeps k (modify (upd_vnode v f))"
  by (rule keeps_modify) simp_all

lemma keeps_own_updates [keeping]:
  "keeps k (modify (mark_flags fl v))" "keeps k (modify (open_object v l))" "keeps k (modify (upd_mount p g))"
  "keeps k (modify (mountfs_fill a b c))" "keeps k (modify (mountfs_link a d p))"
  "keeps k (modify (upd_node x (\<lambda>x. x\<lparr>tpt_flags := h (tpt_flags x)\<rparr>)))"
  by (rule keeps_modify; simp add: mark_flags_def open_object_def mountfs_fill_def mountfs_link_def)+

section \<open>Every operation keeps the table\<close>

lemma kernel_keeps:
  assumes "rely k"
  shows "keeps k (vref k v)" "keeps k (vrele k v)" "keeps k (vput k v)" "keeps k (vgone k v)" "keeps k (lockmgr_exclusive k v)"
    "keeps k (VOP_ISLOCKED k v)" "keeps k (vn_lock k v fl)" "keeps k (free_node k x)" "keeps k (tpt_hashget k p l)" "keeps k (tpt_nodeget k p l)"
    "keeps k (vhold k v)" "keeps k (vholdnz k v)" "keeps k (vdrop k v)" "keeps k (vunref k v)" "keeps k (vrecycle k v)" "keeps k (VOP_UNLOCK k v)"
    "keeps k (vop_stdunlock k v)" "keeps k (vn_isdisk_error k v)" "keeps k (vget k v fl)" "keeps k (VOP_LOCK k v fl)" "keeps k (vop_stdlock k v fl)"
    "keeps k (VCALL k ap)" "keeps k (VOP_ADD_WRITECOUNT k v i)" "keeps k (VOP_LOOKUP k v cn)" "keeps k (VOP_GETWRITEMOUNT k v m)"
    "keeps k (VOP_VPTOFH k v fh)" "keeps k (vn_vptocnp k v buf n)" "keeps k (VOP_READ_PGCACHE k v u io cr)" "keeps k (VOP_VPUT_PAIR k v v' un)"
    "keeps k (vfs_ref k p)" "keeps k (vfs_rel k p)" "keeps k (vfs_getopt_from k p)" "keeps k (vfs_flagopt_ro k p)" "keeps k (msleep_uppers k p)"
    "keeps k (vfs_mountedfrom k p s)" "keeps k (vflush k p fl)" "keeps k (namei k s)" "keeps k (NDFREE k)" "keeps k (g_vfs_open k v wr)"
    "keeps k (g_vfs_close k cp)" "keeps k (bread k v b n)" "keeps k (brelse k b)" "keeps k (malloc_mount k)" "keeps k (malloc_fs k)" "keeps k (free_mount k b)"
    "keeps k (VFS_QUOTACTL k p cmd uid arg)" "keeps k (VFS_STATFS k p sb)" "keeps k (VFS_VGET k p ino fl)" "keeps k (VFS_FHTOVP k p fh fl)"
    "keeps k (VFS_EXTATTRCTL k p cmd v ns nm)"
  using assms by (simp_all add: rely_def calls_keep_def node_calls nodeget_keeps)

lemma bypass_in_keeps:
  assumes "rely k"
  shows "keeps k (bypass_in k d n i reles ap)"
  by (induction n arbitrary: i reles ap) (auto intro!: keeping kernel_keeps [OF assms])

lemma bypass_out_keeps:
  assumes "rely k"
  shows "keeps k (bypass_out k d olds i reles ap)"
  by (induction olds arbitrary: i reles ap) (auto simp: lock_split_def intro!: keeping kernel_keeps [OF assms])

text \<open>The argument structure describes a vnode, which the first step of the routine maps.\<close>

lemma bypass_in_first:
  assumes "vdesc_vp_offsets d 0 \<noteq> VDESC_NO_OFFSET"
  shows "fst (fst (run_state (bypass_in k d VDESC_MAX_VPS 0 reles ap) w)) \<noteq> []"
  using assms by (simp add: VDESC_MAX_VPS_def numeral_eq_Suc case_prod_beta)

lemma bypass_keeps:
  assumes "rely k" "vdesc_vp_offsets (a_desc ap) 0 \<noteq> VDESC_NO_OFFSET"
  shows "keeps k (tpt_bypass k ap)"
proof -
  have "triple (table_ok k) (bypass_in k (a_desc ap) VDESC_MAX_VPS 0 reles ap) (\<lambda>r w. fst r \<noteq> [] \<and> table_ok k w)" for reles
  proof (rule tripleI)
    fix w r w' assume w: "table_ok k w" and run: "run_state (bypass_in k (a_desc ap) VDESC_MAX_VPS 0 reles ap) w = (r, w')"
    show "fst r \<noteq> [] \<and> table_ok k w'"
      using bypass_in_first [OF assms(2), of k reles ap w] keepsD [OF bypass_in_keeps [OF assms(1)] w, of "a_desc ap" VDESC_MAX_VPS 0 reles ap] run
      by simp
  qed
  note first = triple_bind [OF this]
  have rest: "keeps k (bypass_vpp k d v e ap')" for d v e ap'
    unfolding bypass_vpp_def by (intro keeping kernel_keeps [OF assms(1)])
  have only_ok: "triple (\<lambda>w. fst r \<noteq> [] \<and> table_ok k w) (if fst r = [] then c else c') (\<lambda>_. table_ok k)" if "keeps k c'" for r :: "vp list \<times> vop_args" and c c'
    using that by (auto simp: keeps_def triple_def)
  show ?thesis
    unfolding keeps_def tpt_bypass_def Let_def case_prod_beta
    by (rule first, rule only_ok) (intro keeping kernel_keeps [OF assms(1)] bypass_out_keeps [OF assms(1)] rest)
qed

lemmas layer_bypass_defs = tpt_access_def tpt_accessx_def tpt_stat_def tpt_getattr_def tpt_setattr_def tpt_open_def

lemma generic_keeps:
  assumes "rely k" "vdesc_vp_offsets (a_desc ap) 0 \<noteq> VDESC_NO_OFFSET" "VOP_generic k op ap = Some c"
  shows "keeps k c"
proof -
  note ks = keeping kernel_keeps [OF assms(1)] bypass_keeps [OF assms(1,2)]
  have "keeps k (tpt_access k ap)" "keeps k (tpt_accessx k ap)" "keeps k (tpt_stat k ap)" "keeps k (tpt_getattr k ap)" "keeps k (tpt_setattr k ap)"
    "keeps k (tpt_open k ap)"
    unfolding layer_bypass_defs Let_def by (intro ks)+
  moreover have "keeps k (tpt_remove k ap)" "keeps k (tpt_rename k ap)" "keeps k (tpt_rmdir k ap)"
    unfolding tpt_remove_def tpt_rename_def tpt_rmdir_def Let_def by (intro ks)+
  ultimately show ?thesis
    using assms(3) bypass_keeps [OF assms(1,2)] by (cases op) (auto simp: VOP_generic_def keeps_ret)
qed

lemma vnode_ops_keep:
  assumes "rely k"
  shows "keeps k (tpt_lookup k dvp vpp cnp)" "keeps k (tpt_add_writecount k v i)" "keeps k (tpt_lock k v fl)" "keeps k (tpt_unlock k v)"
    "keeps k (tpt_inactive k v)" "keeps k (tpt_need_inactive v)" "keeps k (tpt_getwritemount k v m)"
    "keeps k (tpt_vptofh k v fh)" "keeps k (tpt_vptocnp k v dvp buf n)" "keeps k (tpt_read_pgcache k v u fl cr)"
    "keeps k (tpt_vput_pair k dvp ovpp un)" "keeps k (tpt_print v)"
  unfolding tpt_lookup_def lookup_doomed_def tpt_add_writecount_def tpt_lock_def tpt_unlock_def tpt_inactive_def tpt_need_inactive_def
    tpt_getwritemount_def tpt_vptofh_def tpt_vptocnp_def tpt_read_pgcache_def tpt_vput_pair_def vput_pair_after_def tpt_print_def Let_def
  by ((intro keeping kernel_keeps [OF assms]; simp)+)

text \<open>A vnode that is reclaimed loses its node; by then no node in the table has it.\<close>

lemma hashrem_triple:
  "triple (\<lambda>w. table_ok k w \<and> v \<in> held_vnodes w \<and> VTONULL w v = x) (tpt_hashrem x) (\<lambda>_ w. table_ok k w \<and> v \<in> own_vnodes w)"
  unfolding tpt_hashrem_def
proof (rule triple_modify)
  fix w assume w: "table_ok k w \<and> v \<in> held_vnodes w \<and> VTONULL w v = x"
  then have ok: "hash_ok k w" by (simp add: table_ok_def)
  note r = hash_remove_ok [OF ok, of x]
  have n: "NULLTOV (hash_remove x w) = NULLTOV w" "VTONULL (hash_remove x w) = VTONULL w" by (simp_all add: fun_eq_iff NULLTOV_def VTONULL_def)
  show "table_ok k (hash_remove x w) \<and> v \<in> own_vnodes (hash_remove x w)"
    using w r n by (auto simp: table_ok_def linked_def own_vnodes_def table_vnodes_def)
qed

lemma reclaim_triple:
  assumes "rely k"
  shows "triple (\<lambda>w. table_ok k w \<and> v \<in> held_vnodes w) (tpt_reclaim k v) (\<lambda>_. table_ok k)"
proof -
  let ?P = "\<lambda>x w. table_ok k w \<and> v \<in> held_vnodes w \<and> VTONULL w v = x"
  have r: "nodes_law k" using assms by (simp add: rely_def)
  note ks = keeping kernel_keeps [OF assms]
  have first: "triple (\<lambda>w. table_ok k w \<and> v \<in> held_vnodes w) (asks (\<lambda>w. VTONULL w v)) ?P" by (rule triple_asks) simp
  have second: "triple (?P x) (asks f) (\<lambda>_. ?P x)" for x and f :: "world \<Rightarrow> vp" by (rule triple_asks)
  let ?rest = "\<lambda>x l. do {
       wc \<leftarrow> asks (\<lambda>w. v_writecount (vnodes w v));
       (if wc > 0 then do { VOP_ADD_WRITECOUNT k l (- wc); ret () }
        else whenM (wc < 0) (modify (upd_vnode v (\<lambda>n. n\<lparr>v_writecount := 0\<rparr>))));
       nounlock \<leftarrow> asks (\<lambda>w. tpt_flags (nodes w x) AND NULLV_NOUNLOCK \<noteq> 0);
       (if nounlock then vunref k l else vput k l);
       free_node k x;
       ret (0 :: errno) }"
  have "keeps k (?rest x l)" for x l by (intro ks; simp)
  then have rest: "triple (\<lambda>w. table_ok k w \<and> v \<in> own_vnodes w) (?rest x l) (\<lambda>_. table_ok k)" for x l
    unfolding keeps_def by (rule triple_conseq) auto
  show ?thesis
    unfolding tpt_reclaim_def
    by (intro triple_bind [OF first] triple_bind [OF second] triple_bind [OF hashrem_triple] triple_bind [OF own_update_triple] rest
      triple_bind [OF leaves_own_triple(2) [OF node_calls(12) [OF r]]])
qed

lemma mount_keeps:
  assumes "rely k"
  shows "keeps k (tptfs_mount k p)"
proof -
  note ks = keeping kernel_keeps [OF assms]
  have "keeps k (tpt_mountfs k devvp p)" for devvp
    unfolding tpt_mountfs_def tpt_compute_sb_data_def mountfs_out_def by (intro ks; simp)
  then have "keeps k (mount_device k p s)" for s
    unfolding mount_device_def by (intro ks)
  then show ?thesis unfolding tptfs_mount_def by (intro ks)
qed

lemma vfs_ops_keep:
  assumes "rely k"
  shows "keeps k (tptfs_root k p fl vpp)" "keeps k (tptfs_quotactl k p cmd uid arg)" "keeps k (tptfs_statfs k p sbp)" "keeps k (tptfs_sync p wt)"
    "keeps k (tptfs_vget k p ino fl)" "keeps k (tptfs_fhtovp k p fh fl)" "keeps k (tptfs_extattrctl k p cmd v ns nm)"
    "keeps k (tptfs_reclaim_lowervp k p l)" "keeps k (tptfs_unlink_lowervp k p l)" "keeps k (unmount_free k p b)"
  unfolding tptfs_root_def tptfs_quotactl_def tptfs_statfs_def tptfs_sync_def tptfs_vget_def tptfs_fhtovp_def tptfs_extattrctl_def
    tptfs_reclaim_lowervp_def tptfs_unlink_lowervp_def unmount_free_def
  by ((intro keeping kernel_keeps [OF assms])+)

text \<open>The two loops of the unmount, by induction on the steps they make before they end.\<close>

lemma unmount_flush_keeps:
  "unmount_flush k p mntflags fl w = Some r \<Longrightarrow> rely k \<Longrightarrow> table_ok k w \<Longrightarrow> table_ok k (snd r)"
proof (induction rule: unmount_flush.raw_induct [rotated - 1, consumes 1])
  case (1 rec k p mntflags fl w r)
  obtain e w1 where v: "run_state (vflush k p fl) w = (e, w1)" by fastforce
  have "table_ok k w1" using keepsD [OF kernel_keeps(36) [OF 1(3)] 1(4), of p fl] v by simp
  then show ?case using 1(1) [OF _ 1(3)] 1(2) by (auto simp: v split: if_splits)
qed

lemma table_ok_upd_mount: "table_ok k (upd_mount p f w) = table_ok k w"
  by (rule table_ok_keys) simp_all

lemma upper_wait_keeps: "upper_wait k p w = Some w' \<Longrightarrow> rely k \<Longrightarrow> table_ok k w \<Longrightarrow> table_ok k w'"
proof (induction rule: upper_wait.raw_induct [rotated - 1, consumes 1])
  case (1 rec k p w w')
  have "table_ok k (after (msleep_uppers k p) (upd_mount p f w))" for f
    using 1(4) by (intro keepsD [OF kernel_keeps(34) [OF 1(3)]]) (simp add: table_ok_upd_mount)
  then show ?case using 1(1) [OF _ 1(3)] 1(2,4) by (simp split: if_splits)
qed

lemma unmount_keeps:
  assumes "rely k" "tptfs_unmount k p mntflags w = Some (e, w')" "table_ok k w"
  shows "table_ok k w'"
proof -
  obtain e1 w1 where 1: "unmount_flush k p mntflags (if mntflags AND MNT_FORCE \<noteq> 0 then FORCECLOSE else 0) w = Some (e1, w1)"
    using assms(2) by (auto simp: tptfs_unmount_def split: option.splits)
  have ok: "table_ok k w1" using unmount_flush_keeps [OF 1 assms(1,3)] by simp
  show ?thesis
  proof (cases "e1 = 0")
    case True
    then obtain w2 where 2: "unmount_detach k p w1 = Some w2" "run_state (unmount_free k p (MOUNTTONULLMOUNT w1 p)) w2 = (e, w')"
      using assms(2) 1 by (auto simp: tptfs_unmount_def split: option.splits)
    have "table_ok k w2"
      using 2(1) ok upper_wait_keeps [OF _ assms(1)] by (auto simp: unmount_detach_def Let_def table_ok_upd_mount split: if_splits)
    then show ?thesis using keepsD [OF vfs_ops_keep(10) [OF assms(1)]] 2(2) by (metis snd_conv)
  qed (use assms(2) 1 ok in \<open>simp add: tptfs_unmount_def\<close>)
qed

lemma perform_keeps:
  assumes "rely k" "perform k c w = Some w'" "table_ok k w"
  shows "table_ok k w'"
proof -
  note ops = keepsD [OF _ assms(3)]
  show ?thesis
  proof (cases c)
    case (Generic op ap)
    then show ?thesis using assms(2) ops generic_keeps [OF assms(1)] by (auto split: if_splits)
  next
    case (Lock v fl)
    then show ?thesis using assms(2) ops [OF vnode_ops_keep(3) [OF assms(1)], of v fl] by (auto split: prod.splits option.splits)
  next
    case (Mount p)
    then show ?thesis using assms(2) ops [OF mount_keeps [OF assms(1)], of p] by (auto simp: tpt_vfsops_table_def split: prod.splits option.splits)
  next
    case (Unmount p fl)
    then show ?thesis using assms(2) unmount_keeps [OF assms(1) _ assms(3)] by (auto simp: tpt_vfsops_table_def)
  next
    case (Reclaim v)
    then show ?thesis using assms(2,3) tripleD [OF reclaim_triple [OF assms(1)], of w v] by (auto split: if_splits)
  qed (use assms(2) in \<open>auto simp: tpt_vfsops_table_def intro!: ops vnode_ops_keep [OF assms(1)] vfs_ops_keep [OF assms(1)]\<close>)
qed

lemma reachable_ok: "reachable k w \<Longrightarrow> rely k \<Longrightarrow> table_ok k w"
proof (induction rule: reachable.induct)
  case (load w)
  then show ?case by (simp add: tpt_vfsops_table_def tptfs_init_def table_ok_def hash_ok_def linked_def hashed_def case_prod_beta)
next
  case (call w c w')
  then show ?case using perform_keeps by blast
next
  case (switch w vs xs)
  have "table_ok k (w\<lparr>held_nodes := xs, held_vnodes := vs\<rparr>) = table_ok k w" by (rule table_ok_keys) simp_all
  with switch show ?case by simp
qed

lemma quiet_rely [simp]: "rely quiet_kernel"
proof -
  have "keeps quiet_kernel (modify (add_use v n))" for v n by (rule keeps_modify; simp)
  moreover have "table_ok quiet_kernel (upd_vnode v (\<lambda>n. n\<lparr>v_writecount := v_writecount n + i\<rparr>) w) = table_ok quiet_kernel w" for v i w
    by (rule table_ok_keys) simp_all
  then have "keeps quiet_kernel (State (\<lambda>w. if v_writecount (vnodes w v) < 0 then (ETXTBSY, w)
      else (0, upd_vnode v (\<lambda>n. n\<lparr>v_writecount := v_writecount n + i\<rparr>) w)))" for v i by (auto simp: keeps_def triple_def)
  ultimately have s: "keeps quiet_kernel (modify (add_use v n))" "keeps quiet_kernel (State (\<lambda>w. if v_writecount (vnodes w v) < 0 then (ETXTBSY, w)
      else (0, upd_vnode v (\<lambda>n. n\<lparr>v_writecount := v_writecount n + i\<rparr>) w)))" for v n i by blast+
  have "calls_keep quiet_kernel" by (auto simp: calls_keep_def intro!: keeping s)
  then show ?thesis by (simp add: rely_def)
qed

section \<open>Properties\<close>

text \<open>C7: in every world that the layer reaches from its load by calls of the kernel through its two tables, by any threads in turn (all vnode and file system
  operations, on their error paths too, mounting and unmounting), the alias table is well formed: a pair of a
  mount point and a lower vnode has one node at most, and a lookup that finds a node finds the node of that pair, whose vnode
  points back to it, so that the vnode's operations go to the lower vnode that was looked up, and is the vnode of no other node.
  The kernel functions are relied on to keep the table well formed while they run, whatever other threads enter and reclaim meanwhile: an alias of
  the same pair may be entered while \<open>tpt_nodeget\<close> sleeps, which \<open>tpt_hashins\<close> then finds.  Only the
  node and the vnode that the running thread was given and has not entered yet are not entered by another thread.\<close>

theorem reachable_aliases:
  assumes "rely k" "reachable k w"
  shows "inj_on (alias_key w) (hashed w) \<and> inj_on (NULLTOV w) (hashed w)
    \<and> (\<forall>p l a. hash_find k w p l = Some a \<longleftrightarrow> a \<in> hashed w \<and> alias_key w a = (p, l))
    \<and> (\<forall>p l a. hash_find k w p l = Some a \<longrightarrow> VTONULL w (NULLTOV w a) = a \<and> NULLVPTOLOWERVP w (NULLTOV w a) = l
         \<and> v_mount (vnodes w (NULLTOV w a)) = p)"
proof -
  have ok: "hash_ok k w" "linked w" using reachable_ok [OF assms(2,1)] by (simp_all add: table_ok_def)
  have "inj_on (NULLTOV w) (hashed w)" using ok(2) unfolding linked_def by (metis inj_onI)
  moreover have "inj_on (alias_key w) (hashed w)" using ok(1) by (simp add: hash_ok_def)
  ultimately show ?thesis
    using ok(2) hash_find_iff [OF ok(1)] by (auto simp: linked_def alias_key_def NULLVPTOLOWERVP_def)
qed

text \<open>A world the module reaches: it is loaded over the world of the examples, a device is mounted, and its root is asked for.\<close>

abbreviation mounted_world :: world where
  "mounted_world \<equiv> mountfs_link 7 5 2 (mountfs_fill 7 8 6 (upd_vnode 5 (\<lambda>n. n\<lparr>bo_private := 3, bo_ops := 4\<rparr>) quiet_world))"

abbreviation new_vnode :: vnode where
  "new_vnode \<equiv> blank_vnode\<lparr>v_op := tpt_vnodeops, v_usecount := 1\<rparr>"

lemma quiet_mounted: "perform quiet_kernel (Mount 2) quiet_world = Some mounted_world"
proof -
  have "mnt_flag (mounts quiet_world 2) = 0" by (simp add: quiet_world_def)
  then show ?thesis by (simp add: tpt_vfsops_table_def tptfs_mount_def fspec_terminated_def mount_device_def quiet_mountfs)
qed

text \<open>
  A kernel with a second thread.  While \<open>getnewvnode\<close> sleeps the other thread makes an alias of vnode 5 for the same mount point,
  with the node 101 and the vnode 109, if there is none yet and no one else has the two.
\<close>

definition rival_linked :: "mp \<Rightarrow> world \<Rightarrow> world" where
  "rival_linked p w = upd_vnode 109 (\<lambda>n. n\<lparr>v_mount := p, v_data := 101, v_usecount := 1\<rparr>) (upd_node 101 (\<lambda>x. x\<lparr>tpt_vnode := 109, tpt_lowervp := 5\<rparr>) w)"

definition rival :: "mp \<Rightarrow> world \<Rightarrow> world" where
  "rival p w = (if hash_find quiet_kernel w p 5 = None \<and> 101 \<notin> held_nodes w \<union> hashed w \<and> 109 \<notin> held_vnodes w \<union> table_vnodes w
     then hash_insert quiet_kernel 101 (rival_linked p w) else w)"

definition race_kernel :: kernel where
  "race_kernel = quiet_kernel\<lparr>getnewvnode := (\<lambda>p ops. State (\<lambda>w. run_state (getnewvnode quiet_kernel p ops) (rival p w)))\<rparr>"

lemma other_getnewvnode:
  fixes k g defines "k' \<equiv> k\<lparr>getnewvnode := g\<rparr>"
  shows "hash_find k' = hash_find k" "hash_insert k' = hash_insert k" "table_ok k' = table_ok k" "keeps k' c = keeps k c" "others k' = others k" "leaves_own k' d = leaves_own k d"
    "calls_keep k' = calls_keep k" "calls_leave_own k' = calls_leave_own k" "malloc_law k' = malloc_law k" "insmntque1_law k' = insmntque1_law k"
proof -
  have n: "NULL_NHASH k' = NULL_NHASH k" by (simp add: fun_eq_iff NULL_NHASH_def k'_def)
  then show "hash_find k' = hash_find k" "hash_insert k' = hash_insert k" by (simp_all add: fun_eq_iff hash_find_def hash_insert_def)
  show t: "table_ok k' = table_ok k" by (simp add: fun_eq_iff table_ok_def hash_ok_def n)
  then show o: "others k' = others k" by (simp add: fun_eq_iff others_def)
  show "keeps k' c = keeps k c" "leaves_own k' d = leaves_own k d" by (simp_all add: keeps_def leaves_own_def t o)
  have "keeps k' = keeps k" "leaves_own k' = leaves_own k" for c by (simp_all add: fun_eq_iff keeps_def leaves_own_def t o)
  show "malloc_law k' = malloc_law k" "insmntque1_law k' = insmntque1_law k" by (simp_all add: malloc_law_def insmntque1_law_def t o) (simp_all add: k'_def)
  show "calls_leave_own k' = calls_leave_own k" by (simp add: calls_leave_own_def keeps_def leaves_own_def t o) (simp add: k'_def)
  show "calls_keep k' = calls_keep k" by (simp add: calls_keep_def keeps_def t) (simp add: k'_def)
qed

lemma rival_others:
  assumes "table_ok quiet_kernel w"
  shows "others quiet_kernel w (rival p w)"
proof (cases "hash_find quiet_kernel w p 5 = None \<and> 101 \<notin> held_nodes w \<union> hashed w \<and> 109 \<notin> held_vnodes w \<union> table_vnodes w")
  case True
  let ?w = "rival_linked p w"
  have f: "101 \<notin> hashed w" "101 \<notin> held_nodes w" "109 \<notin> held_vnodes w" "\<And>a. a \<in> hashed w \<Longrightarrow> NULLTOV w a \<noteq> 109" using True by (auto simp: table_vnodes_def)
  have s: "tpt_node_hashtbl ?w = tpt_node_hashtbl w" "tpt_hash_mask ?w = tpt_hash_mask w" "held_nodes ?w = held_nodes w" "held_vnodes ?w = held_vnodes w"
    "a \<in> hashed w \<Longrightarrow> nodes ?w a = nodes w a" "a \<in> hashed w \<Longrightarrow> vnodes ?w (NULLTOV w a) = vnodes w (NULLTOV w a)"
    "alias_key ?w 101 = (p, 5)" "NULLTOV ?w 101 = 109" "VTONULL ?w 109 = 101" for a
    using f by (auto simp: rival_linked_def alias_key_def NULLTOV_def VTONULL_def)
  have c: "table_ok quiet_kernel ?w = table_ok quiet_kernel w" "hashed ?w = hashed w" "\<And>a. a \<in> hashed w \<Longrightarrow> NULLTOV ?w a = NULLTOV w a"
    by (rule table_ok_cong [OF s(1,2)]; simp add: s)+
  have "hash_find quiet_kernel ?w p 5 = None"
    using hash_find_cong [of quiet_kernel w ?w p 5] assms True s by (simp add: table_ok_def)
  then have "hash_ok quiet_kernel (hash_insert quiet_kernel 101 ?w)" using hash_insert_ok [of quiet_kernel ?w 101] c assms s(7) by (simp add: table_ok_def)
  moreover have "linked (hash_insert quiet_kernel 101 ?w)"
    using c(1,2) assms s(8,9) by (simp add: linked_def table_ok_def VTONULL_def NULLTOV_def)
  moreover have "table_vnodes (hash_insert quiet_kernel 101 ?w) = insert 109 (table_vnodes w)"
    using c(2,3) s(8) by (simp add: table_vnodes_def NULLTOV_def)
  ultimately show ?thesis using True c(2) f(2,3) s(3,4) by (auto simp: rival_def others_def table_ok_def own_nodes_def own_vnodes_def)
qed (auto simp: rival_def others_refl)

lemma race_rely: "rely race_kernel"
proof -
  have q: "getnewvnode_law quiet_kernel" using quiet_laws by (simp add: nodes_law_def)
  have "getnewvnode_law race_kernel"
    unfolding getnewvnode_law_def leaves_own_def
  proof (intro conjI allI impI, goal_cases)
    case (1 p ops w)
    then have w: "table_ok quiet_kernel w" by (simp add: race_kernel_def other_getnewvnode)
    have "table_ok quiet_kernel (rival p w)" using rival_others [OF w] w by (simp add: others_def)
    then have "others quiet_kernel (rival p w) (after (getnewvnode quiet_kernel p ops) (rival p w))"
      using q by (simp only: getnewvnode_law_def leaves_own_def)
    with rival_others [OF w, of p] show ?case by (auto simp: race_kernel_def other_getnewvnode simp del: quiet_sel intro: others_trans)
  next
    case (2 p ops w e v w')
    then have w: "table_ok quiet_kernel w" by (simp add: race_kernel_def other_getnewvnode)
    have "table_ok quiet_kernel (rival p w)" using rival_others [OF w] w by (simp add: others_def)
    moreover have "run_state (getnewvnode quiet_kernel p ops) (rival p w) = ((e, v), w')" "e = 0"
      using 2 by (simp_all add: race_kernel_def del: quiet_sel)
    ultimately show ?case using q unfolding getnewvnode_law_def by blast
  qed
  moreover have "nodes_law quiet_kernel" "calls_keep quiet_kernel" using quiet_rely by (simp_all add: rely_def)
  ultimately show ?thesis
    by (simp add: rely_def nodes_law_def race_kernel_def other_getnewvnode del: quiet_sel)
qed

lemma race_calls:
  "hash_find race_kernel = hash_find quiet_kernel" "hash_insert race_kernel = hash_insert quiet_kernel"
  "vref race_kernel = vref quiet_kernel" "vrele race_kernel = vrele quiet_kernel" "vput race_kernel = vput quiet_kernel" "vgone race_kernel = vgone quiet_kernel"
  "vget race_kernel = vget quiet_kernel" "hashinit race_kernel = hashinit quiet_kernel"
  "lockmgr_exclusive race_kernel = lockmgr_exclusive quiet_kernel" "free_node race_kernel = free_node quiet_kernel"
  "VOP_ISLOCKED race_kernel = VOP_ISLOCKED quiet_kernel" "malloc_node race_kernel = malloc_node quiet_kernel" "insmntque1 race_kernel = insmntque1 quiet_kernel"
  "getnewvnode race_kernel = (\<lambda>p ops. State (\<lambda>w. run_state (getnewvnode quiet_kernel p ops) (rival p w)))"
  "vfs_getopt_from race_kernel = vfs_getopt_from quiet_kernel" "namei race_kernel = namei quiet_kernel" "NDFREE race_kernel = NDFREE quiet_kernel"
  "vn_isdisk_error race_kernel = vn_isdisk_error quiet_kernel" "vfs_mountedfrom race_kernel = vfs_mountedfrom quiet_kernel"
  "vfs_flagopt_ro race_kernel = vfs_flagopt_ro quiet_kernel" "g_vfs_open race_kernel = g_vfs_open quiet_kernel" "g_vfs_close race_kernel = g_vfs_close quiet_kernel"
  "g_vfs_bufops race_kernel = g_vfs_bufops quiet_kernel" "VOP_UNLOCK race_kernel = VOP_UNLOCK quiet_kernel" "bread race_kernel = bread quiet_kernel"
  "brelse race_kernel = brelse quiet_kernel" "malloc_mount race_kernel = malloc_mount quiet_kernel" "malloc_fs race_kernel = malloc_fs quiet_kernel"
  by (simp_all add: race_kernel_def other_getnewvnode del: quiet_sel)

lemma race_ops: "nodeget_enter race_kernel = nodeget_enter quiet_kernel" "tptfs_mount race_kernel = tptfs_mount quiet_kernel"
  unfolding fun_eq_iff nodeget_enter_def tpt_hashins_def tpt_destroy_proto_def tptfs_mount_def mount_device_def tpt_mountfs_def mountfs_out_def race_calls
  by blast+

text \<open>The thread loses the race: it returns the alias of the other thread, and its own is not entered.\<close>

lemma race_lost:
  assumes "tpt_node_hashtbl w = (\<lambda>_. [])" "held_nodes w = {}" "held_vnodes w = {}"
  shows "fst (run_state (tpt_nodeget race_kernel p 5) w) = (0, 109)" "hashed (after (tpt_nodeget race_kernel p 5) w) = {101}"
    "alias_key (after (tpt_nodeget race_kernel p 5) w) 101 = (p, 5)"
proof -
  define w1 where "w1 = hash_insert quiet_kernel 101 (rival_linked p (hold_node 1 w))"
  define w2 where "w2 = hold_vnode 9 (upd_vnode 9 (\<lambda>_. new_vnode) w1)"
  define w3 where "w3 = mnt_list_insert 9 p (nodeget_fill 9 1 5 w2)"
  define w4 where "w4 = nodeget_flags p 9 5 w3"
  have e: "hashed w = {}" "hashed (hold_node 1 w) = {}" "hash_find quiet_kernel w p 5 = None" "hash_find quiet_kernel (hold_node 1 w) p 5 = None"
    "hashed (rival_linked p (hold_node 1 w)) = {}"
    using assms(1) by (simp_all add: hashed_def hash_find_def rival_linked_def)
  have r: "rival p (hold_node 1 w) = w1" using e assms(2,3) by (simp add: rival_def w1_def table_vnodes_def)
  have h1: "hashed w1 = {101}" "nodes w1 101 = (nodes w 101)\<lparr>tpt_vnode := 109, tpt_lowervp := 5\<rparr>"
    "vnodes w1 109 = (vnodes w 109)\<lparr>v_mount := p, v_data := 101, v_usecount := 1\<rparr>"
    using e(5) by (simp_all add: w1_def rival_linked_def)
  have n: "NULLTOV w2 ` hashed w2 = {109}" "NULLTOV (nodeget_fill 9 1 5 w2) ` hashed (nodeget_fill 9 1 5 w2) = {109}"
    "NULLTOV w1 ` hashed w1 = {109}" using h1 by (simp_all add: w2_def NULLTOV_def hashed_def)
  have h4: "tpt_node_hashtbl w4 = tpt_node_hashtbl w1" "tpt_hash_mask w4 = tpt_hash_mask w1" "nodes w4 101 = nodes w1 101" "vnodes w4 109 = vnodes w1 109"
    "tpt_lowervp (nodes w4 1) = 5"
    by (simp_all add: w4_def w3_def w2_def)
  then have k4: "hashed w4 = {101}" "alias_key w4 101 = (p, 5)" "NULLTOV w4 101 = 109"
    using h1 by (simp_all add: hashed_def alias_key_def NULLTOV_def)
  have "tpt_node_hashtbl w4 (NULL_NHASH quiet_kernel w4 5) = [101]"
    using assms(1) unfolding h4(1) by (simp add: w1_def hash_insert_def Let_def NULL_NHASH_def h4(2) rival_linked_def)
  then have f: "hash_find quiet_kernel w4 p 5 = Some 101" using k4 by (simp add: hash_find_def alias_key_def)
  have run: "run_state (tpt_nodeget race_kernel p 5) w = run_state (nodeget_enter quiet_kernel p 5 1 9) w3"
    using e n(2,3) r by (simp add: tpt_nodeget_def tpt_hashget_def nodeget_upgrade_def nodeget_make_def race_calls race_ops Let_def w3_def w2_def)
  show "fst (run_state (tpt_nodeget race_kernel p 5) w) = (0, 109)" "hashed (after (tpt_nodeget race_kernel p 5) w) = {101}"
    "alias_key (after (tpt_nodeget race_kernel p 5) w) 101 = (p, 5)"
    unfolding run nodeget_enter_def using f k4 h4(5)
    by (simp_all add: tpt_hashins_def tpt_destroy_proto_def flip: w4_def) (simp_all add: hashed_def alias_key_def NULLTOV_def)
qed

theorem reachable_aliases_witness:
  "\<exists>w. reachable race_kernel w \<and> hashed w = {101} \<and> hash_find race_kernel w 2 5 = Some 101 \<and> NULLVPTOLOWERVP w (NULLTOV w 101) = 5"
proof -
  let ?w = "after (tpt_nodeget race_kernel 2 5) (add_use 5 1 mounted_world)"
  have t: "tpt_node_hashtbl (add_use 5 1 mounted_world) = (\<lambda>_. [])" "held_nodes (add_use 5 1 mounted_world) = {}"
    "held_vnodes (add_use 5 1 mounted_world) = {}"
    by (simp_all add: mountfs_link_def mountfs_fill_def) (simp_all add: quiet_world_def)
  have init: "after (vfs_init tpt_vfsops_table race_kernel) quiet_world = quiet_world"
    by (simp add: tpt_vfsops_table_def tptfs_init_def race_calls quiet_world_def)
  have "perform race_kernel (Mount 2) quiet_world = Some mounted_world" using quiet_mounted by (simp add: tpt_vfsops_table_def race_ops)
  moreover have "perform race_kernel (Root 2 LK_EXCLUSIVE 0) mounted_world = Some ?w"
    by (simp add: tpt_vfsops_table_def tptfs_root_def case_prod_beta race_calls)
      (simp add: mountfs_link_def mountfs_fill_def MOUNTTONULLMOUNT_def)
  ultimately have "reachable race_kernel ?w"
    using reachable.load [of race_kernel quiet_world] unfolding init by (blast intro: reachable.call)
  then show ?thesis using reachable_aliases [OF race_rely, of ?w] race_lost [OF t, of 2] by blast
qed

section \<open>Lookups\<close>

text \<open>\<open>vhold(9)\<close> adds a hold reference; \<open>vdrop(9)\<close> takes one away, and does nothing else as long as it is not the last one.\<close>

definition add_hold :: "vp \<Rightarrow> int \<Rightarrow> world \<Rightarrow> world" where
  "add_hold v n w = upd_vnode v (\<lambda>x. x\<lparr>v_holdcnt := v_holdcnt x + n\<rparr>) w"

definition hold_counts :: "kernel \<Rightarrow> bool" where
  "hold_counts k \<longleftrightarrow> (\<forall>v w. run_state (vhold k v) w = ((), add_hold v 1 w))
     \<and> (\<forall>v w. 1 < v_holdcnt (vnodes w v) \<longrightarrow> run_state (vdrop k v) w = ((), add_hold v (- 1) w))"

text \<open>The name may not be removed, or made, on a layer that is mounted read-only.\<close>

definition lookup_refused :: "world \<Rightarrow> mp \<Rightarrow> u64 \<Rightarrow> componentname \<Rightarrow> nameiop \<Rightarrow> bool" where
  "lookup_refused w p flags cnp op \<longleftrightarrow> flags AND ISLASTCN \<noteq> 0 \<and> readonly w p \<and> (cn_nameiop cnp = op \<or> cn_nameiop cnp = RENAME)"

text \<open>What \<open>tpt_lookup\<close> does with the answer of the lookup below.\<close>

definition lookup_answer :: "kernel \<Rightarrow> vp \<Rightarrow> mp \<Rightarrow> vp \<Rightarrow> vp \<Rightarrow> errno \<Rightarrow> vp \<Rightarrow> componentname \<Rightarrow> (errno \<times> vp \<times> componentname) km" where
  "lookup_answer k dvp p l vpp e lvp cnp =
     (if (e = 0 \<or> e = EJUSTRETURN) \<and> lvp \<noteq> NULLVP then
        (if l = lvp then do { vref k dvp; vrele k lvp; ret (e, dvp, cnp) }
         else do { (error, v) \<leftarrow> tpt_nodeget k p lvp; ret (error, if error = 0 then v else vpp, cnp) })
      else ret (e, vpp, cnp))"

lemma tpt_lookup_answer:
  "tpt_lookup k dvp vpp cnp = do {
     p \<leftarrow> asks (\<lambda>w. v_mount (vnodes w dvp));
     ro \<leftarrow> asks (\<lambda>w. readonly w p);
     if cn_flags cnp AND ISLASTCN \<noteq> 0 \<and> ro \<and> (cn_nameiop cnp = DELETE \<or> cn_nameiop cnp = RENAME) then ret (EROFS, vpp, cnp)
     else do {
       l \<leftarrow> asks (\<lambda>w. NULLVPTOLOWERVP w dvp);
       vhold k l;
       (e, lvp, cnp') \<leftarrow> VOP_LOOKUP k l cnp;
       e \<leftarrow> lookup_doomed k dvp l lvp e;
       vdrop k l;
       ro \<leftarrow> asks (\<lambda>w. readonly w p);
       e \<leftarrow> ret (if e = EJUSTRETURN \<and> cn_flags cnp AND ISLASTCN \<noteq> 0 \<and> ro
                   \<and> (cn_nameiop cnp' = CREATE \<or> cn_nameiop cnp' = RENAME) then EROFS else e);
       lookup_answer k dvp p l vpp e lvp cnp' } }"
  unfolding tpt_lookup_def lookup_answer_def Let_def by (rule refl)

lemma nodeget_found:
  assumes "vref_counts k" "hash_ok k w" "hash_find k w p l = None" "makes_alias k w p l x v n"
  shows "\<exists>w'. run_state (tpt_nodeget k p l) w = ((0, v), w') \<and> NULLVPTOLOWERVP w' v = l \<and> v_mount (vnodes w' v) = p \<and> hash_find k w' p l = Some x"
proof -
  have "v \<noteq> l" using assms(4) by (simp add: makes_alias_def)
  note s = linked_sel [OF this, where p = p and x = x and n = n and w = w]
  note t = linked_table [OF assms(2,4)]
  have "hash_find k (hash_insert k x (nodeget_linked p v x l n w)) p l = Some x"
    using at.find_ins [of k "nodeget_linked p v x l n w" x "(p, l)"] t assms(3) by simp
  then show ?thesis using nodeget_new [OF assms] s by (simp add: NULLVPTOLOWERVP_def VTONULL_def)
qed

lemma lookup_run:
  assumes "hold_counts k" "\<not> lookup_refused w (v_mount (vnodes w dvp)) (cn_flags cnp) cnp DELETE"
    "run_state (VOP_LOOKUP k (NULLVPTOLOWERVP w dvp) cnp) (add_hold (NULLVPTOLOWERVP w dvp) 1 w) = ((e, lvp, cnp'), w1)"
    "1 < v_holdcnt (vnodes w1 (NULLVPTOLOWERVP w dvp))" "\<not> VN_IS_DOOMED w1 dvp"
  shows "run_state (tpt_lookup k dvp vpp cnp) w = (let p = v_mount (vnodes w dvp); l = NULLVPTOLOWERVP w dvp; w2 = add_hold l (- 1) w1 in
    run_state (lookup_answer k dvp p l vpp (if e = EJUSTRETURN \<and> lookup_refused w2 p (cn_flags cnp) cnp' CREATE then EROFS else e) lvp cnp') w2)"
proof -
  have r: "\<not> (cn_flags cnp AND ISLASTCN \<noteq> 0 \<and> readonly w (v_mount (vnodes w dvp)) \<and> (cn_nameiop cnp = DELETE \<or> cn_nameiop cnp = RENAME))"
    using assms(2) by (simp add: lookup_refused_def)
  have h: "run_state (vhold k v) u = ((), add_hold v 1 u)" "1 < v_holdcnt (vnodes u v) \<Longrightarrow> run_state (vdrop k v) u = ((), add_hold v (- 1) u)" for u v
    using assms(1) by (simp_all add: hold_counts_def)
  have d: "run_state (lookup_doomed k dvp l lvp e) w1 = (e, w1)" for l using assms(5) by (simp add: lookup_doomed_def)
  show ?thesis
    unfolding tpt_lookup_answer lookup_refused_def Let_def
    by (simp only: run_state_bind run_asks run_if prod.case r if_False h(1) assms(3) d h(2) [OF assms(4)] run_state_return)
qed

text \<open>C12: \<open>tpt_lookup\<close> in a directory of the layer that stays alive.  The name is looked up in the lower directory, and of the
  answer: an error, or no vnode, is passed on, except that a name to be created or renamed to on a read-only layer gives \<open>EROFS\<close>; the lower
  directory itself gives the directory, whose reference replaces the one on the lower directory; any other vnode gives its alias on the same mount
  point, the one in the table, which takes a reference while the caller's on the lower vnode is given back, or a new one, which is then in
  the table.  If the directory was reclaimed meanwhile the result is \<open>ENOENT\<close>.\<close>

theorem tpt_lookup_alias:
  assumes p_def: "p = v_mount (vnodes w dvp)" and l_def: "l = NULLVPTOLOWERVP w dvp" and w2_def: "w2 = add_hold l (- 1) w1"
    and "vref_counts k" "vrele_counts k" "hold_counts k" "\<not> lookup_refused w p (cn_flags cnp) cnp DELETE"
    and below: "run_state (VOP_LOOKUP k l cnp) (add_hold l 1 w) = ((e, lvp, cnp'), w1)" and held: "1 < v_holdcnt (vnodes w1 l)"
  shows "(\<not> VN_IS_DOOMED w1 dvp \<longrightarrow>
      (e = EJUSTRETURN \<and> lookup_refused w2 p (cn_flags cnp) cnp' CREATE \<longrightarrow> run_state (tpt_lookup k dvp vpp cnp) w = ((EROFS, vpp, cnp'), w2))
    \<and> (e \<noteq> 0 \<and> e \<noteq> EJUSTRETURN \<or> lvp = NULLVP \<and> e \<noteq> EJUSTRETURN \<longrightarrow> run_state (tpt_lookup k dvp vpp cnp) w = ((e, vpp, cnp'), w2))
    \<and> (e = 0 \<and> lvp = l \<and> l \<noteq> NULLVP \<and> dvp \<noteq> l \<and> 1 < v_usecount (vnodes w1 l) \<longrightarrow>
         run_state (tpt_lookup k dvp vpp cnp) w = ((0, dvp, cnp'), add_use l (- 1) (add_use dvp 1 w2)))
    \<and> (\<forall>a. e = 0 \<and> lvp \<noteq> l \<and> lvp \<noteq> NULLVP \<and> 1 < v_usecount (vnodes w1 lvp) \<and> hash_find k w2 p lvp = Some a \<and> NULLTOV w2 a \<notin> {NULLVP, lvp} \<longrightarrow>
         run_state (tpt_lookup k dvp vpp cnp) w = ((0, NULLTOV w2 a, cnp'), add_use lvp (- 1) (add_use (NULLTOV w2 a) 1 w2)))
    \<and> (\<forall>x v n. e = 0 \<and> lvp \<noteq> l \<and> lvp \<noteq> NULLVP \<and> hash_ok k w2 \<and> hash_find k w2 p lvp = None \<and> makes_alias k w2 p lvp x v n \<longrightarrow>
         (\<exists>w'. run_state (tpt_lookup k dvp vpp cnp) w = ((0, v, cnp'), w') \<and> NULLVPTOLOWERVP w' v = lvp
            \<and> v_mount (vnodes w' v) = p \<and> hash_find k w' p lvp = Some x)))
    \<and> (VN_IS_DOOMED w1 dvp \<and> e \<in> {0, EJUSTRETURN} \<longrightarrow> fst (run_state (tpt_lookup k dvp vpp cnp) w) = (ENOENT, vpp, cnp'))"
proof (intro conjI impI)
  assume alive: "\<not> VN_IS_DOOMED w1 dvp"
  note run = lookup_run [OF assms(6) assms(7) [unfolded p_def] below [unfolded l_def] held [unfolded l_def] alive, folded p_def l_def,
      unfolded Let_def, folded w2_def]
  have ej: "EJUSTRETURN \<noteq> 0" "EROFS \<noteq> 0" "EROFS \<noteq> EJUSTRETURN" by (simp_all add: errno_defs)
  have u: "v_usecount (vnodes w2 q) = v_usecount (vnodes w1 q)" for q by (simp add: w2_def add_hold_def)
  show "run_state (tpt_lookup k dvp vpp cnp) w = ((EROFS, vpp, cnp'), w2)"
    if "e = EJUSTRETURN \<and> lookup_refused w2 p (cn_flags cnp) cnp' CREATE"
    using that ej by (simp add: run lookup_answer_def)
  show "run_state (tpt_lookup k dvp vpp cnp) w = ((e, vpp, cnp'), w2)" if "e \<noteq> 0 \<and> e \<noteq> EJUSTRETURN \<or> lvp = NULLVP \<and> e \<noteq> EJUSTRETURN"
    using that by (auto simp: run lookup_answer_def)
  show "run_state (tpt_lookup k dvp vpp cnp) w = ((0, dvp, cnp'), add_use l (- 1) (add_use dvp 1 w2))"
    if "e = 0 \<and> lvp = l \<and> l \<noteq> NULLVP \<and> dvp \<noteq> l \<and> 1 < v_usecount (vnodes w1 l)"
    using that ej by (simp add: run lookup_answer_def vref_run [OF assms(4)] vrele_run [OF assms(5)] u)
  show "\<forall>a. e = 0 \<and> lvp \<noteq> l \<and> lvp \<noteq> NULLVP \<and> 1 < v_usecount (vnodes w1 lvp) \<and> hash_find k w2 p lvp = Some a \<and> NULLTOV w2 a \<notin> {NULLVP, lvp} \<longrightarrow>
      run_state (tpt_lookup k dvp vpp cnp) w = ((0, NULLTOV w2 a, cnp'), add_use lvp (- 1) (add_use (NULLTOV w2 a) 1 w2))"
    using nodeget_hit [OF assms(4,5), of w2 p lvp] ej by (auto simp: run lookup_answer_def u)
  show "\<forall>x v n. e = 0 \<and> lvp \<noteq> l \<and> lvp \<noteq> NULLVP \<and> hash_ok k w2 \<and> hash_find k w2 p lvp = None \<and> makes_alias k w2 p lvp x v n \<longrightarrow>
      (\<exists>w'. run_state (tpt_lookup k dvp vpp cnp) w = ((0, v, cnp'), w') \<and> NULLVPTOLOWERVP w' v = lvp
         \<and> v_mount (vnodes w' v) = p \<and> hash_find k w' p lvp = Some x)"
  proof (intro allI impI)
    fix x v n assume h: "e = 0 \<and> lvp \<noteq> l \<and> lvp \<noteq> NULLVP \<and> hash_ok k w2 \<and> hash_find k w2 p lvp = None \<and> makes_alias k w2 p lvp x v n"
    then obtain w' where "run_state (tpt_nodeget k p lvp) w2 = ((0, v), w')" "NULLVPTOLOWERVP w' v = lvp" "v_mount (vnodes w' v) = p"
      "hash_find k w' p lvp = Some x" using nodeget_found [OF assms(4), of w2 p lvp x v n] by blast
    with h ej show "\<exists>w'. run_state (tpt_lookup k dvp vpp cnp) w = ((0, v, cnp'), w') \<and> NULLVPTOLOWERVP w' v = lvp
        \<and> v_mount (vnodes w' v) = p \<and> hash_find k w' p lvp = Some x" by (simp add: run lookup_answer_def)
  qed
next
  assume d: "VN_IS_DOOMED w1 dvp \<and> e \<in> {0, EJUSTRETURN}"
  have "fst (run_state (lookup_doomed k dvp l lvp e) w1) = ENOENT" using d by (auto simp: lookup_doomed_def case_prod_beta)
  moreover have "ENOENT \<noteq> 0" "ENOENT \<noteq> EJUSTRETURN" by (simp_all add: errno_defs)
  moreover have "run_state (vhold k v) u = ((), add_hold v 1 u)" for v u using assms(6) by (simp add: hold_counts_def)
  ultimately show "fst (run_state (tpt_lookup k dvp vpp cnp) w) = (ENOENT, vpp, cnp')"
    using assms(7) below unfolding tpt_lookup_answer
    by (auto simp: lookup_refused_def lookup_answer_def case_prod_beta simp flip: p_def l_def)
qed

text \<open>A lower file system where every name but \<open>.\<close> is vnode 6.\<close>

definition lookup_kernel :: kernel where
  "lookup_kernel = quiet_kernel\<lparr>vhold := (\<lambda>v. modify (add_hold v 1)), vdrop := (\<lambda>v. modify (add_hold v (- 1))),
     VOP_LOOKUP := (\<lambda>v cn. ret (0, if cn_nameptr cn = ''.'' then v else 6, cn)),
     getnewvnode := (\<lambda>p ops. State (\<lambda>w. ((0, 10), hold_vnode 10 (upd_vnode 10 (\<lambda>_. blank_vnode\<lparr>v_op := ops, v_usecount := 1\<rparr>) w))))\<rparr>"

definition lookup_world :: world where
  "lookup_world = upd_vnode 5 (\<lambda>n. n\<lparr>v_holdcnt := 1\<rparr>) alias_world"

definition named :: "string \<Rightarrow> componentname" where
  "named s = \<lparr>cn_nameiop = LOOKUP, cn_flags = ISLASTCN, cn_nameptr = s\<rparr>"

theorem tpt_lookup_alias_witness:
  "fst (run_state (tpt_lookup lookup_kernel 9 0 (named ''.'')) lookup_world) = (0, 9, named ''.'')
    \<and> (\<exists>w'. run_state (tpt_lookup lookup_kernel 9 0 (named ''f'')) lookup_world = ((0, 10, named ''f''), w') \<and> NULLVPTOLOWERVP w' 10 = 6)"
proof -
  let ?w2 = "add_hold 5 (- 1) (add_hold 5 1 lookup_world)"
  have k: "vref_counts lookup_kernel" "vrele_counts lookup_kernel" "hold_counts lookup_kernel"
    by (simp_all add: vref_counts_def vrele_counts_def hold_counts_def lookup_kernel_def)
  have v: "1 = v_mount (vnodes lookup_world 9)" "5 = NULLVPTOLOWERVP lookup_world 9" "1 < v_usecount (vnodes (add_hold 5 1 lookup_world) 5)"
    "1 < v_holdcnt (vnodes (add_hold 5 1 lookup_world) 5)" "\<not> VN_IS_DOOMED (add_hold 5 1 lookup_world) 9"
    by (simp_all add: lookup_world_def add_hold_def alias_world_def VTONULL_def NULLVPTOLOWERVP_def VN_IS_DOOMED_def blank_vnode_def)
  have n: "\<not> lookup_refused lookup_world 1 (cn_flags (named s)) (named s) DELETE" for s by (simp add: lookup_refused_def named_def)
  have b: "run_state (VOP_LOOKUP lookup_kernel 5 (named s)) u = ((0, if s = ''.'' then 5 else 6, named s), u)" for s u
    by (simp add: lookup_kernel_def named_def)
  note th = tpt_lookup_alias [OF v(1,2) refl k n b v(4), where vpp = 0]
  have h: "?w2 = lookup_world" "hashed lookup_world = {1}" "NULLTOV lookup_world 1 = 9"
    by (auto simp: add_hold_def lookup_world_def upd_vnode_def) (auto simp: alias_world_def hashed_def NULLTOV_def split: if_splits)
  have t: "hash_ok lookup_kernel lookup_world" "hash_find lookup_kernel lookup_world 1 6 = None"
    by (auto simp: hash_ok_def h hash_find_def)
      (simp_all add: lookup_world_def alias_world_def quiet_world_def NULL_NHASH_def lookup_kernel_def split: if_splits)
  have m: "makes_alias lookup_kernel lookup_world 1 6 2 10 new_vnode"
    using h by (simp add: makes_alias_def lookup_kernel_def blank_vnode_def Let_def del: One_nat_def)
  show ?thesis using th [of "''.''"] th [of "''f''"] v t m h by auto
qed

end
