(* ===== verification/Vsprintf.thy ===== *)
theory Vsprintf
  imports Prelude "HOL-Library.Signed_Division"
begin

text \<open>
  \<open>toyos/Library/libc/vsprintf.cpp\<close>: formatted output.  A C string is the list of its
  characters without the terminator, and a pointer into the format is what is left of it, so
  that the empty list is the terminating \<open>NUL\<close>; the output is the text written from \<open>buf\<close> on.  An \<open>int\<close> is
  the integer it stands for.  \<open>None\<close> is undefined behaviour of the C++ program: a read outside the digits,
  an integer overflow, an argument that is missing or of another type.
\<close>

section \<open>Numbers\<close>

definition is_digit :: "char \<Rightarrow> bool" where
  "is_digit c \<longleftrightarrow> of_char c \<ge> (48::nat) \<and> of_char c \<le> (57::nat)"

text \<open>The loop of \<open>skip_atoi\<close>: the number read so far and the rest of the string.\<close>

fun skip_atoi :: "int \<Rightarrow> string \<Rightarrow> (int \<times> string) option" where
  "skip_atoi i [] = Some (i, [])"
| "skip_atoi i (c # s) =
     (if is_digit c then
        (if i * 10 + of_char c < 2 ^ 31 then skip_atoi (i * 10 + of_char c - 48) s else None)
      else Some (i, c # s))"

definition ZEROPAD :: u32 where "ZEROPAD = 1"
definition SIGN :: u32 where "SIGN = 2"
definition PLUS :: u32 where "PLUS = 4"
definition SPACE :: u32 where "SPACE = 8"
definition LEFT :: u32 where "LEFT = 16"
definition SPECIAL :: u32 where "SPECIAL = 32"
definition SMALL :: u32 where "SMALL = 64"

lemmas flag_defs = ZEROPAD_def SIGN_def PLUS_def SPACE_def LEFT_def SPECIAL_def SMALL_def

abbreviation has :: "u32 \<Rightarrow> u32 \<Rightarrow> bool" where
  "has f b \<equiv> f AND b \<noteq> 0"

text \<open>Division in C truncates: the remainder and the quotient.\<close>

definition do_div :: "int \<Rightarrow> int \<Rightarrow> int \<times> int" where
  "do_div n base = (n smod base, n sdiv base)"

definition upper_digits :: string where "upper_digits = ''0123456789ABCDEFGHIJKLMNOPQRSTUVWXYZ''"
definition lower_digits :: string where "lower_digits = ''0123456789abcdefghijklmnopqrstuvwxyz''"

text \<open>
  The loop that fills \<open>tmp\<close>, the least digit first.  A base below 2 never gets here, and there the
  loop would not end.
\<close>

lemma abs_sdiv: "0 < b \<Longrightarrow> \<bar>a sdiv b\<bar> = \<bar>a\<bar> div b" for a b :: int
  by (cases a "0::int" rule: linorder_cases)
    (simp_all add: signed_divide_int_def abs_of_nonneg pos_imp_zdiv_nonneg_iff)

function number_tmp :: "string \<Rightarrow> int \<Rightarrow> int \<Rightarrow> string option" where
  "number_tmp digits num base =
     (if num = 0 \<or> base < 2 then Some []
      else (case do_div num base of (r, q) \<Rightarrow>
        if 0 \<le> r \<and> r < 36 then map_option (\<lambda>t. digits ! nat r # t) (number_tmp digits q base) else None))"
  by pat_completeness auto
termination
  by (relation "measure (\<lambda>(_, num, _). nat \<bar>num\<bar>)") (auto simp: do_div_def abs_sdiv int_div_less_self)

text \<open>\<open>while (n < count--) *str++ = c\<close>: what is written and the final count.\<close>

function pad :: "char \<Rightarrow> int \<Rightarrow> int \<Rightarrow> string \<times> int" where
  "pad c n count = (if n < count then (case pad c n (count - 1) of (s, z) \<Rightarrow> (c # s, z)) else ([], count - 1))"
  by pat_completeness auto
termination by (relation "measure (\<lambda>(_, n, count). nat (count - n))") auto

definition number_sign :: "int \<Rightarrow> u32 \<Rightarrow> string \<times> int" where
  "number_sign num type =
     (if has type SIGN \<and> num < 0 then (''-'', num - num)
      else (if has type PLUS then ''+'' else if has type SPACE then '' '' else [], num))"

definition special_width :: "u32 \<Rightarrow> int \<Rightarrow> int" where
  "special_width type base = (if has type SPECIAL then (if base = 16 then 2 else if base = 8 then 1 else 0) else 0)"

definition special_prefix :: "string \<Rightarrow> u32 \<Rightarrow> int \<Rightarrow> string" where
  "special_prefix digits type base =
     (if has type SPECIAL then (if base = 8 then ''0'' else if base = 16 then [CHR ''0'', digits ! 33] else []) else [])"

text \<open>The part of \<open>number\<close> after the digits, with \<open>i\<close> digits in \<open>tmp\<close>.\<close>

definition number_emit :: "string \<Rightarrow> string \<Rightarrow> string \<Rightarrow> int \<Rightarrow> int \<Rightarrow> u32 \<Rightarrow> string" where
  "number_emit sign prefix tmp size0 precision0 type =
     (let i = int (length tmp);
          precision = (if i > precision0 then i else precision0);
          c = (if has type ZEROPAD then CHR ''0'' else CHR '' '');
          size1 = size0 - precision;
          (s1, size2) = (if \<not> has type (ZEROPAD + LEFT) then pad CHR '' '' 0 size1 else ([], size1));
          (s2, size3) = (if \<not> has type LEFT then pad c 0 size2 else ([], size2));
          (s3, _) = pad CHR ''0'' i precision;
          (s4, _) = pad CHR '' '' 0 size3
      in s1 @ sign @ prefix @ s2 @ s3 @ rev tmp @ s4)"

text \<open>For a base that it cannot handle \<open>number\<close> returns \<open>NULL\<close>, through which its caller goes on to write.\<close>

definition number :: "int \<Rightarrow> int \<Rightarrow> int \<Rightarrow> int \<Rightarrow> u32 \<Rightarrow> string option" where
  "number num base width precision type0 =
     (let digits = (if has type0 SMALL then lower_digits else upper_digits);
          type = (if has type0 LEFT then type0 AND NOT ZEROPAD else type0)
      in if base < 2 \<or> base > 36 then None
      else (case number_sign num type of (sign, num) \<Rightarrow>
        map_option (\<lambda>tmp. number_emit sign (special_prefix digits type base) tmp
            (width - (if sign = [] then 0 else 1) - special_width type base) precision type)
          (if num = 0 then Some ''0'' else number_tmp digits num base)))"

section \<open>The format\<close>

datatype varg = VInt u32 | VStr string | VPtr u64

fun va_int :: "varg list \<Rightarrow> (u32 \<times> varg list) option" where
  "va_int (VInt x # args) = Some (x, args)"
| "va_int _ = None"

fun va_str :: "varg list \<Rightarrow> (string \<times> varg list) option" where
  "va_str (VStr x # args) = Some (x, args)"
| "va_str _ = None"

fun va_ptr :: "varg list \<Rightarrow> (u64 \<times> varg list) option" where
  "va_ptr (VPtr x # args) = Some (x, args)"
| "va_ptr _ = None"

text \<open>The loop at the label \<open>repeat\<close>; the format begins after the percent sign.\<close>

fun parse_flags :: "u32 \<Rightarrow> string \<Rightarrow> u32 \<times> string" where
  "parse_flags flags [] = (flags, [])"
| "parse_flags flags (c # fmt) =
     (if c = CHR ''-'' then parse_flags (flags OR LEFT) fmt
      else if c = CHR ''+'' then parse_flags (flags OR PLUS) fmt
      else if c = CHR '' '' then parse_flags (flags OR SPACE) fmt
      else if c = CHR ''#'' then parse_flags (flags OR SPECIAL) fmt
      else if c = CHR ''0'' then parse_flags (flags OR ZEROPAD) fmt
      else (flags, c # fmt))"

text \<open>The star is not skipped, here and in the precision.\<close>

fun parse_width :: "u32 \<Rightarrow> string \<Rightarrow> varg list \<Rightarrow> (u32 \<times> int \<times> string \<times> varg list) option" where
  "parse_width flags [] args = Some (flags, - 1, [], args)"
| "parse_width flags (c # fmt) args =
     (if is_digit c then map_option (\<lambda>(n, rest). (flags, n, rest, args)) (skip_atoi 0 (c # fmt))
      else if c = CHR ''*'' then
        (case va_int args of
           None \<Rightarrow> None
         | Some (x, args) \<Rightarrow>
             if sint x = - (2 ^ 31) then None
             else if sint x < 0 then Some (flags OR LEFT, - sint x, c # fmt, args)
             else Some (flags, sint x, c # fmt, args))
      else Some (flags, - 1, c # fmt, args))"

definition parse_precision :: "string \<Rightarrow> varg list \<Rightarrow> (int \<times> string \<times> varg list) option" where
  "parse_precision fmt args = (case fmt of
     c # rest \<Rightarrow>
       if c = CHR ''.'' then
         (case (case rest of
             d # _ \<Rightarrow> if is_digit d then map_option (\<lambda>(n, rest). (n, rest, args)) (skip_atoi 0 rest)
                     else if d = CHR ''*'' then map_option (\<lambda>(x, args). (sint x, rest, args)) (va_int args)
                     else Some (- 1, rest, args)
           | [] \<Rightarrow> Some (- 1, rest, args)) of
            None \<Rightarrow> None
          | Some (n, rest, args) \<Rightarrow> Some (if n < 0 then 0 else n, rest, args))
       else Some (- 1, fmt, args)
   | [] \<Rightarrow> Some (- 1, fmt, args))"

fun parse_qualifier :: "string \<Rightarrow> string" where
  "parse_qualifier [] = []"
| "parse_qualifier (c # fmt) = (if c = CHR ''h'' \<or> c = CHR ''l'' \<or> c = CHR ''L'' then fmt else c # fmt)"

text \<open>\<open>while (--width > 0) *str++ = ' '\<close>.\<close>

definition pre_pad :: "int \<Rightarrow> string \<times> int" where
  "pre_pad width = (case pad CHR '' '' 0 (width - 1) of (s, z) \<Rightarrow> (s, if width - 1 > 0 then 0 else width - 1))"

definition conv_c :: "u32 \<Rightarrow> int \<Rightarrow> u32 \<Rightarrow> string" where
  "conv_c flags width x =
     (let (s1, width1) = (if \<not> has flags LEFT then pre_pad width else ([], width));
          (s2, _) = pre_pad width1
      in s1 @ [char_of (unat (ucast x :: u8))] @ s2)"

definition conv_s :: "u32 \<Rightarrow> int \<Rightarrow> int \<Rightarrow> string \<Rightarrow> string" where
  "conv_s flags width precision s =
     (let len = (if precision < 0 then int (length s) else if int (length s) > precision then precision else int (length s));
          (s1, width1) = (if \<not> has flags LEFT then pad CHR '' '' len width else ([], width));
          (s2, _) = pad CHR '' '' len width1
      in s1 @ take (nat len) s @ s2)"

text \<open>The conversions that print a number: the base and the flags it adds.\<close>

definition num_conv :: "char \<Rightarrow> (int \<times> u32) option" where
  "num_conv c =
     (if c = CHR ''o'' then Some (8, 0)
      else if c = CHR ''x'' then Some (16, SMALL)
      else if c = CHR ''X'' then Some (16, 0)
      else if c = CHR ''d'' \<or> c = CHR ''i'' then Some (10, SIGN)
      else if c = CHR ''u'' then Some (10, 0)
      else None)"

text \<open>
  One conversion, with \<open>n\<close> characters written before it: the text, the arguments left, and the stores of
  a count through a pointer argument.
\<close>

definition convert :: "char \<Rightarrow> u32 \<Rightarrow> int \<Rightarrow> int \<Rightarrow> varg list \<Rightarrow> int \<Rightarrow> (string \<times> varg list \<times> (u64 \<times> int) list) option" where
  "convert c flags width precision args n =
     (if c = CHR ''c'' then map_option (\<lambda>(x, args). (conv_c flags width x, args, [])) (va_int args)
      else if c = CHR ''s'' then map_option (\<lambda>(s, args). (conv_s flags width precision s, args, [])) (va_str args)
      else if c = CHR ''p'' then
        (case va_ptr args of
           None \<Rightarrow> None
         | Some (x, args) \<Rightarrow>
             map_option (\<lambda>s. (s, args, []))
               (if width = - 1 then number (sint (ucast x :: u32)) 16 8 precision (flags OR ZEROPAD)
                else number (sint (ucast x :: u32)) 16 width precision flags))
      else if c = CHR ''n'' then map_option (\<lambda>(x, args). ([], args, [(x, n)])) (va_ptr args)
      else (case num_conv c of
          Some (base, fl) \<Rightarrow>
            (case va_int args of
               None \<Rightarrow> None
             | Some (x, args) \<Rightarrow> map_option (\<lambda>s. (s, args, [])) (number (sint x) base width precision (flags OR fl)))
        | None \<Rightarrow> Some (if c = CHR ''%'' then [c] else [CHR ''%'', c], args, [])))"

text \<open>A specification up to its conversion character, at the head of the rest.\<close>

definition parse_spec :: "string \<Rightarrow> varg list \<Rightarrow> (u32 \<times> int \<times> int \<times> string \<times> varg list) option" where
  "parse_spec fmt args = (case parse_flags 0 fmt of (flags, fmt) \<Rightarrow>
     (case parse_width flags fmt args of
        None \<Rightarrow> None
      | Some (flags, width, fmt, args) \<Rightarrow>
          map_option (\<lambda>(precision, fmt, args). (flags, width, precision, parse_qualifier fmt, args)) (parse_precision fmt args)))"

lemma skip_atoi_length: "skip_atoi i s = Some (n, rest) \<Longrightarrow> length rest \<le> length s"
  by (induction i s rule: skip_atoi.induct) (force split: if_splits)+

lemma parse_flags_length: "length (snd (parse_flags f s)) \<le> length s"
  by (induction f s rule: parse_flags.induct) auto

lemma parse_width_length: "parse_width f s args = Some (f', n, rest, args') \<Longrightarrow> length rest \<le> length s"
  by (cases s) (auto split: if_splits option.splits dest: skip_atoi_length)

lemma parse_precision_length: "parse_precision s args = Some (n, rest, args') \<Longrightarrow> length rest \<le> length s"
  by (auto simp: parse_precision_def split: if_splits option.splits list.splits dest!: skip_atoi_length)

lemma parse_spec_length:
  assumes "parse_spec s args = Some (f, n, p, rest, args')"
  shows "length rest \<le> length s"
proof -
  obtain f1 s1 where 1: "parse_flags 0 s = (f1, s1)" by fastforce
  with assms obtain f2 s2 a2 s3 where 2: "parse_width f1 s1 args = Some (f2, n, s2, a2)" "parse_precision s2 a2 = Some (p, s3, args')"
    "rest = parse_qualifier s3" by (auto simp: parse_spec_def split: option.splits)
  have "length rest \<le> length s3" using 2(3) by (cases s3) auto
  with parse_flags_length [of 0 s] 1 parse_width_length [OF 2(1)] parse_precision_length [OF 2(2)] show ?thesis by simp
qed

function vsprintf_loop :: "string \<Rightarrow> varg list \<Rightarrow> string \<Rightarrow> (u64 \<times> int) list \<Rightarrow> (string \<times> (u64 \<times> int) list) option" where
  "vsprintf_loop [] args out stores = Some (out, stores)"
| "vsprintf_loop (c # fmt) args out stores =
     (if c \<noteq> CHR ''%'' then vsprintf_loop fmt args (out @ [c]) stores
      else (case parse_spec fmt args of
          None \<Rightarrow> None
        | Some (flags, width, precision, [], args) \<Rightarrow> Some (out @ ''%'', stores)
        | Some (flags, width, precision, d # rest, args) \<Rightarrow>
            (case convert d flags width precision args (int (length out)) of
               None \<Rightarrow> None
             | Some (s, args, st) \<Rightarrow> vsprintf_loop rest args (out @ s) (stores @ st))))"
  by pat_completeness auto
termination
  by (relation "measure (\<lambda>(fmt, _). length fmt)") (auto dest: parse_spec_length)

definition vsprintf :: "string \<Rightarrow> varg list \<Rightarrow> (string \<times> int \<times> (u64 \<times> int) list) option" where
  "vsprintf fmt args = map_option (\<lambda>(out, stores). (out, int (length out), stores)) (vsprintf_loop fmt args [] [])"

declare number_tmp.simps [simp del] pad.simps [simp del]

section \<open>Padding\<close>

lemma pad_eq: "pad c n count = (replicate (nat (count - n)) c, if n < count then n - 1 else count - 1)"
proof (induction c n count rule: pad.induct)
  case (1 c n count)
  show ?case
  proof (cases "n < count")
    case True
    then have "nat (count - n) = Suc (nat (count - 1 - n))" by simp
    with 1 True show ?thesis by (subst pad.simps) auto
  qed (simp add: pad.simps)
qed

lemma special_prefix_length: "length (special_prefix digits type base) = nat (special_width type base)" "0 \<le> special_width type base"
  by (simp_all add: special_prefix_def special_width_def)

lemma has_sum: "has type (ZEROPAD + LEFT) \<longleftrightarrow> has type ZEROPAD \<or> has type LEFT"
proof -
  have "type AND (ZEROPAD + LEFT) = (type AND ZEROPAD) OR (type AND LEFT)"
    by (simp add: flag_defs bit.conj_disj_distrib [symmetric])
  then show ?thesis by (simp add: or_eq_0_iff)
qed

lemma emit_length:
  "length (number_emit sign prefix tmp size0 precision type) =
     length sign + length prefix + nat (max (max (int (length tmp)) precision) size0)"
  by (auto simp: number_emit_def Let_def pad_eq has_sum max_def split: prod.split)

section \<open>Digits\<close>

text \<open>The digits of a number, the least first, and the number that a digit string stands for.\<close>

function lsd :: "int \<Rightarrow> int \<Rightarrow> int list" where
  "lsd base num = (if num \<le> 0 \<or> base < 2 then [] else num mod base # lsd base (num div base))"
  by pat_completeness auto
termination
  by (relation "measure (\<lambda>(_, num). nat num)") (auto simp: int_div_less_self)

declare lsd.simps [simp del]

definition digit_value :: "string \<Rightarrow> char \<Rightarrow> int" where
  "digit_value digits c = int (length (takeWhile (\<lambda>d. d \<noteq> c) digits))"

definition read_number :: "string \<Rightarrow> int \<Rightarrow> string \<Rightarrow> int" where
  "read_number digits base s = foldl (\<lambda>v c. v * base + digit_value digits c) 0 s"

lemma number_tmp_lsd:
  assumes "0 \<le> num" "2 \<le> base" "base \<le> 36"
  shows "number_tmp digits num base = Some (map (\<lambda>d. digits ! nat d) (lsd base num))"
  using assms
proof (induction base num rule: lsd.induct)
  case (1 base num)
  show ?case
  proof (cases "num = 0")
    case True
    then show ?thesis by (simp add: number_tmp.simps lsd.simps)
  next
    case False
    have "num smod base = num mod base" "num sdiv base = num div base"
      using 1(2-4) False by (simp_all add: signed_modulo_int_def signed_divide_int_def)
    moreover have "0 < base" "num mod base < base" using 1(3) by simp_all
    moreover from this have "0 \<le> num mod base" "num mod base < 36" using 1(4) pos_mod_sign [of base num] by linarith+
    moreover have "number_tmp digits (num div base) base = Some (map (\<lambda>d. digits ! nat d) (lsd base (num div base)))"
      using 1 False by (simp add: pos_imp_zdiv_nonneg_iff)
    ultimately show ?thesis
      using False 1(2-4) by (subst number_tmp.simps, subst lsd.simps) (simp add: do_div_def)
  qed
qed

lemma number_tmp_neg:
  assumes "num < 0" "2 \<le> base"
  shows "number_tmp digits num base = None"
  using assms
proof (induction digits num base rule: number_tmp.induct)
  case (1 digits num base)
  have r: "num smod base \<le> 0" using 1(2,3) by (simp add: signed_modulo_int_def)
  show ?case
  proof (cases "num smod base = 0")
    case True
    have "num = num sdiv base * base" using sdiv_mult_smod_eq [of num base] True by simp
    then have "num sdiv base * base < 0" using 1(2) by simp
    then have "num sdiv base < 0" using 1(3) by (simp add: mult_less_0_iff)
    then have "number_tmp digits (num sdiv base) base = None" using 1 True by (simp add: do_div_def)
    then show ?thesis using 1(2,3) True by (subst number_tmp.simps) (simp add: do_div_def)
  next
    case False
    then show ?thesis using 1(2,3) r by (subst number_tmp.simps) (simp add: do_div_def)
  qed
qed

lemma lsd_range: "d \<in> set (lsd base num) \<Longrightarrow> 0 \<le> d \<and> d < base"
proof (induction base num rule: lsd.induct)
  case (1 base num)
  then show ?case by (subst (asm) lsd.simps) (auto split: if_splits)
qed

lemma lsd_value:
  assumes "0 \<le> num" "2 \<le> base"
  shows "foldr (\<lambda>d v. v * base + d) (lsd base num) 0 = num"
  using assms
proof (induction base num rule: lsd.induct)
  case (1 base num)
  show ?case
  proof (cases "num = 0")
    case False
    then show ?thesis using 1 by (subst lsd.simps) (simp add: pos_imp_zdiv_nonneg_iff)
  qed (simp add: lsd.simps)
qed

lemma lsd_length:
  assumes "num < base ^ n" "2 \<le> base"
  shows "length (lsd base num) \<le> n"
  using assms
proof (induction n arbitrary: num)
  case 0
  then show ?case by (simp add: lsd.simps)
next
  case (Suc n)
  have "num div base < base ^ n"
  proof (rule ccontr)
    assume "\<not> num div base < base ^ n"
    then have "base ^ n * base \<le> num div base * base" using Suc.prems(2) by (intro mult_right_mono) auto
    also have "\<dots> \<le> num" using Suc.prems(2) div_mult_mod_eq [of num base] pos_mod_sign [of base num] by linarith
    finally show False using Suc.prems(1) by (simp add: mult.commute)
  qed
  then show ?case using Suc by (subst lsd.simps) simp
qed

lemma digit_value_nth:
  assumes "distinct digits" "i < length digits"
  shows "digit_value digits (digits ! i) = int i"
proof -
  have "takeWhile (\<lambda>d. d \<noteq> digits ! i) digits = take i digits"
    by (rule takeWhile_eq_take_P_nth) (use assms in \<open>auto simp: nth_eq_iff_index_eq\<close>)
  then show ?thesis using assms by (simp add: digit_value_def)
qed

lemma digits_ok: "distinct (if b then lower_digits else upper_digits)" "length (if b then lower_digits else upper_digits) = 36"
  by (simp_all add: lower_digits_def upper_digits_def)

lemma read_lsd:
  assumes "0 \<le> num" "2 \<le> base" "base \<le> 36" "distinct digits" "length digits = 36"
  shows "read_number digits base (rev (map (\<lambda>d. digits ! nat d) (lsd base num))) = num"
proof -
  have "foldl (\<lambda>v c. v * base + digit_value digits c) 0 (rev (map (\<lambda>d. digits ! nat d) ds)) = foldr (\<lambda>d v. v * base + d) ds 0"
    if "\<forall>d\<in>set ds. 0 \<le> d \<and> d < base" for ds
    using that
  proof (induction ds)
    case (Cons a ds)
    have "nat a < 36" using Cons.prems assms(3) by (simp add: nat_less_iff)
    then have "digit_value digits (digits ! nat a) = a" using Cons.prems assms(4,5) digit_value_nth [of digits "nat a"] by simp
    with Cons show ?case by simp
  qed simp
  then show ?thesis using lsd_range lsd_value [OF assms(1,2)] by (simp add: read_number_def)
qed

section \<open>Properties\<close>

text \<open>C10: a number that an \<open>int\<close> holds and that is not negative is printed as its digits: in every base from 2 to 36,
  in small or in capital letters, without width, precision and flags, reading the text back gives the
  number, and it is at most 31 digits long, fewer than \<open>tmp\<close> has room for.\<close>

theorem number_roundtrip:
  assumes "0 \<le> num" "num < 2 ^ 31" "2 \<le> base" "base \<le> 36"
  shows "\<exists>s. number num base (- 1) (- 1) (if small then SMALL else 0) = Some s
    \<and> read_number (if small then lower_digits else upper_digits) base s = num \<and> 0 < length s \<and> length s \<le> 31"
proof -
  define f where "f = (if small then SMALL else 0)"
  define digits where "digits = (if small then lower_digits else upper_digits)"
  define tmp where "tmp = (if num = 0 then ''0'' else map (\<lambda>d. digits ! nat d) (lsd base num))"
  have flags: "has f SMALL = small" "\<not> has f LEFT" "\<not> has f ZEROPAD" "\<not> has f SIGN" "\<not> has f PLUS" "\<not> has f SPACE" "\<not> has f SPECIAL"
    by (simp_all add: f_def flag_defs)
  have d: "distinct digits" "length digits = 36" unfolding digits_def by (rule digits_ok)+
  have "(2::int) ^ 31 \<le> base ^ 31" using assms(3) by (intro power_mono) auto
  then have len: "length (lsd base num) \<le> 31" using lsd_length [of num base 31] assms(2,3) by simp
  have "number_emit [] [] tmp (- 1) (- 1) f = rev tmp"
    by (auto simp: number_emit_def Let_def pad_eq flags has_sum)
  then have run: "number num base (- 1) (- 1) f = Some (rev tmp)"
    using assms by (cases "num = 0") (simp_all add: number_def Let_def flags number_sign_def special_width_def special_prefix_def
      number_tmp_lsd tmp_def flip: digits_def)
  have zero: "digit_value digits CHR ''0'' = 0" by (simp add: digit_value_def digits_def lower_digits_def upper_digits_def)
  have "read_number digits base (rev tmp) = num"
    using read_lsd [OF assms(1,3,4) d] zero by (simp add: tmp_def read_number_def)
  moreover have "0 < length (rev tmp)" "length (rev tmp) \<le> 31"
    using len assms(1,3) by (simp_all add: tmp_def) (simp add: lsd.simps)
  ultimately show ?thesis using run by (auto simp: f_def digits_def)
qed

theorem number_roundtrip_witness:
  "\<exists>s. number 48879 16 (- 1) (- 1) (if True then SMALL else 0) = Some s \<and> read_number lower_digits 16 s = 48879"
  using number_roundtrip [of 48879 16 True] by auto

text \<open>\<open>number\<close> respects the width and the precision: what it prints for a number that is not negative is exactly as
  long as the width, or as sign, prefix and digits together where they are longer, and has as many digits as the number
  or as the precision asks for, whether the padding is spaces or zeros, on the left or on the right.\<close>

lemma number_width:
  assumes "0 \<le> num" "2 \<le> base" "base \<le> 36"
  shows "\<exists>s. number num base width precision type = Some s
    \<and> int (length s) = max width ((if has type PLUS \<or> has type SPACE then 1 else 0) + special_width type base
         + max (max 1 (int (length (lsd base num)))) precision)"
proof -
  define type' where "type' = (if has type LEFT then type AND NOT ZEROPAD else type)"
  define digits where "digits = (if has type SMALL then lower_digits else upper_digits)"
  define sign where "sign = fst (number_sign num type')"
  define tmp where "tmp = (if num = 0 then ''0'' else map (\<lambda>d. digits ! nat d) (lsd base num))"
  have f: "special_width type' base = special_width type base" "has type' PLUS = has type PLUS" "has type' SPACE = has type SPACE"
    by (simp_all add: special_width_def type'_def flag_defs and.assoc)
  have sg: "number_sign num type' = (sign, num)" "int (length sign) = (if has type PLUS \<or> has type SPACE then 1 else 0)"
    using assms(1) by (simp_all add: number_sign_def sign_def f)
  have tmp: "(if num = 0 then Some ''0'' else number_tmp digits num base) = Some tmp" "int (length tmp) = max 1 (int (length (lsd base num)))"
    using assms by (simp_all add: tmp_def number_tmp_lsd) (simp_all add: lsd.simps)
  define s where "s = number_emit sign (special_prefix digits type' base) tmp
      (width - (if sign = [] then 0 else 1) - special_width type' base) precision type'"
  have run: "number num base width precision type = Some s"
    using assms tmp(1) by (simp add: number_def Let_def sg(1) s_def flip: digits_def type'_def)
  have "int (length sign) = (if sign = [] then 0 else 1)" using sg(2) by (auto split: if_splits)
  then have "int (length s) = max width (int (length sign) + special_width type base + max (int (length tmp)) precision)"
    unfolding s_def emit_length special_prefix_length(1) f(1) using special_prefix_length(2) [of type base] tmp(2) by (auto simp: max_def)
  then show ?thesis using run sg(2) tmp(2) by simp
qed

lemma number_width_witness: "\<exists>s. number 7 10 5 (- 1) ZEROPAD = Some s \<and> int (length s) = 5"
proof -
  have "lsd 10 7 = [7]" "special_width ZEROPAD 10 = 0" "\<not> has ZEROPAD PLUS" "\<not> has ZEROPAD SPACE"
    by (simp_all add: lsd.simps special_width_def flag_defs)
  then show ?thesis using number_width [of 7 10 5 "- 1" ZEROPAD] by simp
qed

text \<open>\<open>%d\<close> prints every negative number as \<open>-0\<close>.\<close>

lemma vsprintf_negative:
  assumes "sint x < 0"
  shows "vsprintf ''%d'' [VInt x] = Some (''-0'', 2, [])"
  using assms
  by (simp add: vsprintf_def parse_spec_def parse_precision_def is_digit_def convert_def num_conv_def number_def number_sign_def
      special_width_def special_prefix_def number_emit_def pad_eq flag_defs Let_def)

lemma vsprintf_negative_witness: "vsprintf ''%d'' [VInt (- 42)] = Some (''-0'', 2, [])"
  by (rule vsprintf_negative) simp

text \<open>C32: \<open>%x\<close> of a number from \<open>0x80000000\<close> on, and \<open>%p\<close> of a pointer with bit 31 set, as every kernel address has it,
  read \<open>digits\<close> at a negative index.\<close>

theorem vsprintf_hex_undefined:
  assumes "sint x < 0" "sint (ucast y :: u32) < 0"
  shows "vsprintf ''%x'' [VInt x] = None \<and> vsprintf ''%p'' [VPtr y] = None"
  using assms
  by (simp add: vsprintf_def parse_spec_def parse_precision_def is_digit_def convert_def num_conv_def number_def number_sign_def
      flag_defs Let_def number_tmp_neg)

theorem vsprintf_hex_undefined_witness:
  "vsprintf ''%x'' [VInt 0x80000000] = None \<and> vsprintf ''%p'' [VPtr 0x80200000] = None"
  by (rule vsprintf_hex_undefined) simp_all

end
