(* ===== verification/Vformat.thy ===== *)
theory Vformat
  imports Vsprintf
begin

text \<open>
  What \<open>vsprintf\<close> prints for a whole format.  A format is written from directives: literal text, a percent sign, and the conversions of
  characters, strings and numbers with the flags \<open>-\<close> and \<open>0\<close>, a width and, for strings, a precision.  \<open>spec_text\<close> is
  the text of a directive in the format, \<open>spec_args\<close> the arguments it takes, and \<open>printed\<close> what it is to print.
\<close>

section \<open>Directives\<close>

definition digits_text :: "string \<Rightarrow> int \<Rightarrow> int \<Rightarrow> string" where
  "digits_text digits base n = (if n = 0 then ''0'' else rev (map (\<lambda>d. digits ! nat d) (lsd base n)))"

text \<open>A width of 0 stands for none.\<close>

datatype directive =
    Lit string
  | Percent
  | Char bool nat char
  | Str bool nat "nat option" string
  | Num char bool bool nat u32

definition flag_text :: "bool \<Rightarrow> bool \<Rightarrow> string" where
  "flag_text left zero = (if left then ''-'' else []) @ (if zero then ''0'' else [])"

definition width_text :: "nat \<Rightarrow> string" where
  "width_text w = (if w = 0 then [] else digits_text upper_digits 10 (int w))"

definition precision_text :: "nat option \<Rightarrow> string" where
  "precision_text p = (case p of None \<Rightarrow> [] | Some q \<Rightarrow> CHR ''.'' # digits_text upper_digits 10 (int q))"

fun spec_text :: "directive \<Rightarrow> string" where
  "spec_text (Lit s) = s"
| "spec_text Percent = ''%%''"
| "spec_text (Char left w c) = CHR ''%'' # flag_text left False @ width_text w @ precision_text None @ ''c''"
| "spec_text (Str left w p s) = CHR ''%'' # flag_text left False @ width_text w @ precision_text p @ ''s''"
| "spec_text (Num c left zero w x) = CHR ''%'' # flag_text left zero @ width_text w @ precision_text None @ [c]"

fun spec_args :: "directive \<Rightarrow> varg list" where
  "spec_args (Lit s) = []"
| "spec_args Percent = []"
| "spec_args (Char left w c) = [VInt (of_nat (of_char c))]"
| "spec_args (Str left w p s) = [VStr s]"
| "spec_args (Num c left zero w x) = [VInt x]"

definition justify :: "bool \<Rightarrow> char \<Rightarrow> nat \<Rightarrow> string \<Rightarrow> string" where
  "justify left c w s = (if left then s @ replicate (w - length s) CHR '' '' else replicate (w - length s) c @ s)"

definition conv_base :: "char \<Rightarrow> int" where
  "conv_base c = (if c = CHR ''o'' then 8 else if c = CHR ''x'' \<or> c = CHR ''X'' then 16 else 10)"

fun printed :: "directive \<Rightarrow> string" where
  "printed (Lit s) = s"
| "printed Percent = ''%''"
| "printed (Char left w c) = justify left CHR '' '' w [c]"
| "printed (Str left w p s) = justify left CHR '' '' w (case p of None \<Rightarrow> s | Some q \<Rightarrow> take q s)"
| "printed (Num c left zero w x) =
     (if sint x < 0 then (if zero \<and> \<not> left then CHR ''-'' # justify False CHR ''0'' (w - 1) ''0'' else justify left CHR '' '' w ''-0'')
      else justify left (if zero then CHR ''0'' else CHR '' '') w
        (digits_text (if c = CHR ''x'' then lower_digits else upper_digits) (conv_base c) (sint x)))"

text \<open>
  \<open>printed\<close> is the usual meaning of the directives, except for negative numbers, where it is what the code does: \<open>num -= num\<close> leaves 0 where the
  absolute value is meant.  Widths and precisions have nine digits at most, so that \<open>skip_atoi\<close> does not overflow; a negative number is
  printed by \<open>%d\<close> and \<open>%i\<close> only.
\<close>

fun directive_ok :: "directive \<Rightarrow> bool" where
  "directive_ok (Lit s) = (CHR ''%'' \<notin> set s \<and> CHR 0x00 \<notin> set s)"
| "directive_ok Percent = True"
| "directive_ok (Char left w c) = (w < 10 ^ 9)"
| "directive_ok (Str left w p s) = (w < 10 ^ 9 \<and> (case p of None \<Rightarrow> True | Some q \<Rightarrow> q < 10 ^ 9) \<and> CHR 0x00 \<notin> set s)"
| "directive_ok (Num c left zero w x) = (c \<in> set ''diuoxX'' \<and> w < 10 ^ 9 \<and> (c \<in> set ''di'' \<or> 0 \<le> sint x))"

section \<open>Reading widths\<close>

lemma digit_code: "n < 10 \<Longrightarrow> of_char (upper_digits ! n) = 48 + n" for n :: nat
proof -
  have "\<forall>n\<in>set [0..<10]. of_char (upper_digits ! n) = 48 + n" by (simp add: upper_digits_def upt_rec)
  then show "n < 10 \<Longrightarrow> ?thesis" by simp
qed

lemma digit_code_int: "0 \<le> d \<Longrightarrow> d < 10 \<Longrightarrow> of_char (upper_digits ! nat d) = 48 + d" for d :: int
proof -
  assume "0 \<le> d" "d < 10"
  then have "int (of_char (upper_digits ! nat d)) = 48 + d" using digit_code [of "nat d"] by simp
  then show ?thesis by (simp add: of_nat_of_char)
qed

lemma foldl_digits_mono: "0 \<le> i \<Longrightarrow> \<forall>d\<in>set ds. 0 \<le> d \<Longrightarrow> i \<le> foldl (\<lambda>v d. v * 10 + d) i ds" for i :: int
proof (induction ds arbitrary: i)
  case (Cons d ds)
  have "i \<le> i * 10 + d" using Cons.prems by simp
  also have "\<dots> \<le> foldl (\<lambda>v d. v * 10 + d) (i * 10 + d) ds" using Cons by simp
  finally show ?case by simp
qed simp

definition no_digit :: "string \<Rightarrow> bool" where
  "no_digit s \<longleftrightarrow> (case s of [] \<Rightarrow> True | c # _ \<Rightarrow> \<not> is_digit c)"

lemma skip_atoi_digits:
  assumes "0 \<le> i" "\<forall>d\<in>set ds. 0 \<le> d \<and> d < 10" "foldl (\<lambda>v d. v * 10 + d) i ds < 10 ^ 9" "no_digit rest"
  shows "skip_atoi i (map (\<lambda>d. upper_digits ! nat d) ds @ rest) = Some (foldl (\<lambda>v d. v * 10 + d) i ds, rest)"
  using assms(1-3)
proof (induction ds arbitrary: i)
  case Nil
  then show ?case using assms(4) by (cases rest) (simp_all add: no_digit_def)
next
  case (Cons d ds)
  have d: "0 \<le> d" "d < 10" using Cons.prems by simp_all
  have "i * 10 + d \<le> foldl (\<lambda>v d. v * 10 + d) (i * 10 + d) ds" using Cons.prems by (intro foldl_digits_mono) auto
  then have "i * 10 + d < 10 ^ 9" using Cons.prems by simp
  moreover have "is_digit (upper_digits ! nat d)" using d digit_code [of "nat d"] by (simp add: is_digit_def nat_less_iff)
  ultimately show ?case using Cons d by (simp add: digit_code_int)
qed

lemma skip_atoi_text:
  assumes "0 \<le> n" "n < 10 ^ 9" "no_digit rest"
  shows "skip_atoi 0 (digits_text upper_digits 10 n @ rest) = Some (n, rest)"
proof (cases "n = 0")
  case True
  then show ?thesis using assms(3) skip_atoi_digits [of 0 "[0]" rest] by (simp add: digits_text_def upper_digits_def)
next
  case False
  have v: "foldl (\<lambda>v d. v * 10 + d) 0 (rev (lsd 10 n)) = n"
    using lsd_value [OF assms(1), of 10] by (simp add: foldr_conv_foldl)
  then show ?thesis
    using skip_atoi_digits [of 0 "rev (lsd 10 n)" rest] assms lsd_range [of _ 10 n] False by (simp add: digits_text_def rev_map)
qed

lemma lsd_last: "0 < n \<Longrightarrow> 2 \<le> base \<Longrightarrow> lsd base n \<noteq> [] \<and> 0 < last (lsd base n)"
proof (induction base n rule: lsd.induct)
  case (1 base n)
  show ?case
  proof (cases "n < base")
    case True
    then have "lsd base n = [n]" using 1(2,3) by (simp add: lsd.simps [of base n] lsd.simps [of base 0])
    then show ?thesis using 1(2) by simp
  next
    case False
    then have "0 < n div base" using 1(3) by (simp add: pos_imp_zdiv_pos_iff)
    then show ?thesis using 1 by (subst (1 2) lsd.simps) auto
  qed
qed

text \<open>The first digit of a width is not \<open>0\<close>, which would be taken for a flag.\<close>

lemma width_text_first:
  assumes "0 < w"
  obtains c s where "width_text w = c # s" "is_digit c" "c \<noteq> CHR ''0''"
proof -
  define d where "d = last (lsd 10 (int w))"
  have l: "lsd 10 (int w) \<noteq> []" "0 < d" using lsd_last [of "int w" 10] assms by (simp_all add: d_def)
  then have r: "0 \<le> d" "d < 10" using lsd_range [of d 10 "int w"] by (simp_all add: d_def)
  have t: "width_text w = upper_digits ! nat d # map (\<lambda>d. upper_digits ! nat d) (rev (butlast (lsd 10 (int w))))"
    using assms l(1) by (simp add: width_text_def digits_text_def d_def rev_map [symmetric])
      (metis append_butlast_last_id list.map(2) rev_map rev_rev_ident rev.simps(2))
  have "of_char (upper_digits ! nat d) = 48 + d" by (rule digit_code_int [OF r])
  then have "is_digit (upper_digits ! nat d)" "upper_digits ! nat d \<noteq> CHR ''0''"
    using digit_code [of "nat d"] l(2) r by (auto simp: is_digit_def nat_less_iff)
  with t show ?thesis by (rule that)
qed

section \<open>Reading a specification\<close>

definition flag_word :: "bool \<Rightarrow> bool \<Rightarrow> u32" where
  "flag_word left zero = (if left then LEFT else 0) OR (if zero then ZEROPAD else 0)"

text \<open>A character that ends a specification.\<close>

definition ends_spec :: "char \<Rightarrow> bool" where
  "ends_spec c \<longleftrightarrow> \<not> is_digit c \<and> c \<notin> set ''-+ #*.hlL''"

lemma parse_flags_text:
  assumes "s = [] \<or> hd s \<notin> set ''-+ #0''"
  shows "parse_flags 0 (flag_text left zero @ s) = (flag_word left zero, s)"
proof -
  have "parse_flags f s = (f, s)" for f using assms by (cases s) auto
  then show ?thesis by (simp add: flag_text_def flag_word_def)
qed

lemma parse_width_text:
  assumes "w < 10 ^ 9" "no_digit s" "s \<noteq> [] \<Longrightarrow> hd s \<noteq> CHR ''*''"
  shows "parse_width f (width_text w @ s) args = Some (f, if w = 0 then - 1 else int w, s, args)"
proof (cases "w = 0")
  case True
  then show ?thesis using assms by (cases s) (simp_all add: width_text_def no_digit_def)
next
  case False
  then obtain c t where t: "width_text w = c # t" "is_digit c" using width_text_first by blast
  have "skip_atoi 0 (c # t @ s) = Some (int w, s)"
    using skip_atoi_text [of "int w" s] assms False t(1) by (simp add: width_text_def flip: append_Cons)
  then show ?thesis using t False by simp
qed

lemma parse_precision_text:
  assumes "ends_spec c" "case p of None \<Rightarrow> True | Some q \<Rightarrow> q < 10 ^ 9"
  shows "parse_precision (precision_text p @ c # fmt) args = Some (case p of None \<Rightarrow> - 1 | Some q \<Rightarrow> int q, c # fmt, args)"
proof (cases p)
  case None
  then show ?thesis using assms(1) by (auto simp: precision_text_def parse_precision_def ends_spec_def)
next
  case (Some q)
  have s: "skip_atoi 0 (digits_text upper_digits 10 (int q) @ c # fmt) = Some (int q, c # fmt)"
    using assms Some by (intro skip_atoi_text) (simp_all add: no_digit_def ends_spec_def)
  obtain d t where d: "digits_text upper_digits 10 (int q) = d # t" "is_digit d"
  proof (cases "q = 0")
    case True
    then show thesis using that [of "CHR ''0''" "[]"] by (simp add: digits_text_def is_digit_def)
  next
    case False
    then obtain c s where "width_text q = c # s" "is_digit c" using width_text_first by blast
    then show thesis using that False by (simp add: width_text_def)
  qed
  show ?thesis using s d Some by (simp add: precision_text_def parse_precision_def)
qed

lemma parse_spec_text:
  assumes "ends_spec c" "w < 10 ^ 9" "case p of None \<Rightarrow> True | Some q \<Rightarrow> q < 10 ^ 9"
  shows "parse_spec (flag_text left zero @ width_text w @ precision_text p @ c # fmt) args =
    Some (flag_word left zero, if w = 0 then - 1 else int w, case p of None \<Rightarrow> - 1 | Some q \<Rightarrow> int q, c # fmt, args)"
proof -
  let ?s = "precision_text p @ c # fmt"
  have c: "no_digit ?s" "hd ?s \<noteq> CHR ''*''" "hd ?s \<notin> set ''-+ #0''"
  proof -
    have z: "\<not> is_digit CHR ''.''" "is_digit CHR ''0''" by (simp_all add: is_digit_def)
    show "no_digit ?s" "hd ?s \<noteq> CHR ''*''" "hd ?s \<notin> set ''-+ #0''"
      using assms(1) z by (cases p; auto simp: precision_text_def ends_spec_def no_digit_def)+
  qed
  have "hd (width_text w @ ?s) \<notin> set ''-+ #0''"
  proof (cases "w = 0")
    case False
    then obtain d t where "width_text w = d # t" "is_digit d" "d \<noteq> CHR ''0''" using width_text_first by blast
    moreover have "\<not> is_digit CHR ''-''" "\<not> is_digit CHR ''+''" "\<not> is_digit CHR '' ''" "\<not> is_digit CHR ''#''" by (simp_all add: is_digit_def)
    ultimately show ?thesis by auto
  qed (use c(3) in \<open>simp add: width_text_def\<close>)
  moreover have "parse_qualifier (c # fmt) = c # fmt" using assms(1) by (auto simp: ends_spec_def)
  moreover have "parse_flags 0 (flag_text left zero @ width_text w @ ?s) = (flag_word left zero, width_text w @ ?s)"
    by (rule parse_flags_text) (use calculation(1) in blast)
  moreover note parse_width_text [OF assms(2) c(1,2), of "flag_word left zero" args] parse_precision_text [OF assms(1,3), of fmt args]
  ultimately show ?thesis unfolding parse_spec_def by (simp only: prod.case option.case option.map)
qed

section \<open>One directive\<close>

lemma flag_word_has:
  "has (flag_word left zero) LEFT = left" "has (flag_word left zero) ZEROPAD = zero"
  "flag_word True zero AND NOT ZEROPAD = LEFT" "flag_word False zero = (if zero then ZEROPAD else 0)"
  by (simp_all add: flag_word_def flag_defs)

lemma number_justified:
  assumes "0 \<le> n" "2 \<le> base" "base \<le> 36" "fl \<in> {0, SIGN, SMALL}"
  shows "number n base (if w = 0 then - 1 else int w) (- 1) (flag_word left zero OR fl) =
    Some (justify left (if zero then CHR ''0'' else CHR '' '') w (digits_text (if fl = SMALL then lower_digits else upper_digits) base n))"
proof -
  define digits where "digits = (if fl = SMALL then lower_digits else upper_digits)"
  define tmp where "tmp = (if n = 0 then ''0'' else map (\<lambda>d. digits ! nat d) (lsd base n))"
  define type where "type = (if left then (flag_word left zero OR fl) AND NOT ZEROPAD else flag_word left zero OR fl)"
  have f: "has (flag_word left zero OR fl) LEFT = left" "has (flag_word left zero OR fl) SMALL = (fl = SMALL)" "has type LEFT = left" "has type ZEROPAD = (zero \<and> \<not> left)"
    "\<not> has type PLUS" "\<not> has type SPACE" "\<not> has type SPECIAL"
    using assms(4) by (auto simp: type_def flag_word_def flag_defs)
  have tmp: "(if n = 0 then Some ''0'' else number_tmp digits n base) = Some tmp" "rev tmp = digits_text digits base n" "0 < length tmp"
    using assms(1-3) by (simp_all add: tmp_def number_tmp_lsd digits_text_def) (simp add: lsd.simps)
  have w: "nat ((if w = 0 then - 1 else int w) - int (length tmp)) = w - length tmp" by (cases "w = 0") (simp_all add: nat_minus_as_int)
  have "number n base (if w = 0 then - 1 else int w) (- 1) (flag_word left zero OR fl) =
      Some (number_emit [] [] tmp (if w = 0 then - 1 else int w) (- 1) type)"
    using assms(1-3) tmp(1) f by (simp add: number_def Let_def number_sign_def special_width_def special_prefix_def flip: digits_def type_def)
  also have "number_emit [] [] tmp (if w = 0 then - 1 else int w) (- 1) type = justify left (if zero then CHR ''0'' else CHR '' '') w (rev tmp)"
    using f w by (auto simp: number_emit_def Let_def pad_eq has_sum justify_def)
  finally show ?thesis unfolding tmp(2) digits_def .
qed

lemma number_negative:
  assumes "n < 0"
  shows "number n 10 (if w = 0 then - 1 else int w) (- 1) (flag_word left zero OR SIGN) =
    Some (if zero \<and> \<not> left then CHR ''-'' # justify False CHR ''0'' (w - 1) ''0'' else justify left CHR '' '' w ''-0'')"
proof -
  define type where "type = (if left then (flag_word left zero OR SIGN) AND NOT ZEROPAD else flag_word left zero OR SIGN)"
  have f: "has (flag_word left zero OR SIGN) LEFT = left" "has type SIGN" "has type LEFT = left" "has type ZEROPAD = (zero \<and> \<not> left)" "\<not> has type SPECIAL"
    by (auto simp: type_def flag_word_def flag_defs)
  have w: "nat ((if w = 0 then - 1 else int w) - 1 - 1) = w - 1 - 1" by (cases "w = 0") (simp_all add: nat_minus_as_int)
  have "number n 10 (if w = 0 then - 1 else int w) (- 1) (flag_word left zero OR SIGN) =
      Some (number_emit ''-'' [] ''0'' ((if w = 0 then - 1 else int w) - 1) (- 1) type)"
    using assms f by (simp add: number_def Let_def number_sign_def special_width_def special_prefix_def flip: type_def)
  also have "number_emit ''-'' [] ''0'' ((if w = 0 then - 1 else int w) - 1) (- 1) type =
      (if zero \<and> \<not> left then CHR ''-'' # justify False CHR ''0'' (w - 1) ''0'' else justify left CHR '' '' w ''-0'')"
    using f w by (auto simp: number_emit_def Let_def pad_eq has_sum justify_def numeral_2_eq_2)
  finally show ?thesis .
qed

text \<open>The other conversions do not look at the sign; a negative number makes them read outside the digits.\<close>

lemma number_unsigned_negative:
  assumes "n < 0" "2 \<le> base" "fl \<in> {0, SMALL}"
  shows "number n base w p (flag_word left zero OR fl) = None"
proof -
  define type where "type = (if has (flag_word left zero OR fl) LEFT then (flag_word left zero OR fl) AND NOT ZEROPAD else flag_word left zero OR fl)"
  have "\<not> has type SIGN" using assms(3) by (auto simp: type_def flag_word_def flag_defs)
  then show ?thesis using assms(1,2) by (simp add: number_def Let_def number_sign_def number_tmp_neg flip: type_def)
qed

lemma conv_c_justified: "conv_c (flag_word left False) (if w = 0 then - 1 else int w) x = justify left CHR '' '' w [char_of (unat (ucast x :: u8))]"
proof -
  have "nat (int w - 1) = w - Suc 0" by (simp add: nat_minus_as_int)
  then show ?thesis by (simp add: conv_c_def pre_pad_def pad_eq flag_word_has justify_def Let_def)
qed

lemma conv_s_justified:
  "conv_s (flag_word left False) (if w = 0 then - 1 else int w) (case p of None \<Rightarrow> - 1 | Some q \<Rightarrow> int q) s =
     justify left CHR '' '' w (case p of None \<Rightarrow> s | Some q \<Rightarrow> take q s)"
proof -
  have n: "nat (int a - int b) = a - b" for a b by (simp add: nat_minus_as_int)
  show ?thesis by (cases p) (auto simp: conv_s_def pad_eq flag_word_has justify_def Let_def n)
qed

lemma char_arg: "char_of (unat (ucast (of_nat (of_char c) :: u32) :: u8)) = c"
proof -
  have "(of_char c :: nat) mod 4294967296 = of_char c"
    by (rule mod_less) (use nat_of_char_less_256 [of c] in linarith)
  then have "unat (ucast (of_nat (of_char c) :: u32) :: u8) = of_char c" by (simp add: unat_ucast_mod unat_of_nat)
  then show ?thesis by simp
qed

lemma loop_literal:
  "CHR ''%'' \<notin> set s \<Longrightarrow> vsprintf_loop (s @ fmt) args out st = vsprintf_loop fmt args (out @ s) st"
  by (induction s arbitrary: out) auto

lemma loop_spec:
  assumes "ends_spec c" "w < 10 ^ 9" "case p of None \<Rightarrow> True | Some q \<Rightarrow> q < 10 ^ 9"
    "convert c (flag_word left zero) (if w = 0 then - 1 else int w) (case p of None \<Rightarrow> - 1 | Some q \<Rightarrow> int q) args (int (length out)) = Some (s, args', [])"
  shows "vsprintf_loop (CHR ''%'' # flag_text left zero @ width_text w @ precision_text p @ c # fmt) args out st = vsprintf_loop fmt args' (out @ s) st"
  using assms(4) by (subst vsprintf_loop.simps(2)) (simp add: parse_spec_text [OF assms(1-3)])

lemma loop_directive:
  assumes "directive_ok d"
  shows "vsprintf_loop (spec_text d @ fmt) (spec_args d @ args) out st = vsprintf_loop fmt args (out @ printed d) st"
proof (cases d)
  case (Lit s)
  then show ?thesis using assms loop_literal by simp
next
  case Percent
  have e: "ends_spec CHR ''%''" by (simp add: ends_spec_def is_digit_def)
  have "convert CHR ''%'' (flag_word False False) (if (0::nat) = 0 then - 1 else int 0) (case None of None \<Rightarrow> - 1 | Some q \<Rightarrow> int q) args n = Some (''%'', args, [])" for n
    by (simp add: convert_def num_conv_def)
  from loop_spec [OF e _ _ this, where fmt = fmt and st = st and out = out] show ?thesis
    by (simp add: Percent flag_text_def width_text_def precision_text_def)
next
  case (Char left w c)
  have e: "ends_spec CHR ''c''" by (simp add: ends_spec_def is_digit_def)
  have "convert CHR ''c'' (flag_word left False) (if w = 0 then - 1 else int w) (case None of None \<Rightarrow> - 1 | Some q \<Rightarrow> int q)
      (VInt (of_nat (of_char c)) # args) n = Some (justify left CHR '' '' w [c], args, [])" for n
    by (simp add: convert_def conv_c_justified char_arg)
  from loop_spec [OF e _ _ this, where fmt = fmt and st = st and out = out] show ?thesis using assms by (simp add: Char)
next
  case (Str left w p s)
  have e: "ends_spec CHR ''s''" by (simp add: ends_spec_def is_digit_def)
  have "convert CHR ''s'' (flag_word left False) (if w = 0 then - 1 else int w) (case p of None \<Rightarrow> - 1 | Some q \<Rightarrow> int q)
      (VStr s # args) n = Some (printed d, args, [])" for n
    by (simp add: convert_def conv_s_justified Str)
  from loop_spec [OF e _ _ this, where fmt = fmt and st = st and out = out] show ?thesis using assms by (simp add: Str)
next
  case (Num c left zero w x)
  define fl where "fl = (if c = CHR ''x'' then SMALL else if c = CHR ''d'' \<or> c = CHR ''i'' then SIGN else 0)"
  have c: "c \<in> set ''diuoxX''" "w < 10 ^ 9" "c \<in> set ''di'' \<or> 0 \<le> sint x" using assms Num by simp_all
  then have e: "ends_spec c" "num_conv c = Some (conv_base c, fl)" "c \<notin> set ''cspn''" "2 \<le> conv_base c" "conv_base c \<le> 36" "fl \<in> {0, SIGN, SMALL}"
    "(fl = SMALL) = (c = CHR ''x'')"
    by (auto simp: ends_spec_def is_digit_def num_conv_def conv_base_def fl_def flag_defs)
  have "convert c (flag_word left zero) (if w = 0 then - 1 else int w) (case None of None \<Rightarrow> - 1 | Some q \<Rightarrow> int q)
      (VInt x # args) n = Some (printed d, args, [])" for n
  proof (cases "sint x < 0")
    case True
    then have "conv_base c = 10" "fl = SIGN" using c(3) by (auto simp: conv_base_def fl_def)
    then show ?thesis using e(2,3) number_negative [OF True, of w left zero] True by (simp add: convert_def Num)
  next
    case False
    then have "0 \<le> sint x" by simp
    then show ?thesis using e(2,3) number_justified [OF _ e(4-6), of "sint x" w left zero] e(7) by (simp add: convert_def Num)
  qed
  from loop_spec [OF e(1) c(2) _ this, where fmt = fmt and st = st and out = out] show ?thesis by (simp add: Num)
qed

lemma loop_unsigned_negative:
  assumes "c \<in> set ''uoxX''" "w < 10 ^ 9" "sint x < 0"
  shows "vsprintf_loop (spec_text (Num c left zero w x) @ fmt) (VInt x # args) out st = None"
proof -
  define fl where "fl = (if c = CHR ''x'' then SMALL else 0)"
  have e: "ends_spec c" "num_conv c = Some (conv_base c, fl)" "c \<notin> set ''cspn''" "2 \<le> conv_base c" "fl \<in> {0, SMALL}"
    using assms(1) by (auto simp: ends_spec_def is_digit_def num_conv_def conv_base_def fl_def)
  then have "convert c (flag_word left zero) v p (VInt x # args) n = None" for v p n
    using number_unsigned_negative [OF assms(3) e(4,5)] by (simp add: convert_def)
  then show ?thesis
    using parse_spec_text [OF e(1) assms(2), of None left zero fmt "VInt x # args"]
    by (simp add: precision_text_def)
qed

section \<open>The whole format\<close>

lemma loop_directives:
  assumes "\<forall>d\<in>set ds. directive_ok d"
  shows "vsprintf_loop (concat (map spec_text ds) @ fmt) (concat (map spec_args ds) @ args) out st = vsprintf_loop fmt args (out @ concat (map printed ds)) st"
  using assms by (induction ds arbitrary: out) (simp_all add: loop_directive)

lemma vsprintf_directives:
  assumes "\<forall>d\<in>set ds. directive_ok d"
  shows "vsprintf (concat (map spec_text ds)) (concat (map spec_args ds)) =
    Some (concat (map printed ds), int (length (concat (map printed ds))), [])"
proof -
  have "vsprintf_loop (concat (map spec_text ds)) (concat (map spec_args ds)) [] [] = Some (concat (map printed ds), [])"
    using loop_directives [OF assms, of "[]" "[]" "[]" "[]"] by simp
  then show ?thesis by (simp add: vsprintf_def)
qed

lemma vsprintf_unsigned_negative:
  assumes "\<forall>d\<in>set ds. directive_ok d" "c \<in> set ''uoxX''" "w < 10 ^ 9" "sint x < 0"
  shows "vsprintf (concat (map spec_text ds) @ spec_text (Num c left zero w x) @ fmt) (concat (map spec_args ds) @ VInt x # args) = None"
  by (simp only: vsprintf_def loop_directives [OF assms(1)] loop_unsigned_negative [OF assms(2-4)] option.map)

end
