(* ===== verification/Sbi.thy ===== *)
theory Sbi
  imports Vformat
begin

text \<open>
  \<open>toyos/Kernel/Arch/riscv/sbi.cpp\<close>: calls of the machine's firmware.  The firmware is a parameter, a
  function of the argument registers and its own state that returns \<open>a0\<close> and \<open>a1\<close>.  \<open>uintptr_t\<close> is
  declared as \<open>int\<close> in this file, so every argument is cut to 32 bits and sits in its 64-bit register with its
  sign extended, and so are the results.
\<close>

record sbi_regs =
  a0 :: u64
  a1 :: u64
  a2 :: u64
  a3 :: u64
  a4 :: u64
  a6 :: u64
  a7 :: u64

record SBIRet =
  ret_error :: u64
  ret_value :: u64

type_synonym 's firmware = "sbi_regs \<Rightarrow> 's \<Rightarrow> (u64 \<times> u64) \<times> 's"

definition SBI_EXT_ID_TIME :: u64 where "SBI_EXT_ID_TIME = 0x54494D45"
definition SBI_TIME_SET_TIMER :: u64 where "SBI_TIME_SET_TIMER = 0"
definition SBI_CONSOLE_PUTCHAR :: u64 where "SBI_CONSOLE_PUTCHAR = 1"
definition SBI_CONSOLE_GETCHAR :: u64 where "SBI_CONSOLE_GETCHAR = 2"
definition SBI_SHUTDOWN :: u64 where "SBI_SHUTDOWN = 8"

text \<open>A value in a variable of the type \<open>uintptr_t\<close>.\<close>

definition as_uintptr :: "u64 \<Rightarrow> u64" where
  "as_uintptr x = scast (ucast x :: u32)"

definition SBICall :: "'s firmware \<Rightarrow> u64 \<Rightarrow> u64 \<Rightarrow> u64 \<Rightarrow> u64 \<Rightarrow> u64 \<Rightarrow> u64 \<Rightarrow> u64 \<Rightarrow> 's \<Rightarrow> SBIRet \<times> 's" where
  "SBICall ecall arg7 arg6 arg0 arg1 arg2 arg3 arg4 s =
     (case ecall \<lparr>a0 = as_uintptr arg0, a1 = as_uintptr arg1, a2 = as_uintptr arg2, a3 = as_uintptr arg3, a4 = as_uintptr arg4,
                   a6 = as_uintptr arg6, a7 = as_uintptr arg7\<rparr> s of
        ((r0, r1), s) \<Rightarrow> (\<lparr>ret_error = as_uintptr r0, ret_value = as_uintptr r1\<rparr>, s))"

text \<open>The argument is an \<open>int\<close>, which the call extends to 64 bits.\<close>

definition SBIConsolePutchar :: "'s firmware \<Rightarrow> u32 \<Rightarrow> 's \<Rightarrow> 's" where
  "SBIConsolePutchar ecall ch s = snd (SBICall ecall SBI_CONSOLE_PUTCHAR 0 (scast ch) 0 0 0 0 s)"

definition SBIConsoleGetchar :: "'s firmware \<Rightarrow> 's \<Rightarrow> u32 \<times> 's" where
  "SBIConsoleGetchar ecall s = (case SBICall ecall SBI_CONSOLE_GETCHAR 0 0 0 0 0 0 s of (r, s) \<Rightarrow> (ucast (ret_error r), s))"

definition SBISetTimer :: "'s firmware \<Rightarrow> u64 \<Rightarrow> 's \<Rightarrow> 's" where
  "SBISetTimer ecall val s = snd (SBICall ecall SBI_EXT_ID_TIME SBI_TIME_SET_TIMER val 0 0 0 0 s)"

definition SBIShutdown :: "'s firmware \<Rightarrow> 's \<Rightarrow> 's" where
  "SBIShutdown ecall s = snd (SBICall ecall SBI_SHUTDOWN 0 0 0 0 0 0 s)"

text \<open>\<open>printk\<close>'s loop over the buffer, and \<open>printk\<close> as a whole.\<close>

primrec putchars :: "'s firmware \<Rightarrow> string \<Rightarrow> 's \<Rightarrow> 's" where
  "putchars ecall [] s = s"
| "putchars ecall (c # cs) s = putchars ecall cs (SBIConsolePutchar ecall (of_char c) s)"

definition printk :: "'s firmware \<Rightarrow> string \<Rightarrow> varg list \<Rightarrow> 's \<Rightarrow> (int \<times> 's) option" where
  "printk ecall fmt args s = (case vsprintf fmt args of
     None \<Rightarrow> None
   | Some (out, n, stores) \<Rightarrow>
       if length out + 1 > 1024 then None
       else Some (n, putchars ecall (takeWhile (\<lambda>c. c \<noteq> CHR 0x00) out) s))"

text \<open>\<open>kernelMain\<close> up to its endless loop.\<close>

definition kernelMain :: "'s firmware \<Rightarrow> 's \<Rightarrow> (int \<times> 's) option" where
  "kernelMain ecall s = printk ecall (''%s %d'' @ [CHR 0x0a]) [VStr ''hello world!'', VInt 1024] s"

text \<open>A firmware that keeps the sequence of the calls made.\<close>

definition logging :: "sbi_regs list firmware" where
  "logging regs log = ((0, 0), log @ [regs])"

definition putchar_regs :: "char \<Rightarrow> sbi_regs" where
  "putchar_regs c = \<lparr>a0 = of_char c, a1 = 0, a2 = 0, a3 = 0, a4 = 0, a6 = 0, a7 = 1\<rparr>"

lemma as_uintptr_sint: "sint (as_uintptr x) = signed_take_bit 31 (sint x)"
proof -
  have "sint (as_uintptr x) = sint (ucast x :: u32)"
    unfolding as_uintptr_def by (rule sint_up_scast) (simp add: is_up)
  also have "\<dots> = signed_take_bit 31 (uint x)"
    by (simp add: sint_uint unsigned_ucast_eq signed_take_bit_take_bit)
  also have "\<dots> = signed_take_bit 31 (sint x)"
    by (simp add: sint_uint [of x] min_def)
  finally show ?thesis .
qed

lemma as_uintptr_id: "as_uintptr x = x \<longleftrightarrow> - (2 ^ 31) \<le> sint x \<and> sint x < 2 ^ 31"
  using sint_eq_iff [of "as_uintptr x" x] signed_take_bit_int_eq_self_iff [of 31 "sint x"] by (simp only: as_uintptr_sint)

text \<open>What the kernel prints.\<close>

lemma kernelMain_prints:
  "kernelMain logging [] = Some (18, map putchar_regs (''hello world! 1024'' @ [CHR 0x0a]))"
  by code_simp

section \<open>Properties\<close>

text \<open>\<open>SBISetTimer\<close> asks the firmware for the time cut to 32 bits with the sign extended: the time it was given
  only if, read as a signed number, it lies between -2^31 and 2^31.\<close>

lemma SBISetTimer_truncates:
  "\<exists>t. SBISetTimer ecall val s = snd (ecall \<lparr>a0 = t, a1 = 0, a2 = 0, a3 = 0, a4 = 0, a6 = 0, a7 = 0x54494D45\<rparr> s)
     \<and> sint t = signed_take_bit 31 (sint val) \<and> (t = val \<longleftrightarrow> - (2 ^ 31) \<le> sint val \<and> sint val < 2 ^ 31)"
proof -
  have "as_uintptr 0 = 0" "as_uintptr 0x54494D45 = 0x54494D45" by (simp_all add: as_uintptr_def)
  then have "SBISetTimer ecall val s = snd (ecall \<lparr>a0 = as_uintptr val, a1 = 0, a2 = 0, a3 = 0, a4 = 0, a6 = 0, a7 = 0x54494D45\<rparr> s)"
    by (simp add: SBISetTimer_def SBICall_def SBI_EXT_ID_TIME_def SBI_TIME_SET_TIMER_def case_prod_beta)
  then show ?thesis using as_uintptr_id [of val] as_uintptr_sint [of val] by blast
qed

lemma putchar_call: "SBIConsolePutchar ecall (of_char c) s = snd (ecall (putchar_regs c) s)"
proof -
  have "(of_char c :: nat) < 256" by (rule nat_of_char_less_256)
  then have "(of_nat (of_char c) :: u32) = of_char c" "as_uintptr (scast (of_nat (of_char c) :: u32)) = of_nat (of_char c)"
    by (simp_all add: of_nat_of_char) (cases c, simp add: as_uintptr_def)
  then show ?thesis
    by (simp add: SBIConsolePutchar_def SBICall_def putchar_regs_def SBI_CONSOLE_PUTCHAR_def case_prod_beta as_uintptr_def of_nat_of_char)
qed

lemma putchars_calls: "putchars ecall cs s = fold (\<lambda>c s. snd (ecall (putchar_regs c) s)) cs s"
  by (induction cs arbitrary: s) (simp_all add: putchar_call)

text \<open>C13: formatted output, from the format to the firmware.  A format that is written from directives, with widths and precisions of at most nine digits, is printed by \<open>vsprintf\<close> as the directives say: literal
  text and percent signs as they are, characters, strings cut to their precision, and numbers that are not negative in their base, each filled to its width on the
  left or, with \<open>-\<close>, on the right, with zeros where \<open>0\<close> asks for it on the left; every directive takes its own argument, in any mixture of kinds, and the value returned is the number of
  characters.  A negative number is printed by \<open>%d\<close> and \<open>%i\<close> as \<open>-0\<close>, filled in the same way; with \<open>%u\<close>, \<open>%o\<close>, \<open>%x\<close> and \<open>%X\<close>, wherever
  in the format, it makes the behaviour undefined.  Where the text fits the buffer of \<open>printk\<close>, 1024 characters with the terminator, and has no \<open>NUL\<close>, \<open>printk\<close> asks the firmware to print exactly its characters, one call
  for each, in their order.\<close>

theorem printk_directives:
  assumes "\<forall>d\<in>set ds. directive_ok d" "t = concat (map printed ds)"
  shows "vsprintf (concat (map spec_text ds)) (concat (map spec_args ds)) = Some (t, int (length t), [])
    \<and> (length t < 1024 \<and> CHR 0x00 \<notin> set t \<longrightarrow>
        printk ecall (concat (map spec_text ds)) (concat (map spec_args ds)) s =
          Some (int (length t), fold (\<lambda>c s. snd (ecall (putchar_regs c) s)) t s))
    \<and> (c \<in> set ''uoxX'' \<and> w < 10 ^ 9 \<and> sint x < 0 \<longrightarrow>
        vsprintf (concat (map spec_text ds) @ spec_text (Num c left zero w x) @ fmt) (concat (map spec_args ds) @ VInt x # args) = None)"
proof -
  have "takeWhile (\<lambda>c. c \<noteq> CHR 0x00) t = t" if "CHR 0x00 \<notin> set t" using that by (auto simp: takeWhile_eq_all_conv)
  then have 1: "length t < 1024 \<and> CHR 0x00 \<notin> set t \<longrightarrow> printk ecall (concat (map spec_text ds)) (concat (map spec_args ds)) s =
      Some (int (length t), fold (\<lambda>c s. snd (ecall (putchar_regs c) s)) t s)"
    using vsprintf_directives [OF assms(1)] by (auto simp: printk_def putchars_calls simp flip: assms(2))
  show ?thesis
    by (intro conjI 1 impI) (use vsprintf_directives [OF assms(1)] vsprintf_unsigned_negative [OF assms(1)] assms(2) in blast)+
qed

theorem printk_directives_witness:
  "printk logging ''%s:%05d %-4x|%4d'' [VStr ''irq'', VInt 42, VInt 255, VInt (- 7)] [] = Some (19, map putchar_regs ''irq:00042 ff  |  -0'')
   \<and> vsprintf ''%s:%05d %-4x|%4d%u'' [VStr ''irq'', VInt 42, VInt 255, VInt (- 7), VInt (- 1)] = None"
proof -
  let ?ds = "[Str False 0 None ''irq'', Lit '':'', Num CHR ''d'' False True 5 42, Lit '' '', Num CHR ''x'' True False 4 255, Lit ''|'', Num CHR ''d'' False False 4 (- 7)]"
  have l: "lsd 10 42 = [2, 4]" "lsd 16 255 = [15, 15]" "lsd 10 5 = [5]" "lsd 10 4 = [4]" by (simp_all add: lsd.simps)
  have ok: "\<forall>d\<in>set ?ds. directive_ok d" by simp
  have t: "concat (map printed ?ds) = ''irq:00042 ff  |  -0''" "concat (map spec_text ?ds) = ''%s:%05d %-4x|%4d''"
    "concat (map spec_args ?ds) = [VStr ''irq'', VInt 42, VInt 255, VInt (- 7)]" "spec_text (Num CHR ''u'' False False 0 (- 1)) = ''%u''"
    by (simp_all add: flag_text_def width_text_def precision_text_def digits_text_def justify_def conv_base_def l upper_digits_def lower_digits_def numeral_eq_Suc)
  show ?thesis
    using printk_directives [OF ok t(1) [symmetric], where ecall = logging and s = "[]" and c = "CHR ''u''" and w = 0 and x = "- 1"
        and left = False and zero = False and fmt = "[]" and args = "[]", unfolded t(2-4)] by (simp add: logging_def)
qed

end
