(* ===== verification/Toy_String.thy ===== *)
theory Toy_String
  imports Prelude
begin

text \<open>
  \<open>toyos/Library/libc/string.cpp\<close>: the string routines of the second kernel, on the flat memory of
  a processor without address translation; a byte can be read and written at every address.  A
  loop that looks for a zero byte is a \<open>partial_function\<close>, \<open>None\<close> where it does not end.  A plain \<open>char\<close> is
  unsigned on RISC-V, and \<open>size_t\<close> is declared as \<open>unsigned int\<close> (\<open>stddef.h\<close>), of 32 bits.
\<close>

section \<open>Definitions\<close>

type_synonym bytes = "u64 \<Rightarrow> u8"

partial_function (option) strlen_loop :: "u64 \<Rightarrow> u32 \<Rightarrow> bytes \<Rightarrow> u32 option" where
  "strlen_loop str len m = (if m (str + ucast len) \<noteq> 0 then strlen_loop str (len + 1) m else Some len)"

definition strlen :: "u64 \<Rightarrow> bytes \<Rightarrow> u32 option" where
  "strlen str m = strlen_loop str 0 m"

text \<open>The difference of the two characters, cut to an \<open>int8_t\<close>.\<close>

partial_function (option) strcmp :: "u64 \<Rightarrow> u64 \<Rightarrow> bytes \<Rightarrow> int option" where
  "strcmp src dest m =
     (if m src \<noteq> 0 \<and> m dest \<noteq> 0 \<and> m src = m dest then strcmp (src + 1) (dest + 1) m
      else Some (sint (m src - m dest)))"

partial_function (option) strcpy_loop :: "u64 \<Rightarrow> u64 \<Rightarrow> bytes \<Rightarrow> bytes option" where
  "strcpy_loop dest src m =
     (let m' = m(dest := m src) in if m src \<noteq> 0 then strcpy_loop (dest + 1) (src + 1) m' else Some m')"

definition strcpy :: "u64 \<Rightarrow> u64 \<Rightarrow> bytes \<Rightarrow> (u64 \<times> bytes) option" where
  "strcpy dest src m = map_option (\<lambda>m'. (dest, m')) (strcpy_loop dest src m)"

definition backspace :: "u64 \<Rightarrow> bytes \<Rightarrow> bytes option" where
  "backspace src m = map_option (\<lambda>len. m(src + ucast (len - 1) := 0)) (strlen src m)"

definition append :: "u64 \<Rightarrow> u8 \<Rightarrow> bytes \<Rightarrow> bytes option" where
  "append src dest m = map_option (\<lambda>len. m(src + ucast len := dest, src + ucast (len + 1) := 0)) (strlen src m)"

text \<open>The two loops of \<open>strcat\<close>: the first looks for the end of \<open>dest\<close>.\<close>

partial_function (option) strcat_end :: "u64 \<Rightarrow> bytes \<Rightarrow> u64 option" where
  "strcat_end add_d m = (if m add_d \<noteq> 0 then strcat_end (add_d + 1) m else Some add_d)"

partial_function (option) strcat_loop :: "u64 \<Rightarrow> u64 \<Rightarrow> bytes \<Rightarrow> bytes option" where
  "strcat_loop add_d src m = (if m src \<noteq> 0 then strcat_loop (add_d + 1) (src + 1) (m(add_d := m src)) else Some m)"

definition strcat :: "u64 \<Rightarrow> u64 \<Rightarrow> bytes \<Rightarrow> (u64 \<times> bytes) option" where
  "strcat dest src m =
     (if dest \<noteq> 0 \<and> src \<noteq> 0 then
        (case strcat_end dest m of
           None \<Rightarrow> None
         | Some add_d \<Rightarrow> map_option (\<lambda>m'. (dest, m')) (strcat_loop add_d src m))
      else Some (dest, m))"

function memcpy :: "u64 \<Rightarrow> u64 \<Rightarrow> u32 \<Rightarrow> bytes \<Rightarrow> bytes" where
  "memcpy dst sr len m = (if len \<noteq> 0 then memcpy (dst + 1) (sr + 1) (len - 1) (m(dst := m sr)) else m)"
  by pat_completeness auto
termination
  by (relation "measure (\<lambda>(_, _, len, _). unat len)") (auto simp: unat_pred_less word_gt_0)

function memset :: "u64 \<Rightarrow> u8 \<Rightarrow> u32 \<Rightarrow> bytes \<Rightarrow> bytes" where
  "memset dst val len m = (if len \<noteq> 0 then memset (dst + 1) val (len - 1) (m(dst := val)) else m)"
  by pat_completeness auto
termination
  by (relation "measure (\<lambda>(_, _, len, _). unat len)") (auto simp: unat_pred_less word_gt_0)

declare memcpy.simps [simp del] memset.simps [simp del]

definition bzero :: "u64 \<Rightarrow> u32 \<Rightarrow> bytes \<Rightarrow> bytes" where
  "bzero dest len m = memset dest 0 len m"

section \<open>Lemmas\<close>

text \<open>The bytes from an address on, and a C string there.\<close>

definition bytes_at :: "u64 \<Rightarrow> u8 list \<Rightarrow> bytes \<Rightarrow> bool" where
  "bytes_at p bs m \<longleftrightarrow> (\<forall>i<length bs. m (p + of_nat i) = bs ! i)"

definition cstr :: "u64 \<Rightarrow> u8 list \<Rightarrow> bytes \<Rightarrow> bool" where
  "cstr p bs m \<longleftrightarrow> bytes_at p (bs @ [0]) m \<and> 0 \<notin> set bs"

lemma bytes_at_Cons: "bytes_at p (b # bs) m \<longleftrightarrow> m p = b \<and> bytes_at (p + 1) bs m"
proof -
  have "(\<forall>i<Suc n. P i) \<longleftrightarrow> P 0 \<and> (\<forall>i<n. P (Suc i))" for P and n :: nat by (auto simp: less_Suc_eq_0_disj)
  then show ?thesis by (simp add: bytes_at_def add.assoc)
qed

lemma cstr_Cons: "cstr p (b # bs) m \<longleftrightarrow> m p = b \<and> b \<noteq> 0 \<and> cstr (p + 1) bs m"
  by (auto simp: cstr_def bytes_at_Cons)

lemma cstr_Nil: "cstr p [] m \<longleftrightarrow> m p = 0"
  by (simp add: cstr_def bytes_at_def)

lemma ucast_offset: "n < 2 ^ 32 \<Longrightarrow> (ucast (of_nat n :: u32) :: u64) = of_nat n"
proof -
  assume "n < 2 ^ 32"
  then have "unat (of_nat n :: u32) = n" by (simp add: unat_of_nat)
  then have "unat (ucast (of_nat n :: u32) :: u64) = unat (of_nat n :: u64)"
    using \<open>n < 2 ^ 32\<close> by (simp add: unsigned_ucast_eq unat_of_nat take_bit_nat_eq_self)
  then show ?thesis by (simp only: word_unat_eq_iff)
qed

lemma strlen_loop_run:
  "cstr (str + of_nat n) bs m \<Longrightarrow> n + length bs < 2 ^ 32 \<Longrightarrow> strlen_loop str (of_nat n) m = Some (of_nat (n + length bs))"
proof (induction bs arbitrary: n)
  case Nil
  then show ?case using ucast_offset [of n] by (subst strlen_loop.simps) (simp add: cstr_Nil)
next
  case (Cons b bs)
  have "cstr (str + of_nat (Suc n)) bs m" using Cons.prems(1) by (simp add: cstr_Cons add.commute add.left_commute)
  from Cons.IH [OF this] have "strlen_loop str (of_nat n + 1) m = Some (of_nat (Suc n + length bs))"
    using Cons.prems(2) by (simp add: add.commute)
  moreover have "m (str + ucast (of_nat n :: u32)) \<noteq> 0" using ucast_offset [of n] Cons.prems by (simp add: cstr_Cons)
  ultimately show ?case by (subst strlen_loop.simps) simp
qed

lemma strlen_run: "cstr str bs m \<Longrightarrow> length bs < 2 ^ 32 \<Longrightarrow> strlen str m = Some (of_nat (length bs))"
  using strlen_loop_run [of str 0 bs m] by (simp add: strlen_def)

lemma offset_neq: "i < n \<Longrightarrow> n < 2 ^ 64 \<Longrightarrow> (of_nat n :: u64) \<noteq> of_nat i"
  by (simp add: word_of_nat_eq_iff take_bit_eq_mod)

text \<open>\<open>strcmp\<close> stops at the first difference; its result wraps.\<close>

lemma strcmp_run:
  "cstr p bs m \<Longrightarrow> cstr q cs m \<Longrightarrow> \<exists>d :: u8. strcmp p q m = Some (sint d) \<and> (d = 0 \<longleftrightarrow> bs = cs)"
proof (induction bs arbitrary: cs p q)
  case Nil
  then have "strcmp p q m = Some (sint (m p - m q))" by (subst strcmp.simps) (simp add: cstr_Nil)
  moreover have "m p - m q = 0 \<longleftrightarrow> [] = cs" using Nil by (cases cs) (auto simp: cstr_Cons cstr_Nil)
  ultimately show ?case by blast
next
  case (Cons b bs)
  show ?case
  proof (cases cs)
    case Nil
    with Cons.prems show ?thesis
      by (subst strcmp.simps) (auto simp: cstr_Cons cstr_Nil intro!: exI [of _ "m p - m q"])
  next
    case (Cons c cs')
    with Cons.prems have c: "cstr (p + 1) bs m" "cstr (q + 1) cs' m" "m p = b" "m q = c" "b \<noteq> 0" "c \<noteq> 0" by (simp_all add: cstr_Cons)
    show ?thesis
    proof (cases "b = c")
      case True
      then show ?thesis using Cons.IH [OF c(1,2)] c(3-6) Cons by (subst strcmp.simps) simp
    next
      case False
      then show ?thesis using c(3-6) Cons by (subst strcmp.simps) (auto intro!: exI [of _ "b - c"])
    qed
  qed
qed

lemma sint_zero_iff: "sint x = 0 \<longleftrightarrow> x = 0"
  using sint_eq_iff [of x 0] by simp

lemma strcmp_zero_iff:
  assumes "cstr p bs m" "cstr q cs m"
  shows "strcmp p q m = Some 0 \<longleftrightarrow> bs = cs"
  using strcmp_run [OF assms] sint_zero_iff by (metis option.inject)

text \<open>The order of \<open>strcmp\<close> is not that of the characters: \<open>0x81\<close> against \<open>0x01\<close> gives -128.\<close>

lemma strcmp_wraps: "m p = 0x81 \<Longrightarrow> m q = 0x01 \<Longrightarrow> strcmp p q m = Some (- 128)"
  by (subst strcmp.simps) simp

text \<open>\<open>strcpy\<close> to bytes that are not part of the source.\<close>

lemma bytes_at_upd: "(\<And>i. i < length bs \<Longrightarrow> q \<noteq> p + of_nat i) \<Longrightarrow> bytes_at p bs (m(q := b)) = bytes_at p bs m"
  by (auto simp: bytes_at_def)

definition apart :: "u64 \<Rightarrow> u64 \<Rightarrow> nat \<Rightarrow> bool" where
  "apart p q n \<longleftrightarrow> (\<forall>i<n. \<forall>j<n. p + of_nat i \<noteq> q + of_nat j)"

lemma apart_Suc:
  assumes "apart p q (Suc n)"
  shows "apart (p + 1) (q + 1) n" "j \<le> n \<Longrightarrow> p \<noteq> q + of_nat j"
proof -
  have "p + of_nat (Suc i) \<noteq> q + of_nat (Suc j)" if "i < n" "j < n" for i j
    using assms that by (simp add: apart_def del: of_nat_Suc)
  then show "apart (p + 1) (q + 1) n" by (simp add: apart_def add.assoc)
  show "p \<noteq> q + of_nat j" if "j \<le> n"
    using assms [unfolded apart_def, rule_format, of 0 j] that by simp
qed

text \<open>\<open>strcat\<close> copies the characters of \<open>src\<close> behind those of \<open>dest\<close> and writes no zero byte: the byte
  after them is what it was.\<close>

lemma strcat_end_run: "cstr p bs m \<Longrightarrow> strcat_end p m = Some (p + of_nat (length bs))"
  by (induction bs arbitrary: p) (subst strcat_end.simps; simp add: cstr_Cons cstr_Nil add.assoc)+

lemma strcat_loop_run:
  assumes "cstr q bs m" "apart p q (Suc (length bs))" "length bs < 2 ^ 64"
  shows "\<exists>m'. strcat_loop p q m = Some m' \<and> bytes_at p bs m' \<and> (\<forall>a. (\<forall>i<length bs. a \<noteq> p + of_nat i) \<longrightarrow> m' a = m a)"
  using assms
proof (induction bs arbitrary: p q m)
  case Nil
  then show ?case by (subst strcat_loop.simps) (simp add: cstr_Nil bytes_at_def)
next
  case (Cons b bs)
  have q: "m q = b" "b \<noteq> 0" "cstr (q + 1) bs m" using Cons.prems(1) by (simp_all add: cstr_Cons)
  have ap: "apart (p + 1) (q + 1) (Suc (length bs))" "\<And>j. j \<le> Suc (length bs) \<Longrightarrow> p \<noteq> q + of_nat j"
    using apart_Suc [of p q "Suc (length bs)"] Cons.prems(2) by simp_all
  have "p \<noteq> q + 1 + of_nat i" if "i < length (bs @ [0 :: u8])" for i
    using ap(2) [of "Suc i"] that by (simp add: add.assoc)
  then have "cstr (q + 1) bs (m(p := b))" using q(3) bytes_at_upd [of "bs @ [0]" p "q + 1" m b] by (simp add: cstr_def)
  moreover have "length bs < 2 ^ 64" using Cons.prems(3) by simp
  ultimately obtain m' where m': "strcat_loop (p + 1) (q + 1) (m(p := b)) = Some m'"
    "bytes_at (p + 1) bs m'" "\<And>a. \<forall>i<length bs. a \<noteq> p + 1 + of_nat i \<Longrightarrow> m' a = (m(p := b)) a" using Cons.IH [OF _ ap(1)] by blast
  have new: "p \<noteq> p + 1 + of_nat i" if "i < length bs" for i
  proof
    assume "p = p + 1 + of_nat i"
    then have "(of_nat (Suc i) :: u64) = 0" by (simp add: add.assoc)
    then have "2 ^ 64 dvd Suc i" by (simp add: word_of_nat_eq_0_iff del: of_nat_Suc)
    then show False using that Cons.prems(3) dvd_imp_le [of "2 ^ 64" "Suc i"] by simp
  qed
  have "strcat_loop p q m = Some m'" using q m'(1) by (subst strcat_loop.simps) simp
  moreover have "bytes_at p (b # bs) m'" using m'(2) m'(3) [of p] new by (simp add: bytes_at_Cons)
  moreover have "m' a = m a" if "\<forall>i<length (b # bs). a \<noteq> p + of_nat i" for a
  proof -
    have "a \<noteq> p" "\<forall>i<length bs. a \<noteq> p + of_nat (Suc i)" using that by (force simp del: of_nat_Suc)+
    then show ?thesis using m'(3) [of a] by (simp add: add.assoc)
  qed
  ultimately show ?case by blast
qed

lemma strcat_unterminated:
  assumes "cstr dest as m" "cstr src bs m" "dest \<noteq> 0" "src \<noteq> 0" "length bs < 2 ^ 64 - 1"
    "apart (dest + of_nat (length as)) src (Suc (length bs))"
  shows "\<exists>m'. strcat dest src m = Some (dest, m') \<and> bytes_at (dest + of_nat (length as)) bs m'
    \<and> m' (dest + of_nat (length as) + of_nat (length bs)) = m (dest + of_nat (length as) + of_nat (length bs))"
proof -
  define p where "p = dest + of_nat (length as)"
  have "length bs < 2 ^ 64" using assms(5) by simp
  with strcat_loop_run [OF assms(2), of p] assms(6) obtain m' where m': "strcat_loop p src m = Some m'" "bytes_at p bs m'"
    "\<And>a. \<forall>i<length bs. a \<noteq> p + of_nat i \<Longrightarrow> m' a = m a" unfolding p_def by blast
  have "(of_nat (length bs) :: u64) \<noteq> of_nat i" if "i < length bs" for i
    using offset_neq [OF that] assms(5) by simp
  then have "m' (p + of_nat (length bs)) = m (p + of_nat (length bs))" by (intro m'(3)) auto
  then show ?thesis using m' assms(3,4) by (simp add: strcat_def strcat_end_run [OF assms(1)] p_def)
qed

text \<open>\<open>append\<close> adds a character to a C string, and \<open>backspace\<close> takes it away again.\<close>

lemma cstr_snoc_upd:
  assumes "cstr p bs m" "b \<noteq> 0" "length bs + 1 < 2 ^ 64"
  shows "cstr p (bs @ [b]) (m(p + of_nat (length bs) := b, p + (of_nat (length bs) + 1) := 0))"
proof -
  have "bytes_at p (bs @ [b, 0]) (m(p + of_nat (length bs) := b, p + of_nat (Suc (length bs)) := 0))"
    unfolding bytes_at_def
  proof (intro allI impI)
    fix i assume i: "i < length (bs @ [b, 0])"
    consider "i < length bs" | "i = length bs" | "i = Suc (length bs)" using i by fastforce
    then show "(m(p + of_nat (length bs) := b, p + of_nat (Suc (length bs)) := 0)) (p + of_nat i) = (bs @ [b, 0]) ! i"
    proof cases
      case 1
      moreover have "m (p + of_nat i) = bs ! i" using assms(1) 1 by (simp add: cstr_def bytes_at_def nth_append)
      ultimately show ?thesis
        using offset_neq [of i "length bs"] offset_neq [of i "Suc (length bs)"] assms(3) by (simp add: nth_append del: of_nat_Suc)
    next
      case 2
      then show ?thesis using offset_neq [of "length bs" "Suc (length bs)"] assms(3) by (simp add: nth_append del: of_nat_Suc)
    qed (simp add: nth_append del: of_nat_Suc)
  qed
  then show ?thesis using assms(1,2) by (simp add: cstr_def add.commute)
qed

lemma cstr_butlast_upd:
  assumes "cstr p (bs @ [b]) m" "length bs + 1 < 2 ^ 64"
  shows "cstr p bs (m(p + of_nat (length bs) := 0))"
proof -
  have "m (p + of_nat i) = bs ! i" if "i < length bs" for i
    using assms(1) that by (simp add: cstr_def bytes_at_def nth_append)
  moreover have "i < length bs \<Longrightarrow> (of_nat i :: u64) \<noteq> of_nat (length bs)" for i
    using offset_neq [of i "length bs"] assms(2) by auto
  ultimately show ?thesis using assms(1) by (auto simp: cstr_def bytes_at_def nth_append less_Suc_eq)
qed

lemma append_backspace:
  assumes "cstr p bs m" "b \<noteq> 0" "length bs + 1 < 2 ^ 32"
  shows "\<exists>m' m''. append p b m = Some m' \<and> cstr p (bs @ [b]) m' \<and> backspace p m' = Some m'' \<and> cstr p bs m''"
proof -
  define m' where "m' = m(p + of_nat (length bs) := b, p + (of_nat (length bs) + 1) := 0)"
  have l: "length bs < 2 ^ 32" "length bs + 1 < 2 ^ 64" using assms(3) by simp_all
  have c: "cstr p (bs @ [b]) m'" using cstr_snoc_upd [OF assms(1,2) l(2)] by (simp add: m'_def)
  have u: "(ucast (of_nat (length bs) :: u32) :: u64) = of_nat (length bs)"
    "(ucast (of_nat (length bs) + 1 :: u32) :: u64) = of_nat (length bs) + 1"
    using ucast_offset [OF l(1)] ucast_offset [of "length bs + 1"] assms(3) by (simp_all add: add.commute)
  have "append p b m = Some m'" by (simp add: append_def strlen_run [OF assms(1) l(1)] u m'_def)
  moreover have "backspace p m' = Some (m'(p + of_nat (length bs) := 0))"
    using strlen_run [OF c] assms(3) u(1) by (simp add: backspace_def)
  ultimately show ?thesis using c cstr_butlast_upd [OF c l(2)] by blast
qed

text \<open>On an empty string \<open>backspace\<close> clears a byte four gigabytes further on.\<close>

lemma backspace_empty: "cstr p [] m \<Longrightarrow> backspace p m = Some (m(p + 0xffffffff := 0))"
proof -
  assume "cstr p [] m"
  moreover have "(ucast (0 - 1 :: u32) :: u64) = 0xffffffff" by code_simp
  ultimately show ?thesis by (simp add: backspace_def strlen_run [of p "[]" m] del: diff_0)
qed

end
