(* ===== verification/Riscvreg.thy ===== *)
theory Riscvreg
  imports Prelude "HOL-Library.Monad_Syntax"
begin

text \<open>
  \<open>toyos/Kernel/Arch/riscv/riscvreg.h\<close>: the constants of the control and status registers, the macros that
  access these registers, and \<open>boot.S\<close> and \<open>Util/Singleton.h\<close>, the other small parts of \<open>toyos\<close>.  A constant is the value of its
  macro in C++, \<open>None\<close> where its shift is undefined.  The registers are a store by name.  In \<open>csr_read64\<close> on a 32-bit
  processor the counter runs on between the instructions, so it is a function of time there.
\<close>

section \<open>Constants\<close>

text \<open>The shifts of the language.  An \<open>int\<close> has 32 bits: a shift by 32 or more, or of a one past bit 31, is undefined, and a one in
  bit 31 makes the result negative.\<close>

definition int_shl :: "int \<Rightarrow> nat \<Rightarrow> int option" where
  "int_shl a s = (if 32 \<le> s then None
     else if a * 2 ^ s < 2 ^ 31 then Some (a * 2 ^ s)
     else if a * 2 ^ s < 2 ^ 32 then Some (a * 2 ^ s - 2 ^ 32) else None)"

definition long_shl :: "int \<Rightarrow> nat \<Rightarrow> int option" where
  "long_shl a s = (if 64 \<le> s then None
     else if a * 2 ^ s < 2 ^ 63 then Some (a * 2 ^ s)
     else if a * 2 ^ s < 2 ^ 64 then Some (a * 2 ^ s - 2 ^ 64) else None)"

definition ulong_shl :: "int \<Rightarrow> nat \<Rightarrow> int option" where
  "ulong_shl a s = (if 64 \<le> s then None else Some (a * 2 ^ s mod 2 ^ 64))"

definition SSTATUS_FS_SHIFT :: nat where "SSTATUS_FS_SHIFT = 13"
definition SSTATUS_XS_SHIFT :: nat where "SSTATUS_XS_SHIFT = 15"
definition SATP_PPN_S :: nat where "SATP_PPN_S = 0"
definition SATP_ASID_S :: nat where "SATP_ASID_S = 44"
definition SATP_MODE_S :: nat where "SATP_MODE_S = 60"
definition X_RA :: int where "X_RA = 1"
definition X_SP :: int where "X_SP = 2"
definition RD_SHIFT :: nat where "RD_SHIFT = 7"
definition RS1_SHIFT :: nat where "RS1_SHIFT = 15"
definition RS2_SHIFT :: nat where "RS2_SHIFT = 20"
definition IMM_SHIFT :: nat where "IMM_SHIFT = 20"
definition RS2_C_SHIFT :: nat where "RS2_C_SHIFT = 2"

definition scause_macros :: "(string \<times> int option) list" where
  "scause_macros =
    [(''SCAUSE_INTR'', ulong_shl 1 63), (''SCAUSE_CODE'', map_option (\<lambda>x. 2 ^ 64 - 1 - x) (ulong_shl 1 63)),
     (''SCAUSE_INST_MISALIGNED'', Some 0), (''SCAUSE_INST_ACCESS_FAULT'', Some 1), (''SCAUSE_ILLEGAL_INSTRUCTION'', Some 2),
     (''SCAUSE_BREAKPOINT'', Some 3), (''SCAUSE_LOAD_MISALIGNED'', Some 4), (''SCAUSE_LOAD_ACCESS_FAULT'', Some 5),
     (''SCAUSE_STORE_MISALIGNED'', Some 6), (''SCAUSE_STORE_ACCESS_FAULT'', Some 7), (''SCAUSE_ECALL_USER'', Some 8),
     (''SCAUSE_ECALL_SUPERVISOR'', Some 9), (''SCAUSE_INST_PAGE_FAULT'', Some 12), (''SCAUSE_LOAD_PAGE_FAULT'', Some 13),
     (''SCAUSE_STORE_PAGE_FAULT'', Some 15)]"

definition sstatus_macros :: "int \<Rightarrow> (string \<times> int option) list" where
  "sstatus_macros xlen =
    [(''SSTATUS_UIE'', int_shl 1 0), (''SSTATUS_SIE'', int_shl 1 1), (''SSTATUS_UPIE'', int_shl 1 4),
     (''SSTATUS_SPIE'', int_shl 1 5), (''SSTATUS_SPIE_SHIFT'', Some 5), (''SSTATUS_SPP'', int_shl 1 8),
     (''SSTATUS_SPP_SHIFT'', Some 8), (''SSTATUS_FS_SHIFT'', Some (int SSTATUS_FS_SHIFT)),
     (''SSTATUS_FS_OFF'', int_shl 0x0 SSTATUS_FS_SHIFT), (''SSTATUS_FS_INITIAL'', int_shl 0x1 SSTATUS_FS_SHIFT),
     (''SSTATUS_FS_CLEAN'', int_shl 0x2 SSTATUS_FS_SHIFT), (''SSTATUS_FS_DIRTY'', int_shl 0x3 SSTATUS_FS_SHIFT),
     (''SSTATUS_FS_MASK'', int_shl 0x3 SSTATUS_FS_SHIFT), (''SSTATUS_XS_SHIFT'', Some (int SSTATUS_XS_SHIFT)),
     (''SSTATUS_XS_MASK'', int_shl 0x3 SSTATUS_XS_SHIFT), (''SSTATUS_SUM'', int_shl 1 18),
     (''SSTATUS_SD'', (if xlen = 64 then ulong_shl 1 63 else int_shl 1 31))]"

definition mstatus_macros :: "int \<Rightarrow> (string \<times> int option) list" where
  "mstatus_macros xlen =
    [(''MSTATUS_UIE'', int_shl 1 0), (''MSTATUS_SIE'', int_shl 1 1), (''MSTATUS_HIE'', int_shl 1 2),
     (''MSTATUS_MIE'', int_shl 1 3), (''MSTATUS_UPIE'', int_shl 1 4), (''MSTATUS_SPIE'', int_shl 1 5),
     (''MSTATUS_SPIE_SHIFT'', Some 5), (''MSTATUS_HPIE'', int_shl 1 6), (''MSTATUS_MPIE'', int_shl 1 7),
     (''MSTATUS_MPIE_SHIFT'', Some 7), (''MSTATUS_SPP'', int_shl 1 8), (''MSTATUS_SPP_SHIFT'', Some 8),
     (''MSTATUS_HPP_MASK'', Some 0x3), (''MSTATUS_HPP_SHIFT'', Some 9), (''MSTATUS_MPP_MASK'', Some 0x3),
     (''MSTATUS_MPP_SHIFT'', Some 11), (''MSTATUS_FS_MASK'', Some 0x3), (''MSTATUS_FS_SHIFT'', Some 13),
     (''MSTATUS_XS_MASK'', Some 0x3), (''MSTATUS_XS_SHIFT'', Some 15), (''MSTATUS_MPRV'', int_shl 1 17),
     (''MSTATUS_PUM'', int_shl 1 18), (''MSTATUS_VM_MASK'', Some 0x1f), (''MSTATUS_VM_SHIFT'', Some 24),
     (''MSTATUS_VM_MBARE'', Some 0), (''MSTATUS_VM_MBB'', Some 1), (''MSTATUS_VM_MBBID'', Some 2),
     (''MSTATUS_VM_SV32'', Some 8), (''MSTATUS_VM_SV39'', Some 9), (''MSTATUS_VM_SV48'', Some 10),
     (''MSTATUS_VM_SV57'', Some 11), (''MSTATUS_VM_SV64'', Some 12),
     (''MSTATUS_SD'', (if xlen = 64 then ulong_shl 1 63 else int_shl 1 31))]"

definition privilege_macros :: "(string \<times> int option) list" where
  "privilege_macros =
    [(''MSTATUS_PRV_U'', Some 0), (''MSTATUS_PRV_S'', Some 1), (''MSTATUS_PRV_H'', Some 2), (''MSTATUS_PRV_M'', Some 3)]"

definition irq_macros :: "(string \<times> int option) list" where
  "irq_macros =
    [(''MIE_USIE'', int_shl 1 0), (''MIE_SSIE'', int_shl 1 1), (''MIE_HSIE'', int_shl 1 2), (''MIE_MSIE'', int_shl 1 3),
     (''MIE_UTIE'', int_shl 1 4), (''MIE_STIE'', int_shl 1 5), (''MIE_HTIE'', int_shl 1 6), (''MIE_MTIE'', int_shl 1 7),
     (''MIP_USIP'', int_shl 1 0), (''MIP_SSIP'', int_shl 1 1), (''MIP_HSIP'', int_shl 1 2), (''MIP_MSIP'', int_shl 1 3),
     (''MIP_UTIP'', int_shl 1 4), (''MIP_STIP'', int_shl 1 5), (''MIP_HTIP'', int_shl 1 6), (''MIP_MTIP'', int_shl 1 7),
     (''SIE_USIE'', int_shl 1 0), (''SIE_SSIE'', int_shl 1 1), (''SIE_UTIE'', int_shl 1 4), (''SIE_STIE'', int_shl 1 5),
     (''SIE_UEIE'', int_shl 1 8), (''SIE_SEIE'', int_shl 1 9), (''MIP_SEIP'', int_shl 1 9), (''SIP_SSIP'', int_shl 1 1),
     (''SIP_STIP'', int_shl 1 5)]"

definition satp_macros :: "(string \<times> int option) list" where
  "satp_macros =
    [(''SATP_PPN_S'', Some (int SATP_PPN_S)), (''SATP_PPN_M'', long_shl 0xfffffffffff SATP_PPN_S),
     (''SATP_ASID_S'', Some (int SATP_ASID_S)), (''SATP_ASID_M'', int_shl 0xffff SATP_ASID_S),
     (''SATP_MODE_S'', Some (int SATP_MODE_S)), (''SATP_MODE_M'', int_shl 0xf SATP_MODE_S),
     (''SATP_MODE_SV39'', ulong_shl 8 SATP_MODE_S), (''SATP_MODE_SV48'', ulong_shl 9 SATP_MODE_S)]"

definition insn_macros :: "int \<Rightarrow> (string \<times> int option) list" where
  "insn_macros xlen =
    [(''XLEN'', Some xlen), (''XLEN_BYTES'', Some (xlen div 8)), (''INSN_SIZE'', Some 4), (''INSN_C_SIZE'', Some 2),
     (''X_RA'', Some X_RA), (''X_SP'', Some X_SP), (''X_GP'', Some 3), (''X_TP'', Some 4), (''X_T0'', Some 5),
     (''X_T1'', Some 6), (''X_T2'', Some 7), (''X_T3'', Some 28), (''RD_SHIFT'', Some (int RD_SHIFT)),
     (''RD_MASK'', int_shl 0x1f RD_SHIFT), (''RS1_SHIFT'', Some (int RS1_SHIFT)), (''RS1_MASK'', int_shl 0x1f RS1_SHIFT),
     (''RS1_SP'', int_shl X_SP RS1_SHIFT), (''RS2_SHIFT'', Some (int RS2_SHIFT)), (''RS2_MASK'', int_shl 0x1f RS2_SHIFT),
     (''RS2_RA'', int_shl X_RA RS2_SHIFT), (''IMM_SHIFT'', Some (int IMM_SHIFT)), (''IMM_MASK'', int_shl 0xfff IMM_SHIFT),
     (''RS2_C_SHIFT'', Some (int RS2_C_SHIFT)), (''RS2_C_MASK'', int_shl 0x1f RS2_C_SHIFT),
     (''RS2_C_RA'', int_shl X_RA RS2_C_SHIFT)]"

lemmas macro_consts = SSTATUS_FS_SHIFT_def SSTATUS_XS_SHIFT_def SATP_PPN_S_def SATP_ASID_S_def SATP_MODE_S_def X_RA_def X_SP_def
  RD_SHIFT_def RS1_SHIFT_def RS2_SHIFT_def IMM_SHIFT_def RS2_C_SHIFT_def

lemmas macro_groups = scause_macros_def sstatus_macros_def mstatus_macros_def privilege_macros_def irq_macros_def satp_macros_def insn_macros_def

definition riscvreg_macros :: "int \<Rightarrow> (string \<times> int option) list" where
  "riscvreg_macros xlen = scause_macros @ sstatus_macros xlen @ mstatus_macros xlen @ privilege_macros @ irq_macros @ satp_macros @ insn_macros xlen"

section \<open>Access to the registers\<close>

type_synonym csrs = "string \<Rightarrow> u64"

text \<open>The instructions: with a register operand, and with an immediate of five bits.\<close>

definition csrrw :: "string \<Rightarrow> u64 \<Rightarrow> csrs \<Rightarrow> u64 \<times> csrs" where
  "csrrw csr x s = (s csr, s(csr := x))"

definition csrrs :: "string \<Rightarrow> u64 \<Rightarrow> csrs \<Rightarrow> u64 \<times> csrs" where
  "csrrs csr x s = (s csr, s(csr := s csr OR x))"

definition csrrc :: "string \<Rightarrow> u64 \<Rightarrow> csrs \<Rightarrow> u64 \<times> csrs" where
  "csrrc csr x s = (s csr, s(csr := s csr AND NOT x))"

definition zimm :: "u64 \<Rightarrow> u64" where
  "zimm x = ucast (ucast x :: 5 word)"

text \<open>The macros; \<open>const\<close> is \<open>__builtin_constant_p(val)\<close>.\<close>

definition CSR_ZIMM :: "bool \<Rightarrow> u64 \<Rightarrow> bool" where
  "CSR_ZIMM const val \<longleftrightarrow> const \<and> val < 32"

definition csr_swap :: "bool \<Rightarrow> string \<Rightarrow> u64 \<Rightarrow> csrs \<Rightarrow> u64 \<times> csrs" where
  "csr_swap const csr val s = (if CSR_ZIMM const val then csrrw csr (zimm val) s else csrrw csr val s)"

definition csr_write :: "bool \<Rightarrow> string \<Rightarrow> u64 \<Rightarrow> csrs \<Rightarrow> csrs" where
  "csr_write const csr val s = (if CSR_ZIMM const val then snd (csrrw csr (zimm val) s) else snd (csrrw csr val s))"

definition csr_set :: "bool \<Rightarrow> string \<Rightarrow> u64 \<Rightarrow> csrs \<Rightarrow> csrs" where
  "csr_set const csr val s = (if CSR_ZIMM const val then snd (csrrs csr (zimm val) s) else snd (csrrs csr val s))"

definition csr_clear :: "bool \<Rightarrow> string \<Rightarrow> u64 \<Rightarrow> csrs \<Rightarrow> csrs" where
  "csr_clear const csr val s = (if CSR_ZIMM const val then snd (csrrc csr (zimm val) s) else snd (csrrc csr val s))"

definition csr_read :: "string \<Rightarrow> csrs \<Rightarrow> u64" where
  "csr_read csr s = fst (csrrs csr 0 s)"

text \<open>\<open>csr_read64\<close> on a 32-bit processor: \<open>v t\<close> is the counter at the \<open>t\<close>-th read.  The result is the value and the
  number of reads made.\<close>

definition hi32 :: "u64 \<Rightarrow> u32" where "hi32 x = ucast (drop_bit 32 x)"
definition lo32 :: "u64 \<Rightarrow> u32" where "lo32 x = ucast x"

partial_function (option) csr_read64 :: "(nat \<Rightarrow> u64) \<Rightarrow> nat \<Rightarrow> (u64 \<times> nat) option" where
  "csr_read64 v t =
     (let t0 = hi32 (v t);
          low = lo32 (v (t + 1));
          high = hi32 (v (t + 2))
      in if t0 \<noteq> high then csr_read64 v (t + 3)
         else Some (ucast low OR push_bit 32 (ucast high), t + 3))"

definition csr_read64_64 :: "string \<Rightarrow> csrs \<Rightarrow> u64" where
  "csr_read64_64 csr s = csr_read csr s"

section \<open>Start-up and the singleton\<close>

text \<open>\<open>boot.S\<close>: the stack pointer is set to the top of the boot stack, then \<open>kernelMain\<close> is called.\<close>

definition boot_start :: "u64 \<Rightarrow> (u64 \<Rightarrow> 's \<Rightarrow> 'r) \<Rightarrow> 's \<Rightarrow> 'r" where
  "boot_start bootstack kernelMain s = (let sp = bootstack + 4096 * 4 in kernelMain sp s)"

text \<open>\<open>Singleton<T>::getInstance\<close>: the static object is built at the first call.\<close>

definition getInstance :: "('w \<Rightarrow> 'a \<times> 'w) \<Rightarrow> 'a option \<Rightarrow> 'w \<Rightarrow> 'a \<times> 'a option \<times> 'w" where
  "getInstance construct inst w =
     (case inst of Some x \<Rightarrow> (x, inst, w) | None \<Rightarrow> (case construct w of (x, w) \<Rightarrow> (x, Some x, w)))"

lemma getInstance_once: "getInstance construct inst w = (x, inst', w') \<Longrightarrow> inst' = Some x \<and> getInstance construct inst' w' = (x, inst', w')"
  by (auto simp: getInstance_def split: option.splits prod.splits)

section \<open>The macros do what they say\<close>

lemma zimm_small: "x < 32 \<Longrightarrow> zimm x = x"
  by (simp add: zimm_def word_unat_eq_iff unat_ucast_mod word_less_nat_alt)

lemma csr_macros:
  "csr_swap const csr val s = (s csr, s(csr := val))" "csr_write const csr val s = s(csr := val)"
  "csr_set const csr val s = s(csr := s csr OR val)" "csr_clear const csr val s = s(csr := s csr AND NOT val)"
  "csr_read csr s = s csr"
  by (auto simp: csr_swap_def csr_write_def csr_set_def csr_clear_def csr_read_def csrrw_def csrrs_def csrrc_def CSR_ZIMM_def zimm_small)

lemma hi_lo: "ucast (lo32 x) OR push_bit 32 (ucast (hi32 x)) = (x :: u64)"
proof (rule bit_word_eqI)
  fix n assume "n < LENGTH(64)"
  then show "bit (ucast (lo32 x) OR push_bit 32 (ucast (hi32 x)) :: u64) n = bit x n"
    by (cases "n < 32") (auto simp: lo32_def hi32_def bit_simps)
qed

lemma unat_hi32: "unat (hi32 x) = unat x div 4294967296"
proof -
  have "unat x < 18446744073709551616" using unsigned_less [of x] by simp
  then show ?thesis by (simp add: hi32_def unat_ucast_mod unat_drop_bit_div)
qed

lemma hi32_mono: "x \<le> y \<Longrightarrow> hi32 x \<le> hi32 y"
  by (simp add: word_le_nat_alt unat_hi32 div_le_mono)

text \<open>Two equal readings of the upper half enclose a consistent value.\<close>

lemma read64_stable:
  assumes "mono v" "hi32 (v t) = hi32 (v (t + 2))"
  shows "csr_read64 v t = Some (v (t + 1), t + 3)"
proof -
  have "hi32 (v t) \<le> hi32 (v (t + 1))" "hi32 (v (t + 1)) \<le> hi32 (v (t + 2))"
    by (rule hi32_mono, rule monoD [OF assms(1)], simp)+
  then have "hi32 (v (t + 2)) = hi32 (v (t + 1))" using assms(2) by simp
  then show ?thesis using assms(2) by (subst csr_read64.simps) (simp add: Let_def hi_lo)
qed

section \<open>Properties\<close>

text \<open>C40: \<open>csr_read64\<close> on a 32-bit processor reads a running 64-bit counter in two halves.  If the counter does not go
  back, and does not advance by \<open>2 ^ 32\<close> within six reads, the macro ends after at most two rounds, and the value is
  one that the counter had while it was read.\<close>

theorem csr_read64_atomic:
  assumes "mono v" "unat (v (t + 5)) < unat (v t) + 4294967296"
  shows "\<exists>k t'. csr_read64 v t = Some (v k, t') \<and> t \<le> k \<and> k < t' \<and> t' \<le> t + 6"
proof (cases "hi32 (v t) = hi32 (v (t + 2))")
  case True
  then show ?thesis using read64_stable [OF assms(1), of t] by (intro exI [of _ "t + 1"] exI [of _ "t + 3"]) simp
next
  case False
  let ?h = "\<lambda>i. unat (v (t + i)) div 4294967296"
  have m: "unat (v (t + i)) \<le> unat (v (t + j))" if "i \<le> j" for i j
    using monoD [OF assms(1), of "t + i" "t + j"] that by (simp add: word_le_nat_alt)
  have "?h 0 \<noteq> ?h 2" using False by (simp add: word_unat_eq_iff unat_hi32)
  then have "?h 0 < ?h 2" using div_le_mono [OF m [of 0 2]] by (simp add: le_neq_implies_less)
  moreover have "?h 5 \<le> ?h 0 + 1" using assms(2) div_le_mono [of "unat (v (t + 5))" "unat (v t) + 4294967296" 4294967296] by simp
  moreover have "?h 2 \<le> ?h 3" "?h 3 \<le> ?h 5" by (rule div_le_mono, rule m, simp)+
  ultimately have "?h 3 = ?h 5" by linarith
  then have "hi32 (v (t + 3)) = hi32 (v (t + 3 + 2))" by (simp add: word_unat_eq_iff unat_hi32 add.commute)
  then have "csr_read64 v (t + 3) = Some (v (t + 4), t + 6)" using read64_stable [OF assms(1), of "t + 3"] by (simp add: add.commute)
  then have "csr_read64 v t = Some (v (t + 4), t + 6)" using False by (subst csr_read64.simps) (simp add: Let_def)
  then show ?thesis by (intro exI [of _ "t + 4"] exI [of _ "t + 6"]) simp
qed

definition demo_counter :: "nat \<Rightarrow> u64" where
  "demo_counter i = (if i = 0 then 0xffffffff else 0x100000000)"

theorem csr_read64_atomic_witness: "csr_read64 demo_counter 0 = Some (0x100000000, 6)"
proof -
  have "mono demo_counter" by (rule monoI) (simp add: demo_counter_def)
  moreover have "unat (demo_counter (0 + 5)) < unat (demo_counter 0) + 4294967296" by (simp add: demo_counter_def)
  ultimately obtain k t' where 1: "csr_read64 demo_counter 0 = Some (demo_counter k, t')" "k < t'" "t' \<le> 6"
    using csr_read64_atomic [of demo_counter 0] by auto
  have "csr_read64 demo_counter 0 = csr_read64 demo_counter 3"
    by (subst csr_read64.simps) (simp add: demo_counter_def hi32_def Let_def)
  also have "\<dots> = Some (0x100000000, 6)"
    by (subst csr_read64.simps) (simp add: demo_counter_def hi32_def lo32_def Let_def)
  finally show ?thesis using 1 by simp
qed

text \<open>On a 64-bit processor every constant has a value but the masks of the address space identifier and of the mode of
  \<open>satp\<close>, whose shifts are wider than an \<open>int\<close>; the mask of the immediate field is negative.\<close>

lemma riscvreg_undefined:
  "map fst (filter (\<lambda>(n, v). v = None) (riscvreg_macros 64)) = [''SATP_ASID_M'', ''SATP_MODE_M'']"
  "map fst (filter (\<lambda>(n, v). \<exists>x. v = Some x \<and> x < 0) (riscvreg_macros 64)) = [''IMM_MASK'']"
  by (simp_all add: riscvreg_macros_def macro_groups macro_consts int_shl_def long_shl_def ulong_shl_def)

end
